(* ===== verification/RPC_Prelude.thy ===== *)
theory RPC_Prelude
  imports Main "HOL-Library.Word" "HOL-Library.Signed_Division"
begin

text \<open>
  The Go notions every component shares: sized integers, bytes and their big-endian
  layout, truncated division and signed wrap-around, instants and durations, iteration
  over a map in the order the runtime picks, buffered channels, decimal formatting; and
  the generic contract of a transition system with an invariant.
  A function whose result type is an \<open>option\<close> because it may panic says so; \<open>None\<close> is
  then the panicking goroutine.
\<close>

unbundle bit_operations_syntax

named_theorems go_defs \<open>definitions of Go primitives\<close>

section \<open>Integers, bytes, time\<close>

type_synonym byte = "8 word"
type_synonym bytes = "byte list"
type_synonym u16 = "16 word"
type_synonym u32 = "32 word"
type_synonym u64 = "64 word"
type_synonym i32 = "32 word"

text \<open>
  An \<open>int64\<close> value is an \<^typ>\<open>int\<close> and every operation that can leave the range is followed
  by \<open>wrap64\<close>, the two's complement wrap-around of Go.
\<close>

definition wrap64 :: "int \<Rightarrow> int" where
  "wrap64 x = (x + 2 ^ 63) mod 2 ^ 64 - 2 ^ 63"

definition in64 :: "int \<Rightarrow> bool" where
  "in64 x \<longleftrightarrow> - (2 ^ 63) \<le> x \<and> x < 2 ^ 63"

lemma wrap64_id [simp]: "in64 x \<Longrightarrow> wrap64 x = x"
  by (simp add: wrap64_def in64_def)

lemma in64_wrap64 [simp]: "in64 (wrap64 x)"
proof -
  have "0 \<le> (x + 2 ^ 63) mod 2 ^ 64 \<and> (x + 2 ^ 63) mod 2 ^ 64 < 2 ^ 64"
    by (simp add: pos_mod_bound pos_mod_sign)
  then show ?thesis
    by (simp add: wrap64_def in64_def)
qed

lemma in64I: "- (2 ^ 62) \<le> x \<Longrightarrow> x \<le> 2 ^ 62 \<Longrightarrow> in64 x"
  by (simp add: in64_def)

text \<open>
  An instant is its nanosecond count, a duration an \<open>int64\<close> nanosecond count.
  \<open>Time.Sub\<close> saturates at the ends of the duration range.
\<close>

type_synonym instant = int
type_synonym duration = int

definition time_Sub :: "instant \<Rightarrow> instant \<Rightarrow> duration" where
  "time_Sub t u = max (- (2 ^ 63)) (min (2 ^ 63 - 1) (t - u))"

definition Second :: duration where
  "Second = 1000000000"

definition Millisecond :: duration where
  "Millisecond = 1000000"

definition Microsecond :: duration where
  "Microsecond = 1000"

lemma in64_0 [simp]: "in64 0"
  by (simp add: in64_def)

lemma in64_between: "0 \<le> x \<Longrightarrow> x \<le> y \<Longrightarrow> y < 2 ^ 63 \<Longrightarrow> in64 x"
  by (simp add: in64_def)

lemma time_Sub_exact [simp]: "in64 (t - u) \<Longrightarrow> time_Sub t u = t - u"
  by (simp add: time_Sub_def in64_def)

lemma in64_time_Sub [simp]: "in64 (time_Sub t u)"
  by (auto simp: time_Sub_def in64_def)

lemma sdiv_pos [simp]: "0 \<le> (a::int) \<Longrightarrow> 0 < b \<Longrightarrow> a sdiv b = a div b"
  by (cases "a = 0") (simp_all add: signed_divide_int_def)

lemma smod_pos [simp]: "0 \<le> (a::int) \<Longrightarrow> 0 < b \<Longrightarrow> a smod b = a mod b"
  by (cases "a = 0") (simp_all add: signed_modulo_int_def minus_div_mult_eq_mod)

section \<open>Big-endian bytes\<close>

definition PutUint16 :: "u16 \<Rightarrow> bytes" where
  "PutUint16 v = [ucast (drop_bit 8 v), ucast v]"

definition PutUint32 :: "u32 \<Rightarrow> bytes" where
  "PutUint32 v = [ucast (drop_bit 24 v), ucast (drop_bit 16 v), ucast (drop_bit 8 v), ucast v]"

definition PutUint64 :: "u64 \<Rightarrow> bytes" where
  "PutUint64 v =
     [ucast (drop_bit 56 v), ucast (drop_bit 48 v), ucast (drop_bit 40 v), ucast (drop_bit 32 v),
      ucast (drop_bit 24 v), ucast (drop_bit 16 v), ucast (drop_bit 8 v), ucast v]"

text \<open>The readers panic on a slice that is too short; the callers below always check first.\<close>

fun Uint16 :: "bytes \<Rightarrow> u16 option" where
  "Uint16 (a # b # _) = Some (push_bit 8 (ucast a) OR ucast b)"
| "Uint16 _ = None"

fun Uint32 :: "bytes \<Rightarrow> u32 option" where
  "Uint32 (a # b # c # d # _) =
     Some (push_bit 24 (ucast a) OR push_bit 16 (ucast b) OR push_bit 8 (ucast c) OR ucast d)"
| "Uint32 _ = None"

fun Uint64 :: "bytes \<Rightarrow> u64 option" where
  "Uint64 (a # b # c # d # e # f # g # h # _) =
     Some (push_bit 56 (ucast a) OR push_bit 48 (ucast b) OR push_bit 40 (ucast c)
       OR push_bit 32 (ucast d) OR push_bit 24 (ucast e) OR push_bit 16 (ucast f)
       OR push_bit 8 (ucast g) OR ucast h)"
| "Uint64 _ = None"

lemma length_PutUint [simp]:
  "length (PutUint16 v) = 2" "length (PutUint32 w) = 4" "length (PutUint64 x) = 8"
  by (simp_all add: PutUint16_def PutUint32_def PutUint64_def)

lemma bit_byte_at:
  "bit (push_bit k (ucast (ucast (drop_bit k (v :: 'a::len word)) :: byte)) :: 'a word) n
     \<longleftrightarrow> k \<le> n \<and> n < k + 8 \<and> bit v n"
  by (auto simp: bit_simps dest: bit_imp_le_length)

lemma bit_low_byte:
  "bit (ucast (ucast (v :: 'a::len word) :: byte) :: 'a word) n \<longleftrightarrow> n < 8 \<and> bit v n"
  by (auto simp: bit_simps dest: bit_imp_le_length)

lemma bit_byte_shifted:
  "bit (push_bit j (ucast (b :: byte)) :: 'a::len word) m
     \<longleftrightarrow> m < LENGTH('a) \<and> j \<le> m \<and> m < j + 8 \<and> bit b (m - j)"
  by (auto simp: bit_simps dest: bit_imp_le_length)

lemma bit_byte_unshifted:
  "bit (ucast (b :: byte) :: 'a::len word) m \<longleftrightarrow> m < LENGTH('a) \<and> m < 8 \<and> bit b m"
  by (auto simp: bit_simps dest: bit_imp_le_length)

lemma Uint16_PutUint16 [simp]: "Uint16 (PutUint16 v @ r) = Some v"
proof -
  have "n < 16 \<Longrightarrow> n < 8 \<or> 8 \<le> n \<and> n < 16" for n :: nat by arith
  then show ?thesis
    by (auto simp: PutUint16_def bit_or_iff bit_byte_at bit_low_byte intro!: bit_word_eqI)
qed

lemma Uint32_PutUint32 [simp]: "Uint32 (PutUint32 v @ r) = Some v"
proof -
  have "n < 32 \<Longrightarrow> n < 8 \<or> 8 \<le> n \<and> n < 16 \<or> 16 \<le> n \<and> n < 24 \<or> 24 \<le> n \<and> n < 32" for n :: nat
    by arith
  then show ?thesis
    by (auto simp: PutUint32_def bit_or_iff bit_byte_at bit_low_byte intro!: bit_word_eqI)
qed

lemma Uint64_PutUint64 [simp]: "Uint64 (PutUint64 v @ r) = Some v"
proof -
  have "n < 64 \<Longrightarrow> n < 8 \<or> 8 \<le> n \<and> n < 16 \<or> 16 \<le> n \<and> n < 24 \<or> 24 \<le> n \<and> n < 32
      \<or> 32 \<le> n \<and> n < 40 \<or> 40 \<le> n \<and> n < 48 \<or> 48 \<le> n \<and> n < 56 \<or> 56 \<le> n \<and> n < 64" for n :: nat
    by arith
  then show ?thesis
    by (auto simp: PutUint64_def bit_or_iff bit_byte_at bit_low_byte intro!: bit_word_eqI)
qed

text \<open>Conversely, the bytes read are the bytes written back.\<close>

lemma PutUint16_Uint16: "Uint16 bs = Some v \<Longrightarrow> PutUint16 v = take 2 bs"
  by (induction bs rule: Uint16.induct)
    (auto simp: PutUint16_def bit_or_iff bit_byte_shifted bit_byte_unshifted bit_unsigned_iff
      bit_drop_bit_eq intro!: bit_word_eqI)

lemma PutUint32_Uint32: "Uint32 bs = Some v \<Longrightarrow> PutUint32 v = take 4 bs"
  by (induction bs rule: Uint32.induct)
    (auto simp: PutUint32_def bit_or_iff bit_byte_shifted bit_byte_unshifted bit_unsigned_iff
      bit_drop_bit_eq intro!: bit_word_eqI)

lemma PutUint64_Uint64: "Uint64 bs = Some v \<Longrightarrow> PutUint64 v = take 8 bs"
  by (induction bs rule: Uint64.induct)
    (auto simp: PutUint64_def bit_or_iff bit_byte_shifted bit_byte_unshifted bit_unsigned_iff
      bit_drop_bit_eq intro!: bit_word_eqI)

section \<open>Decimal and hexadecimal formatting\<close>

text \<open>The verbs \<open>%d\<close> and \<open>%X\<close> of \<open>fmt.Sprintf\<close>.\<close>

definition digit_char :: "nat \<Rightarrow> char" where
  "digit_char d = char_of (if d < 10 then 48 + d else 55 + d)"

fun nat_base :: "nat \<Rightarrow> nat \<Rightarrow> string" where
  "nat_base b n = (if n < b \<or> b < 2 then [digit_char n]
     else nat_base b (n div b) @ [digit_char (n mod b)])"

declare nat_base.simps [simp del]

definition fmt_d :: "int \<Rightarrow> string" where
  "fmt_d i = (if i < 0 then ''-'' @ nat_base 10 (nat (- i)) else nat_base 10 (nat i))"

definition fmt_X :: "nat \<Rightarrow> string" where
  "fmt_X n = nat_base 16 n"

definition digit_val :: "char \<Rightarrow> nat" where
  "digit_val c = of_char c - 48"

lemma digit_val_digit_char: "d < 10 \<Longrightarrow> digit_val (digit_char d) = d"
  by (simp add: digit_val_def digit_char_def)

lemma nat_base_value: "foldl (\<lambda>a c. 10 * a + digit_val c) 0 (nat_base 10 n) = n"
proof (induction n rule: less_induct)
  case (less n)
  then show ?case
    by (cases "n < 10") (simp_all add: nat_base.simps [of 10 n] digit_val_digit_char)
qed

lemma nat_base_inj [simp]: "nat_base 10 m = nat_base 10 n \<longleftrightarrow> m = n"
  by (metis nat_base_value)

lemma digit_char_not_dash: "d < 10 \<Longrightarrow> digit_char d \<noteq> CHR ''-'' \<and> digit_char d \<noteq> CHR '':''"
  by (auto simp: digit_char_def dest!: arg_cong [where f = "of_char :: char \<Rightarrow> nat"])

lemma nat_base_digits: "c \<in> set (nat_base 10 n) \<Longrightarrow> c \<noteq> CHR ''-'' \<and> c \<noteq> CHR '':''"
proof (induction n rule: less_induct)
  case (less n)
  then show ?case
    using digit_char_not_dash [of n] digit_char_not_dash [of "n mod 10"] less.IH [of "n div 10"]
    by (cases "n < 10") (auto simp: nat_base.simps [of 10 n])
qed

lemma append_sep_inj:
  assumes "xs @ c # ys = xs' @ c # ys'" and "c \<notin> set ys" and "c \<notin> set ys'"
  shows "xs = xs' \<and> ys = ys'"
  using assms by (auto simp: append_eq_append_conv2 append_eq_Cons_conv Cons_eq_append_conv)

section \<open>Iterating over a map\<close>

text \<open>
  \<open>for k, v := range m\<close> visits every entry once, in an order the runtime chooses: the
  order is an argument \<open>ks\<close>, and \<open>range_order m ks\<close> says that it is one of the possible
  ones.
\<close>

definition range_order :: "('k \<rightharpoonup> 'v) \<Rightarrow> 'k list \<Rightarrow> bool" where
  "range_order m ks \<longleftrightarrow> distinct ks \<and> set ks = dom m"

definition range_vals :: "('k \<rightharpoonup> 'v) \<Rightarrow> 'k list \<Rightarrow> 'v list" where
  "range_vals m ks = List.map_filter m ks"

definition copy_into :: "('k \<rightharpoonup> 'v) \<Rightarrow> ('k \<rightharpoonup> 'v) \<Rightarrow> 'k list \<Rightarrow> ('k \<rightharpoonup> 'v)" where
  "copy_into acc m ks = fold (\<lambda>k a. case m k of None \<Rightarrow> a | Some v \<Rightarrow> a(k \<mapsto> v)) ks acc"

lemma set_range_vals: "range_order m ks \<Longrightarrow> set (range_vals m ks) = ran m"
  by (force simp: range_order_def range_vals_def map_filter_def ran_def)

lemma copy_into_lookup:
  "copy_into acc m ks k = (if k \<in> set ks \<and> m k \<noteq> None then m k else acc k)"
  by (induction ks arbitrary: acc) (auto simp: copy_into_def split: option.splits)

lemma copy_into_eq: "range_order m ks \<Longrightarrow> copy_into acc m ks = acc ++ m"
  by (auto simp: fun_eq_iff copy_into_lookup range_order_def map_add_def split: option.splits)

section \<open>Buffered channels\<close>

record 'a chan =
  chan_buf :: "'a list"
  chan_cap :: nat
  chan_closed :: bool

definition make_chan :: "nat \<Rightarrow> 'a chan" where
  "make_chan n = \<lparr>chan_buf = [], chan_cap = n, chan_closed = False\<rparr>"

datatype send_result = Sent | SendFull | SendPanic

text \<open>\<open>select { case ch <- v: default: }\<close>: sending on a closed channel panics.\<close>

definition try_send :: "'a chan \<Rightarrow> 'a \<Rightarrow> 'a chan \<times> send_result" where
  "try_send ch v =
     (if chan_closed ch then (ch, SendPanic)
      else if length (chan_buf ch) < chan_cap ch
        then (ch\<lparr>chan_buf := chan_buf ch @ [v]\<rparr>, Sent)
      else (ch, SendFull))"

datatype 'a recv_result = Got 'a | RecvClosed | RecvEmpty

text \<open>\<open>select { case v, ok := <-ch: default: }\<close>: a closed channel first gives what it holds.\<close>

definition try_recv :: "'a chan \<Rightarrow> 'a chan \<times> 'a recv_result" where
  "try_recv ch = (case chan_buf ch of
      v # vs \<Rightarrow> (ch\<lparr>chan_buf := vs\<rparr>, Got v)
    | [] \<Rightarrow> (ch, if chan_closed ch then RecvClosed else RecvEmpty))"

text \<open>\<open>close(ch)\<close> panics on a closed channel.\<close>

definition close_chan :: "'a chan \<Rightarrow> 'a chan option" where
  "close_chan ch = (if chan_closed ch then None else Some (ch\<lparr>chan_closed := True\<rparr>))"

definition chan_wf :: "'a chan \<Rightarrow> bool" where
  "chan_wf ch \<longleftrightarrow> length (chan_buf ch) \<le> chan_cap ch"

lemma chan_wf_make [simp]: "chan_wf (make_chan n)"
  by (simp add: chan_wf_def make_chan_def)

lemma chan_wf_try_send: "chan_wf ch \<Longrightarrow> chan_wf (fst (try_send ch v))"
  by (auto simp: chan_wf_def try_send_def)

lemma chan_wf_try_recv: "chan_wf ch \<Longrightarrow> chan_wf (fst (try_recv ch))"
  by (auto simp: chan_wf_def try_recv_def split: list.splits)

lemma chan_fifo:
  "try_send ch v = (ch', Sent) \<Longrightarrow>
   chan_buf ch' = chan_buf ch @ [v] \<and> \<not> chan_closed ch' \<and> chan_cap ch' = chan_cap ch"
  by (auto simp: try_send_def split: if_splits)

lemma unat_inc: "(a :: 'w::len word) < b \<Longrightarrow> unat (a + 1) = Suc (unat a)"
proof -
  assume "a < b"
  moreover have "unat b < 2 ^ LENGTH('w)"
    by (rule unsigned_less)
  ultimately have "unat a + 1 < 2 ^ LENGTH('w)"
    unfolding word_less_nat_alt by linarith
  then show ?thesis
    by (simp add: unat_word_ariths)
qed

section \<open>Transition systems and invariants\<close>

inductive reach :: "('s \<Rightarrow> bool) \<Rightarrow> ('s \<Rightarrow> 's \<Rightarrow> bool) \<Rightarrow> 's \<Rightarrow> bool"
  for init :: "'s \<Rightarrow> bool" and stp :: "'s \<Rightarrow> 's \<Rightarrow> bool" where
  reach_init: "init s \<Longrightarrow> reach init stp s"
| reach_step: "reach init stp s \<Longrightarrow> stp s t \<Longrightarrow> reach init stp t"

text \<open>
  The contract of a component that runs concurrently: its atomic sections are the steps,
  and the invariant holds at the start and across every step.
\<close>

locale invariant_system =
  fixes init :: "'s \<Rightarrow> bool"
    and stp :: "'s \<Rightarrow> 's \<Rightarrow> bool"
    and inv :: "'s \<Rightarrow> bool"
  assumes inv_init: "init s \<Longrightarrow> inv s"
    and inv_step: "stp s t \<Longrightarrow> inv s \<Longrightarrow> inv t"
begin

lemma reach_inv: "reach init stp s \<Longrightarrow> inv s"
  by (induction rule: reach.induct) (auto intro: inv_init inv_step)

lemma run_inv: "stp\<^sup>*\<^sup>* s t \<Longrightarrow> inv s \<Longrightarrow> inv t"
  by (induction rule: rtranclp_induct) (auto intro: inv_step)

end

end
