(* ===== verification/Protocol_Header.thy ===== *)
theory Protocol_Header
  imports RPC_Prelude
begin

text \<open>
  The fixed 20-byte frame header of \<open>pkg/protocol/header.go\<close>: its layout, its encoder and
  its validating decoder. The decoder works on a header it mutates, so the model takes the
  old header and returns the new one with the error, if any: the fields assigned before a
  check fails keep their new values.
\<close>

section \<open>Constants and field types\<close>

definition HeaderLength :: nat where
  "HeaderLength = 20"

definition ProtocolMagic :: u16 where
  "ProtocolMagic = 0xCAFE"

definition ProtocolVersion :: byte where
  "ProtocolVersion = 0x01"

type_synonym MessageType = byte
type_synonym CodecType = byte
type_synonym CompressType = byte

definition MsgTypeRequest :: MessageType where
  "MsgTypeRequest = 0x01"

definition MsgTypeResponse :: MessageType where
  "MsgTypeResponse = 0x02"

definition CodecTypeJSON :: CodecType where
  "CodecTypeJSON = 0x00"

definition CodecTypeProtobuf :: CodecType where
  "CodecTypeProtobuf = 0x01"

definition CodecTypeMsgPack :: CodecType where
  "CodecTypeMsgPack = 0x02"

definition CompressTypeNone :: CompressType where
  "CompressTypeNone = 0x00"

definition CompressTypeGzip :: CompressType where
  "CompressTypeGzip = 0x01"

definition CompressTypeSnappy :: CompressType where
  "CompressTypeSnappy = 0x02"

lemmas type_consts [go_defs] =
  MsgTypeRequest_def MsgTypeResponse_def CodecTypeJSON_def CodecTypeProtobuf_def
  CodecTypeMsgPack_def CompressTypeNone_def CompressTypeGzip_def CompressTypeSnappy_def

definition fmt_byte :: "byte \<Rightarrow> string" where
  "fmt_byte b = fmt_d (uint b)"

definition MessageType_String :: "MessageType \<Rightarrow> string" where
  "MessageType_String t =
     (if t = MsgTypeRequest then ''request''
      else if t = MsgTypeResponse then ''response''
      else ''unknown('' @ fmt_byte t @ '')'')"

definition CodecType_String :: "CodecType \<Rightarrow> string" where
  "CodecType_String t =
     (if t = CodecTypeJSON then ''json''
      else if t = CodecTypeProtobuf then ''protobuf''
      else if t = CodecTypeMsgPack then ''msgpack''
      else ''unknown('' @ fmt_byte t @ '')'')"

definition CompressType_String :: "CompressType \<Rightarrow> string" where
  "CompressType_String t =
     (if t = CompressTypeNone then ''none''
      else if t = CompressTypeGzip then ''gzip''
      else ''unknown('' @ fmt_byte t @ '')'')"

section \<open>The header\<close>

record Header =
  h_Magic :: u16
  h_Version :: byte
  h_MsgType :: MessageType
  h_Codec :: CodecType
  h_Compress :: CompressType
  h_Reserved :: "byte \<times> byte"
  h_RequestID :: u64
  h_BodyLength :: u32

text \<open>\<open>&protocol.Header{}\<close>\<close>

definition zero_Header :: Header where
  "zero_Header = \<lparr>h_Magic = 0, h_Version = 0, h_MsgType = 0, h_Codec = 0, h_Compress = 0,
     h_Reserved = (0, 0), h_RequestID = 0, h_BodyLength = 0\<rparr>"

definition NewHeader :: "MessageType \<Rightarrow> CodecType \<Rightarrow> u64 \<Rightarrow> u32 \<Rightarrow> Header" where
  "NewHeader msgType codec requestID bodyLen =
     \<lparr>h_Magic = ProtocolMagic, h_Version = ProtocolVersion, h_MsgType = msgType,
      h_Codec = codec, h_Compress = CompressTypeNone, h_Reserved = (0, 0),
      h_RequestID = requestID, h_BodyLength = bodyLen\<rparr>"

definition Header_Encode :: "Header \<Rightarrow> bytes" where
  "Header_Encode h =
     PutUint16 (h_Magic h)
     @ [h_Version h, h_MsgType h, h_Codec h, h_Compress h, fst (h_Reserved h), snd (h_Reserved h)]
     @ PutUint64 (h_RequestID h)
     @ PutUint32 (h_BodyLength h)"

datatype header_error =
    InvalidHeaderLength nat
  | InvalidMagic u16
  | UnsupportedVersion byte

definition be16 :: "bytes \<Rightarrow> u16" where "be16 bs = the (Uint16 bs)"
definition be32 :: "bytes \<Rightarrow> u32" where "be32 bs = the (Uint32 bs)"
definition be64 :: "bytes \<Rightarrow> u64" where "be64 bs = the (Uint64 bs)"

definition Header_Decode :: "Header \<Rightarrow> bytes \<Rightarrow> Header \<times> header_error option" where
  "Header_Decode h buf =
     (if length buf < HeaderLength then (h, Some (InvalidHeaderLength (length buf)))
      else let h1 = h\<lparr>h_Magic := be16 (take 2 buf)\<rparr> in
        if h_Magic h1 \<noteq> ProtocolMagic then (h1, Some (InvalidMagic (h_Magic h1)))
        else let h2 = h1\<lparr>h_Version := buf ! 2\<rparr> in
          if h_Version h2 \<noteq> ProtocolVersion then (h2, Some (UnsupportedVersion (h_Version h2)))
          else (h2\<lparr>h_MsgType := buf ! 3, h_Codec := buf ! 4, h_Compress := buf ! 5,
                   h_Reserved := (buf ! 6, buf ! 7),
                   h_RequestID := be64 (take 8 (drop 8 buf)),
                   h_BodyLength := be32 (take 4 (drop 16 buf))\<rparr>, None))"

definition Header_String :: "Header \<Rightarrow> string" where
  "Header_String h =
     ''Header{Magic=0x'' @ fmt_X (unat (h_Magic h))
     @ '', Version='' @ fmt_byte (h_Version h)
     @ '', Type='' @ fmt_byte (h_MsgType h)
     @ '', Codec='' @ fmt_byte (h_Codec h)
     @ '', Compress='' @ fmt_byte (h_Compress h)
     @ '', RequestID='' @ fmt_d (uint (h_RequestID h))
     @ '', BodyLen='' @ fmt_d (uint (h_BodyLength h)) @ ''}''"

section \<open>Well-formed headers and the round trips\<close>

definition header_ok :: "Header \<Rightarrow> bool" where
  "header_ok h \<longleftrightarrow> h_Magic h = ProtocolMagic \<and> h_Version h = ProtocolVersion"

lemma header_ok_NewHeader [simp]:
  "header_ok (NewHeader t c r n)" "header_ok (NewHeader t c r n\<lparr>h_Compress := z\<rparr>)"
  by (simp_all add: header_ok_def NewHeader_def)

lemma length_Header_Encode [simp]: "length (Header_Encode h) = HeaderLength"
  by (simp add: Header_Encode_def HeaderLength_def)

lemma be_PutUint [simp]:
  "be16 (PutUint16 a) = a" "be32 (PutUint32 b) = b" "be64 (PutUint64 c) = c"
  using Uint16_PutUint16 [of a "[]"] Uint32_PutUint32 [of b "[]"] Uint64_PutUint64 [of c "[]"]
  by (simp_all add: be16_def be32_def be64_def)

text \<open>The slices the decoder takes out of an encoded header.\<close>

lemma Header_Encode_slices:
  "take 2 (Header_Encode h @ r) = PutUint16 (h_Magic h)"
  "(Header_Encode h @ r) ! 2 = h_Version h"
  "(Header_Encode h @ r) ! 3 = h_MsgType h"
  "(Header_Encode h @ r) ! 4 = h_Codec h"
  "(Header_Encode h @ r) ! 5 = h_Compress h"
  "(Header_Encode h @ r) ! 6 = fst (h_Reserved h)"
  "(Header_Encode h @ r) ! 7 = snd (h_Reserved h)"
  "take 8 (drop 8 (Header_Encode h @ r)) = PutUint64 (h_RequestID h)"
  "take 4 (drop 16 (Header_Encode h @ r)) = PutUint32 (h_BodyLength h)"
  by (simp_all add: Header_Encode_def nth_append PutUint16_def PutUint64_def PutUint32_def)

lemma Header_Decode_Encode:
  "header_ok h \<Longrightarrow> Header_Decode h0 (Header_Encode h @ r) = (h, None)"
  by (simp add: Header_Decode_def Header_Encode_slices header_ok_def Let_def
      del: take_append drop_append)

text \<open>(C8) Decoding the bytes of an encoded header, whatever follows them in the buffer and
  whatever the header struct held before, gives the header back, for every header that
  carries the protocol's magic number and version.\<close>

theorem header_roundtrip:
  assumes "header_ok h"
  shows "Header_Decode h0 (Header_Encode h @ rest) = (h, None)"
  using assms by (rule Header_Decode_Encode)

theorem header_roundtrip_witness:
  "header_ok (NewHeader MsgTypeRequest CodecTypeJSON 100 200) \<and>
   Header_Decode zero_Header (Header_Encode (NewHeader MsgTypeRequest CodecTypeJSON 100 200) @ [7])
     = (NewHeader MsgTypeRequest CodecTypeJSON 100 200, None)"
  using header_roundtrip [of "NewHeader MsgTypeRequest CodecTypeJSON 100 200" zero_Header "[7]"]
  by simp

lemma Uint16_Some_be: "2 \<le> length bs \<Longrightarrow> Uint16 bs = Some (be16 bs)"
  by (cases bs rule: Uint16.cases) (simp_all add: be16_def)

lemma Uint32_Some_be: "4 \<le> length bs \<Longrightarrow> Uint32 bs = Some (be32 bs)"
  by (cases bs rule: Uint32.cases) (simp_all add: be32_def)

lemma Uint64_Some_be: "8 \<le> length bs \<Longrightarrow> Uint64 bs = Some (be64 bs)"
  by (cases bs rule: Uint64.cases) (simp_all add: be64_def)

lemmas Uint_Some_be = Uint16_Some_be Uint32_Some_be Uint64_Some_be

lemma PutUint_be:
  "2 \<le> length bs \<Longrightarrow> PutUint16 (be16 bs) = take 2 bs"
  "4 \<le> length bs \<Longrightarrow> PutUint32 (be32 bs) = take 4 bs"
  "8 \<le> length bs \<Longrightarrow> PutUint64 (be64 bs) = take 8 bs"
  by (simp_all add: PutUint16_Uint16 PutUint32_Uint32 PutUint64_Uint64 Uint_Some_be)

lemma take_HeaderLength_split:
  assumes "HeaderLength \<le> length buf"
  shows "take HeaderLength buf =
    take 2 buf @ [buf ! 2, buf ! 3, buf ! 4, buf ! 5, buf ! 6, buf ! 7]
      @ take 8 (drop 8 buf) @ take 4 (drop 16 buf)"
proof -
  obtain a b c d e f g h r where buf: "buf = a # b # c # d # e # f # g # h # r"
    using assms by (auto simp: HeaderLength_def numeral_eq_Suc Suc_le_length_iff)
  have "take (8 + 4) r = take 8 r @ take 4 (drop 8 r)"
    by (rule take_add)
  then show ?thesis
    by (simp add: buf HeaderLength_def)
qed

text \<open>(C9) The wire form is canonical: whenever decoding succeeds, the header carries the
  protocol's magic and version, and encoding it again gives exactly the first twenty bytes of
  the buffer, so no two headers share a wire form and no byte of it is ignored.\<close>

theorem header_decode_canonical:
  assumes "Header_Decode h0 buf = (h, None)"
  shows "header_ok h \<and> Header_Encode h = take HeaderLength buf"
proof -
  have len: "HeaderLength \<le> length buf"
    using assms by (auto simp: Header_Decode_def split: if_splits)
  have fields: "h_Magic h = be16 (take 2 buf)" "h_Magic h = ProtocolMagic"
    "h_Version h = buf ! 2" "h_Version h = ProtocolVersion"
    "h_MsgType h = buf ! 3" "h_Codec h = buf ! 4" "h_Compress h = buf ! 5"
    "h_Reserved h = (buf ! 6, buf ! 7)" "h_RequestID h = be64 (take 8 (drop 8 buf))"
    "h_BodyLength h = be32 (take 4 (drop 16 buf))"
    using assms by (auto simp: Header_Decode_def Let_def split: if_splits)
  have "Header_Encode h = take 2 buf @ [buf ! 2, buf ! 3, buf ! 4, buf ! 5, buf ! 6, buf ! 7]
      @ take 8 (drop 8 buf) @ take 4 (drop 16 buf)"
    using len
    by (simp only: Header_Encode_def fields(1,3,5-10) fst_conv snd_conv)
      (simp add: HeaderLength_def PutUint_be)
  then show ?thesis
    using len fields by (simp add: header_ok_def take_HeaderLength_split)
qed

theorem header_decode_canonical_witness:
  "\<exists>h. Header_Decode zero_Header
        [0xCA, 0xFE, 1, 2, 0, 1, 0, 0, 0, 0, 0, 0, 0, 0, 0, 9, 0, 0, 1, 0, 42] = (h, None) \<and>
      header_ok h \<and> Header_Encode h = [0xCA, 0xFE, 1, 2, 0, 1, 0, 0, 0, 0, 0, 0, 0, 0, 0, 9, 0, 0, 1, 0]"
proof -
  let ?buf = "[0xCA, 0xFE, 1, 2, 0, 1, 0, 0, 0, 0, 0, 0, 0, 0, 0, 9, 0, 0, 1, 0, 42] :: bytes"
  have "snd (Header_Decode zero_Header ?buf) = None"
    by (simp add: Header_Decode_def HeaderLength_def be16_def ProtocolMagic_def ProtocolVersion_def Let_def)
  then have ok: "Header_Decode zero_Header ?buf = (fst (Header_Decode zero_Header ?buf), None)"
    by (metis prod.collapse)
  show ?thesis
    using header_decode_canonical [OF ok] ok by (auto simp: HeaderLength_def)
qed

text \<open>Decoding succeeds exactly on the buffers of at least twenty bytes that start with
  the magic number \<open>0xCAFE\<close> and version 1: shorter buffers, another magic and another version
  are each refused, and nothing else is.\<close>

theorem header_decode_accepts:
  "snd (Header_Decode h0 buf) = None \<longleftrightarrow>
     HeaderLength \<le> length buf \<and> take 3 buf = [0xCA, 0xFE, 0x01]"
proof (cases "HeaderLength \<le> length buf")
  case True
  then obtain a b c r where buf: "buf = a # b # c # r"
    by (auto simp: HeaderLength_def numeral_eq_Suc Suc_le_length_iff)
  have "Uint16 [a, b] = Some ProtocolMagic \<longleftrightarrow> [a, b] = [0xCA, 0xFE]"
    using PutUint16_Uint16 [of "[a, b]" ProtocolMagic]
    by (auto simp: PutUint16_def ProtocolMagic_def)
  then show ?thesis
    using True by (auto simp: buf Header_Decode_def Let_def be16_def ProtocolVersion_def)
next
  case False
  then show ?thesis by (simp add: Header_Decode_def)
qed

end
