(* ===== verification/Protocol_Message.thy ===== *)
theory Protocol_Message
  imports RPC_Prelude
begin

text \<open>
  The logical messages of \<open>pkg/protocol\<close>: RPC errors (\<open>error.go\<close>), metadata maps
  (\<open>metadata.go\<close>), requests (\<open>request.go\<close>) and responses (\<open>response.go\<close>), and the Go error
  values that travel between the components. A nil map is \<open>None\<close>; writing to it panics.
\<close>

section \<open>Interface values\<close>

text \<open>
  A value of type \<open>interface{}\<close> by the dynamic types the framework tests for: nil, \<open>[]byte\<close>,
  a \<open>proto.Message\<close> (type \<open>'m\<close>), a \<open>map[string]interface{}\<close> or any other value (type \<open>'v\<close>).
\<close>

datatype ('m, 'v) iface =
    INil
  | IBytes bytes
  | IProto 'm
  | IMap 'v
  | IOther 'v

section \<open>RPC errors\<close>

record Error =
  e_Code :: i32
  e_Message :: string
  e_Details :: string

definition ErrorCodeOK :: i32 where "ErrorCodeOK = 0"
definition ErrorCodeCanceled :: i32 where "ErrorCodeCanceled = 1"
definition ErrorCodeUnknown :: i32 where "ErrorCodeUnknown = 2"
definition ErrorCodeInvalidArgument :: i32 where "ErrorCodeInvalidArgument = 3"
definition ErrorCodeDeadlineExceeded :: i32 where "ErrorCodeDeadlineExceeded = 4"
definition ErrorCodeNotFound :: i32 where "ErrorCodeNotFound = 5"
definition ErrorCodeAlreadyExists :: i32 where "ErrorCodeAlreadyExists = 6"
definition ErrorCodePermissionDenied :: i32 where "ErrorCodePermissionDenied = 7"
definition ErrorCodeResourceExhausted :: i32 where "ErrorCodeResourceExhausted = 8"
definition ErrorRequestEntityTooLarge :: i32 where "ErrorRequestEntityTooLarge = 9"
definition ErrorCodeInternal :: i32 where "ErrorCodeInternal = 13"
definition ErrorCodeUnavailable :: i32 where "ErrorCodeUnavailable = 14"

named_theorems code_defs \<open>the RPC status codes\<close>

declare ErrorCodeOK_def [code_defs] ErrorCodeCanceled_def [code_defs] ErrorCodeUnknown_def [code_defs]
  ErrorCodeInvalidArgument_def [code_defs] ErrorCodeDeadlineExceeded_def [code_defs]
  ErrorCodeNotFound_def [code_defs] ErrorCodeAlreadyExists_def [code_defs]
  ErrorCodePermissionDenied_def [code_defs] ErrorCodeResourceExhausted_def [code_defs]
  ErrorRequestEntityTooLarge_def [code_defs] ErrorCodeInternal_def [code_defs]
  ErrorCodeUnavailable_def [code_defs]

definition NewError :: "i32 \<Rightarrow> string \<Rightarrow> Error" where
  "NewError code message = \<lparr>e_Code = code, e_Message = message, e_Details = []\<rparr>"

definition Error_Error :: "Error \<Rightarrow> string" where
  "Error_Error e =
     (if e_Details e \<noteq> [] then
        ''['' @ fmt_d (sint (e_Code e)) @ ''] '' @ e_Message e @ '': '' @ e_Details e
      else ''['' @ fmt_d (sint (e_Code e)) @ ''] '' @ e_Message e)"

section \<open>Go error values\<close>

text \<open>The package-level errors the framework compares against.\<close>

datatype sentinel =
    ErrCircuitOpen | ErrTooManyRequests
  | ErrRateLimitExceeded | ErrInvalidRequest
  | DeadlineExceeded | Canceled
  | ErrNotFound | ErrAlreadyExists | ErrNotConnected | ErrWatcherStopped
  | ErrNoInstances | ErrInvalidAlgorithm
  | ErrInvalidArgument
  | EOF | ErrUnexpectedEOF

fun sentinel_msg :: "sentinel \<Rightarrow> string" where
  "sentinel_msg ErrCircuitOpen = ''circuit breaker is open''"
| "sentinel_msg ErrTooManyRequests = ''too many requests''"
| "sentinel_msg ErrRateLimitExceeded = ''rate limit exceeded''"
| "sentinel_msg ErrInvalidRequest = ''invalid request for rate limiter''"
| "sentinel_msg DeadlineExceeded = ''context deadline exceeded''"
| "sentinel_msg Canceled = ''context canceled''"
| "sentinel_msg ErrNotFound = ''service not found''"
| "sentinel_msg ErrAlreadyExists = ''service already exists''"
| "sentinel_msg ErrNotConnected = ''not connected to registry''"
| "sentinel_msg ErrWatcherStopped = ''watcher has been stopped''"
| "sentinel_msg ErrNoInstances = ''no available instances''"
| "sentinel_msg ErrInvalidAlgorithm = ''invalid algorithm''"
| "sentinel_msg ErrInvalidArgument = ''invalid argument''"
| "sentinel_msg EOF = ''EOF''"
| "sentinel_msg ErrUnexpectedEOF = ''unexpected EOF''"

text \<open>
  An error value: a sentinel, an \<open>*protocol.Error\<close>, a formatted error, or an error wrapped
  with \<open>%w\<close> between two pieces of text.
\<close>

datatype go_error =
    Sentinel sentinel
  | ProtoError Error
  | Errorf string
  | Wrapped string go_error string

fun error_msg :: "go_error \<Rightarrow> string" where
  "error_msg (Sentinel s) = sentinel_msg s"
| "error_msg (ProtoError e) = Error_Error e"
| "error_msg (Errorf m) = m"
| "error_msg (Wrapped pre e post) = pre @ error_msg e @ post"

text \<open>\<open>errors.Is(err, target)\<close> for a sentinel target: it follows the \<open>%w\<close> chain.\<close>

fun errors_Is :: "go_error \<Rightarrow> sentinel \<Rightarrow> bool" where
  "errors_Is (Sentinel s) t \<longleftrightarrow> s = t"
| "errors_Is (Wrapped _ e _) t \<longleftrightarrow> errors_Is e t"
| "errors_Is _ _ \<longleftrightarrow> False"

lemma errors_Is_unique: "errors_Is e s \<Longrightarrow> errors_Is e t \<Longrightarrow> s = t"
  by (induction e) auto

type_synonym 'a or_error = "go_error + 'a"

section \<open>Metadata\<close>

type_synonym Metadata = "(string \<rightharpoonup> string) option"

definition MetaKeyTraceID :: string where "MetaKeyTraceID = ''trace-id''"
definition MetaKeySpanID :: string where "MetaKeySpanID = ''span-id''"
definition MetaKeyHashKey :: string where "MetaKeyHashKey = ''lb-hash-key''"

definition NewMetadata :: Metadata where
  "NewMetadata = Some Map.empty"

definition Metadata_Set :: "Metadata \<Rightarrow> string \<Rightarrow> string \<Rightarrow> Metadata option" where
  "Metadata_Set m key val = (case m of None \<Rightarrow> None | Some f \<Rightarrow> Some (Some (f(key \<mapsto> val))))"

definition md_map :: "Metadata \<Rightarrow> string \<rightharpoonup> string" where
  "md_map m = (case m of None \<Rightarrow> Map.empty | Some f \<Rightarrow> f)"

definition Metadata_Get :: "Metadata \<Rightarrow> string \<Rightarrow> string \<times> bool" where
  "Metadata_Get m key = (case md_map m key of None \<Rightarrow> ([], False) | Some v \<Rightarrow> (v, True))"

definition Metadata_Clone :: "string list \<Rightarrow> Metadata \<Rightarrow> Metadata" where
  "Metadata_Clone ks m = Some (copy_into Map.empty (md_map m) ks)"

definition Metadata_ToMap :: "string list \<Rightarrow> Metadata \<Rightarrow> Metadata" where
  "Metadata_ToMap ks m =
     (case m of None \<Rightarrow> None | Some f \<Rightarrow> Some (copy_into Map.empty f ks))"

definition FromMap :: "string list \<Rightarrow> Metadata \<Rightarrow> Metadata" where
  "FromMap ks data =
     (case data of None \<Rightarrow> None | Some f \<Rightarrow> Some (copy_into Map.empty f ks))"

text \<open>Merging into a nil map panics as soon as there is an entry to write.\<close>

definition Metadata_Merge :: "string list \<Rightarrow> Metadata \<Rightarrow> Metadata \<Rightarrow> Metadata option" where
  "Metadata_Merge ks m other =
     (case other of
        None \<Rightarrow> Some m
      | Some o' \<Rightarrow>
          (case m of
             None \<Rightarrow> if ks = [] then Some None else None
           | Some f \<Rightarrow> Some (Some (copy_into f o' ks))))"

lemma ToMap_eq: "range_order (md_map m) ks \<Longrightarrow> Metadata_ToMap ks m = m"
  by (cases m) (simp_all add: Metadata_ToMap_def copy_into_eq md_map_def)

lemma FromMap_eq: "range_order (md_map m) ks \<Longrightarrow> FromMap ks m = m"
  by (cases m) (simp_all add: FromMap_def copy_into_eq md_map_def)

lemma Clone_map: "range_order (md_map m) ks \<Longrightarrow> md_map (Metadata_Clone ks m) = md_map m"
  by (simp add: Metadata_Clone_def copy_into_eq md_map_def)

lemma Merge_Some:
  "range_order (md_map other) ks \<Longrightarrow> m = Some f \<Longrightarrow>
   \<exists>r. Metadata_Merge ks m other = Some r \<and> md_map r = f ++ md_map other"
  by (cases other) (auto simp: Metadata_Merge_def copy_into_eq md_map_def)

section \<open>Requests\<close>

type_synonym PayloadCodec = i32

definition PayloadCodecUnknown :: PayloadCodec where "PayloadCodecUnknown = 0"
definition PayloadCodecRaw :: PayloadCodec where "PayloadCodecRaw = 1"
definition PayloadCodecJSON :: PayloadCodec where "PayloadCodecJSON = 2"
definition PayloadCodecProtobuf :: PayloadCodec where "PayloadCodecProtobuf = 3"

record ('m, 'v) Request =
  rq_ID :: u64
  rq_Service :: string
  rq_Method :: string
  rq_ServiceVersion :: string
  rq_Args :: "('m, 'v) iface"
  rq_Timeout :: int
  rq_IsStream :: bool
  rq_Metadata :: Metadata
  rq_CreatedAt :: int
  rq_ArgsCodec :: PayloadCodec

definition NewRequest :: "instant \<Rightarrow> string \<Rightarrow> string \<Rightarrow> ('m, 'v) iface \<Rightarrow> ('m, 'v) Request" where
  "NewRequest now service meth args =
     \<lparr>rq_ID = 0, rq_Service = service, rq_Method = meth, rq_ServiceVersion = [],
      rq_Args = args, rq_Timeout = 0, rq_IsStream = False, rq_Metadata = NewMetadata,
      rq_CreatedAt = now, rq_ArgsCodec = PayloadCodecUnknown\<rparr>"

definition NewRequestWithVersion ::
    "instant \<Rightarrow> string \<Rightarrow> string \<Rightarrow> string \<Rightarrow> ('m, 'v) iface \<Rightarrow> ('m, 'v) Request" where
  "NewRequestWithVersion now service meth version args =
     (NewRequest now service meth args)\<lparr>rq_ServiceVersion := version\<rparr>"

definition SetTimeout :: "duration \<Rightarrow> ('m, 'v) Request \<Rightarrow> ('m, 'v) Request" where
  "SetTimeout timeout r = r\<lparr>rq_Timeout := timeout sdiv Millisecond\<rparr>"

definition GetTimeout :: "('m, 'v) Request \<Rightarrow> duration" where
  "GetTimeout r = (if rq_Timeout r \<le> 0 then 5 * Second
     else wrap64 (rq_Timeout r * Millisecond))"

definition Request_SetMetadata :: "string \<Rightarrow> string \<Rightarrow> ('m, 'v) Request \<Rightarrow> ('m, 'v) Request" where
  "Request_SetMetadata key val r =
     (let m = (if rq_Metadata r = None then NewMetadata else rq_Metadata r)
      in r\<lparr>rq_Metadata := the (Metadata_Set m key val)\<rparr>)"

definition Request_GetMetadata :: "('m, 'v) Request \<Rightarrow> string \<Rightarrow> string \<times> bool" where
  "Request_GetMetadata r key =
     (if rq_Metadata r = None then ([], False) else Metadata_Get (rq_Metadata r) key)"

definition Request_String :: "('m, 'v) Request \<Rightarrow> string" where
  "Request_String r =
     ''Request{ID='' @ fmt_d (uint (rq_ID r)) @ '', Service='' @ rq_Service r
     @ '', Method='' @ rq_Method r @ '', Version='' @ rq_ServiceVersion r
     @ '', Timeout='' @ fmt_d (rq_Timeout r) @ ''ms}''"

section \<open>Responses\<close>

record ('m, 'v) Response =
  rs_ID :: u64
  rs_Data :: "('m, 'v) iface"
  rs_Error :: "Error option"
  rs_Metadata :: Metadata
  rs_ServerTime :: int
  rs_DataCodec :: PayloadCodec

definition NewResponse :: "u64 \<Rightarrow> ('m, 'v) Response" where
  "NewResponse requestID =
     \<lparr>rs_ID = requestID, rs_Data = INil, rs_Error = None, rs_Metadata = NewMetadata,
      rs_ServerTime = 0, rs_DataCodec = PayloadCodecUnknown\<rparr>"

definition NewSuccessResponse :: "instant \<Rightarrow> u64 \<Rightarrow> ('m, 'v) iface \<Rightarrow> ('m, 'v) Response" where
  "NewSuccessResponse now requestID dat =
     \<lparr>rs_ID = requestID, rs_Data = dat, rs_Error = None, rs_Metadata = NewMetadata,
      rs_ServerTime = now, rs_DataCodec = PayloadCodecUnknown\<rparr>"

definition NewErrorResponse :: "instant \<Rightarrow> u64 \<Rightarrow> Error option \<Rightarrow> ('m, 'v) Response" where
  "NewErrorResponse now requestID err =
     \<lparr>rs_ID = requestID, rs_Data = INil, rs_Error = err, rs_Metadata = NewMetadata,
      rs_ServerTime = now, rs_DataCodec = PayloadCodecUnknown\<rparr>"

definition IsSuccess :: "('m, 'v) Response \<Rightarrow> bool" where
  "IsSuccess r = (case rs_Error r of None \<Rightarrow> True | Some e \<Rightarrow> e_Code e = ErrorCodeOK)"

definition IsError :: "('m, 'v) Response \<Rightarrow> bool" where
  "IsError r = (case rs_Error r of None \<Rightarrow> False | Some e \<Rightarrow> e_Code e \<noteq> ErrorCodeOK)"

definition GetError :: "('m, 'v) Response \<Rightarrow> go_error option" where
  "GetError r = map_option ProtoError (rs_Error r)"

definition Response_SetMetadata :: "string \<Rightarrow> string \<Rightarrow> ('m, 'v) Response \<Rightarrow> ('m, 'v) Response" where
  "Response_SetMetadata key val r =
     (let m = (if rs_Metadata r = None then NewMetadata else rs_Metadata r)
      in r\<lparr>rs_Metadata := the (Metadata_Set m key val)\<rparr>)"

definition Response_GetMetadata :: "('m, 'v) Response \<Rightarrow> string \<Rightarrow> string \<times> bool" where
  "Response_GetMetadata r key =
     (if rs_Metadata r = None then ([], False) else Metadata_Get (rs_Metadata r) key)"

text \<open>\<open>fmt_v\<close> is the default formatting of an arbitrary value.\<close>

definition Response_String :: "(('m, 'v) iface \<Rightarrow> string) \<Rightarrow> ('m, 'v) Response \<Rightarrow> string" where
  "Response_String fmt_v r =
     (if IsError r then ''Response{ID='' @ fmt_d (uint (rs_ID r)) @ '', Error=''
        @ (case rs_Error r of None \<Rightarrow> [] | Some e \<Rightarrow> Error_Error e) @ ''}''
      else ''Response{ID='' @ fmt_d (uint (rs_ID r)) @ '', Data='' @ fmt_v (rs_Data r) @ ''}'')"

section \<open>Properties\<close>

lemma IsError_not_IsSuccess: "IsError r \<longleftrightarrow> \<not> IsSuccess r"
  by (simp add: IsError_def IsSuccess_def split: option.splits)

lemma IsError_NewErrorResponse [simp]:
  "IsError (NewErrorResponse now i (Some (NewError c msg))) \<longleftrightarrow> c \<noteq> ErrorCodeOK"
  by (simp add: IsError_def NewErrorResponse_def NewError_def)

lemma IsSuccess_NewSuccessResponse [simp]: "IsSuccess (NewSuccessResponse now i d)"
  by (simp add: IsSuccess_def NewSuccessResponse_def)

text \<open>What a lookup returns after a store, on a request and on a response, nil map included.\<close>

lemma Request_metadata_lookup [simp]:
  "Request_GetMetadata (Request_SetMetadata k v r) k' =
     (if k' = k then (v, True) else Request_GetMetadata r k')"
  by (cases "rq_Metadata r")
    (simp_all add: Request_GetMetadata_def Request_SetMetadata_def Metadata_Set_def Metadata_Get_def
      NewMetadata_def md_map_def)

lemma Response_metadata_lookup [simp]:
  "Response_GetMetadata (Response_SetMetadata k v r) k' =
     (if k' = k then (v, True) else Response_GetMetadata r k')"
  by (cases "rs_Metadata r")
    (simp_all add: Response_GetMetadata_def Response_SetMetadata_def Metadata_Set_def Metadata_Get_def
      NewMetadata_def md_map_def)

text \<open>A timeout read back after it was stored is the stored duration rounded down to a
  whole millisecond; a duration below one millisecond (zero and negative ones included) reads
  back as the five-second default.\<close>

theorem timeout_roundtrip:
  assumes "in64 d"
  shows "GetTimeout (SetTimeout d r) =
    (if d < Millisecond then 5 * Second else d - d mod Millisecond)"
proof (cases "0 \<le> d")
  case True
  then have "d div Millisecond * Millisecond = d - d mod Millisecond"
    by (simp add: minus_mod_eq_div_mult)
  moreover have "in64 (d - d mod Millisecond)"
    using assms True pos_mod_bound [of Millisecond d] pos_mod_sign [of Millisecond d]
      zmod_le_nonneg_dividend [of d Millisecond]
    by (auto simp: in64_def Millisecond_def)
  moreover have "d div Millisecond \<le> 0 \<longleftrightarrow> d < Millisecond"
    using True zdiv_eq_0_iff [of d Millisecond] pos_imp_zdiv_nonneg_iff [of Millisecond d]
    by (auto simp: Millisecond_def)
  ultimately show ?thesis
    using True by (simp add: GetTimeout_def SetTimeout_def Millisecond_def)
next
  case False
  then have "d sdiv Millisecond \<le> 0"
    by (simp add: signed_divide_int_def Millisecond_def)
  with False show ?thesis
    by (simp add: GetTimeout_def SetTimeout_def Millisecond_def)
qed

theorem timeout_roundtrip_witness:
  "in64 1500000 \<and> GetTimeout (SetTimeout 1500000 (NewRequest 0 ''S'' ''M'' INil)) = 1000000"
  using timeout_roundtrip [of 1500000 "NewRequest 0 ''S'' ''M'' INil"]
  by (simp add: in64_def Millisecond_def)

end
