(* ===== verification/Error_Map.thy ===== *)
theory Error_Map
  imports Protocol_Message
begin

text \<open>
  The translation between Go errors and protocol error codes: the server's table-driven
  \<open>mapError\<close> and its inverse \<open>unmapError\<close> (\<open>pkg/server/error_map.go\<close>), and the client's own
  \<open>unmapError\<close> (\<open>pkg/client/error_map.go\<close>).
\<close>

section \<open>The server's table\<close>

record errorMapping =
  em_code :: i32
  em_sentinel :: sentinel
  em_message :: "string \<Rightarrow> string \<Rightarrow> string"

definition errorTable :: "errorMapping list" where
  "errorTable =
    [\<lparr>em_code = ErrorCodeResourceExhausted, em_sentinel = ErrRateLimitExceeded,
      em_message = (\<lambda>service meth. ''rate limit exceeded'')\<rparr>,
     \<lparr>em_code = ErrorCodeUnavailable, em_sentinel = ErrCircuitOpen,
      em_message = (\<lambda>service meth. ''service '' @ service @ '' circuit breaker is open'')\<rparr>,
     \<lparr>em_code = ErrorCodeDeadlineExceeded, em_sentinel = DeadlineExceeded,
      em_message = (\<lambda>service meth. ''method '' @ service @ ''.'' @ meth @ '' execution exceeded deadline'')\<rparr>,
     \<lparr>em_code = ErrorCodeCanceled, em_sentinel = Canceled,
      em_message = (\<lambda>service meth. ''method '' @ service @ ''.'' @ meth @ '' execution canceled'')\<rparr>,
     \<lparr>em_code = ErrorCodeNotFound, em_sentinel = ErrNotFound,
      em_message = (\<lambda>service meth. ''service '' @ service @ '' not found in registry'')\<rparr>,
     \<lparr>em_code = ErrorCodeInvalidArgument, em_sentinel = ErrInvalidArgument,
      em_message = (\<lambda>service meth. ''invalid argument'')\<rparr>]"

fun first_row :: "(errorMapping \<Rightarrow> bool) \<Rightarrow> errorMapping list \<Rightarrow> errorMapping option" where
  "first_row p [] = None"
| "first_row p (r # rs) = (if p r then Some r else first_row p rs)"

definition sentinelForCode :: "i32 \<Rightarrow> sentinel option" where
  "sentinelForCode code =
     map_option em_sentinel (first_row (\<lambda>r. em_code r = code) errorTable)"

definition mapError :: "go_error \<Rightarrow> string \<Rightarrow> string \<Rightarrow> i32 \<times> string" where
  "mapError err service meth =
     (case first_row (\<lambda>r. errors_Is err (em_sentinel r)) errorTable of
        Some r \<Rightarrow> (em_code r, em_message r service meth)
      | None \<Rightarrow> (ErrorCodeInternal,
          ''method '' @ service @ ''.'' @ meth @ '' execution failed: '' @ error_msg err))"

text \<open>\<open>unmapError\<close> of the server package; \<open>None\<close> is the nil error.\<close>

definition server_unmapError :: "('m, 'v) Response \<Rightarrow> go_error option" where
  "server_unmapError resp =
     (case rs_Error resp of
        None \<Rightarrow> None
      | Some respErr \<Rightarrow>
          if e_Code respErr = ErrorCodeOK then None
          else Some (case sentinelForCode (e_Code respErr) of
              Some s \<Rightarrow> if e_Details respErr \<noteq> [] then Wrapped [] (Sentinel s) ('': '' @ e_Details respErr)
                        else Sentinel s
            | None \<Rightarrow> Errorf (''rpc error ['' @ fmt_d (sint (e_Code respErr)) @ '']: '' @ e_Message respErr)))"

section \<open>The client's mapping\<close>

definition client_unmapError :: "('m, 'v) Response \<Rightarrow> go_error option" where
  "client_unmapError resp =
     (case rs_Error resp of
        None \<Rightarrow> None
      | Some err \<Rightarrow>
          if e_Code err = ErrorCodeOK then None
          else Some (
            if e_Code err = ErrorCodeResourceExhausted then Sentinel ErrRateLimitExceeded
            else if e_Code err = ErrorCodeUnavailable then Sentinel ErrCircuitOpen
            else if e_Code err = ErrorCodeDeadlineExceeded then Sentinel DeadlineExceeded
            else if e_Code err = ErrorCodeCanceled then Sentinel Canceled
            else if e_Code err = ErrorCodeNotFound then Errorf (e_Message err @ '': '' @ e_Details err)
            else if e_Code err = ErrorCodeInvalidArgument then Errorf (''invalid argument: '' @ e_Message err)
            else Errorf (''rpc error ['' @ fmt_d (sint (e_Code err)) @ '']: '' @ e_Message err)))"

section \<open>Lemmas\<close>

definition framework_sentinels :: "sentinel set" where
  "framework_sentinels = {ErrRateLimitExceeded, ErrCircuitOpen, DeadlineExceeded, Canceled,
     ErrNotFound, ErrInvalidArgument}"

lemma first_row_Some: "first_row p rs = Some r \<Longrightarrow> p r \<and> r \<in> set rs"
  by (induction rs) (auto split: if_splits)

lemma first_row_None: "first_row p rs = None \<longleftrightarrow> (\<forall>r \<in> set rs. \<not> p r)"
  by (induction rs) auto

lemma table_sentinels: "em_sentinel ` set errorTable = framework_sentinels"
  by (auto simp: errorTable_def framework_sentinels_def)

text \<open>One row per code, one row per sentinel: looking a row's code up gives its sentinel.\<close>

lemma sentinelForCode_row: "r \<in> set errorTable \<Longrightarrow> sentinelForCode (em_code r) = Some (em_sentinel r)"
  by (auto simp: errorTable_def sentinelForCode_def code_defs)

lemma row_code_not_OK: "r \<in> set errorTable \<Longrightarrow> em_code r \<noteq> ErrorCodeOK \<and> em_code r \<noteq> ErrorCodeInternal"
  by (auto simp: errorTable_def code_defs)

lemma mapError_row:
  assumes "errors_Is err s" and "s \<in> framework_sentinels"
  obtains r where "r \<in> set errorTable" "em_sentinel r = s"
    "mapError err service meth = (em_code r, em_message r service meth)"
proof -
  obtain r where r: "first_row (\<lambda>r. errors_Is err (em_sentinel r)) errorTable = Some r"
    using assms table_sentinels first_row_None
    by (metis (mono_tags, lifting) image_iff option.exhaust)
  with assms(1) have "em_sentinel r = s"
    by (auto dest: first_row_Some errors_Is_unique)
  with r show ?thesis
    by (auto simp: mapError_def intro!: that dest: first_row_Some)
qed

lemma mapError_not_OK: "fst (mapError err service meth) \<noteq> ErrorCodeOK"
  using row_code_not_OK first_row_Some
  by (fastforce simp: mapError_def code_defs split: option.splits)

lemma mapError_internal:
  "(\<forall>s \<in> framework_sentinels. \<not> errors_Is err s) \<Longrightarrow>
   fst (mapError err service meth) = ErrorCodeInternal"
  using table_sentinels
  by (auto simp: mapError_def dest!: first_row_Some split: option.splits)

section \<open>Properties\<close>

text \<open>(C39) Errors survive the trip through the protocol: when a handler error is, or wraps,
  one of the framework's sentinels, the error response built from \<open>mapError\<close> is turned by
  the server package's \<open>unmapError\<close> into an error that \<open>errors.Is\<close> matches with that
  sentinel and with no other; every other handler error arrives as the Internal code and
  matches no sentinel.\<close>

theorem server_error_roundtrip:
  "errors_Is err s \<and> s \<in> framework_sentinels \<longleftrightarrow>
     (\<exists>e. server_unmapError (NewErrorResponse now i
        (Some (NewError (fst (mapError err service meth)) (snd (mapError err service meth)))))
        = Some e \<and> errors_Is e s)"
    (is "?L \<longleftrightarrow> ?R")
proof
  assume ?L
  then obtain r where "r \<in> set errorTable" "em_sentinel r = s"
    "mapError err service meth = (em_code r, em_message r service meth)"
    by (auto elim: mapError_row)
  then show ?R
    using sentinelForCode_row [of r] row_code_not_OK [of r]
    by (simp add: server_unmapError_def NewErrorResponse_def NewError_def)
next
  assume R: ?R
  then obtain s' where s': "sentinelForCode (fst (mapError err service meth)) = Some s'" "s' = s"
    by (auto simp: server_unmapError_def NewErrorResponse_def NewError_def
        split: if_splits option.splits)
  show ?L
  proof (cases "\<exists>t \<in> framework_sentinels. errors_Is err t")
    case True
    then obtain t where t: "errors_Is err t" "t \<in> framework_sentinels"
      by blast
    then obtain r where "r \<in> set errorTable" "em_sentinel r = t"
      "mapError err service meth = (em_code r, em_message r service meth)"
      by (rule mapError_row)
    with t s' sentinelForCode_row [of r] show ?thesis by simp
  next
    case False
    then have "fst (mapError err service meth) = ErrorCodeInternal"
      by (auto intro: mapError_internal)
    with s' show ?thesis
      by (simp add: sentinelForCode_def errorTable_def code_defs)
  qed
qed

text \<open>(C40) The client package's own \<open>unmapError\<close> keeps only four of the six sentinels: rate
  limiting, open circuit, deadline and cancellation come back as the sentinel the server's
  handler returned, while not-found and invalid-argument errors come back as plain text that
  \<open>errors.Is\<close> matches with no sentinel.\<close>

theorem client_error_roundtrip:
  assumes "errors_Is err s" and "s \<in> framework_sentinels"
  shows "client_unmapError (NewErrorResponse now i
      (Some (NewError (fst (mapError err service meth)) (snd (mapError err service meth)))))
    = Some (if s \<in> {ErrNotFound, ErrInvalidArgument}
            then Errorf (if s = ErrNotFound then ''service '' @ service @ '' not found in registry: ''
                         else ''invalid argument: invalid argument'')
            else Sentinel s)"
proof -
  obtain r where "r \<in> set errorTable" "em_sentinel r = s"
    "mapError err service meth = (em_code r, em_message r service meth)"
    using assms by (rule mapError_row)
  then show ?thesis
    by (auto simp: errorTable_def client_unmapError_def NewErrorResponse_def NewError_def code_defs)
qed

theorem client_error_roundtrip_witness:
  "errors_Is (Wrapped ''get handler: '' (Sentinel ErrNotFound) []) ErrNotFound \<and>
   ErrNotFound \<in> framework_sentinels \<and>
   client_unmapError (NewErrorResponse 0 7 (Some (NewError
      (fst (mapError (Wrapped ''get handler: '' (Sentinel ErrNotFound) []) ''S'' ''M''))
      (snd (mapError (Wrapped ''get handler: '' (Sentinel ErrNotFound) []) ''S'' ''M'')))))
   = Some (Errorf ''service S not found in registry: '')"
  using client_error_roundtrip
    [of "Wrapped ''get handler: '' (Sentinel ErrNotFound) []" ErrNotFound 0 7 "''S''" "''M''"]
  by (simp add: framework_sentinels_def)

end
