(* ===== verification/Sliding_Window.thy ===== *)
theory Sliding_Window
  imports Complex_Main RPC_Prelude
begin

text \<open>
  The bucketed counter window behind the circuit breaker (\<open>pkg/circuitbreaker/window.go\<close>): a
  ring of buckets, the current index, and the instant of the last rotation. The abstract view
  of the ring is the list of its buckets from the newest to the oldest; rotating it shifts
  empty buckets in at the front and drops the oldest.
\<close>

section \<open>State\<close>

record Bucket =
  b_success :: int
  b_failure :: int
  b_timeout :: int
  b_total :: int

definition zero_Bucket :: Bucket where
  "zero_Bucket = \<lparr>b_success = 0, b_failure = 0, b_timeout = 0, b_total = 0\<rparr>"

record SlidingWindow =
  sw_buckets :: "Bucket list"
  sw_size :: int
  sw_bucketTime :: duration
  sw_currentIndex :: nat
  sw_lastUpdate :: instant

text \<open>\<open>make([]Bucket, size)\<close> panics on a negative size.\<close>

definition NewSlidingWindow :: "instant \<Rightarrow> int \<Rightarrow> duration \<Rightarrow> SlidingWindow option" where
  "NewSlidingWindow now sz bucketTime =
     (if sz < 0 then None
      else Some \<lparr>sw_buckets = replicate (nat sz) zero_Bucket, sw_size = sz,
        sw_bucketTime = bucketTime, sw_currentIndex = 0, sw_lastUpdate = now\<rparr>)"

section \<open>Rotation\<close>

definition advance1 :: "SlidingWindow \<Rightarrow> SlidingWindow" where
  "advance1 s = (let i = (sw_currentIndex s + 1) mod nat (sw_size s)
     in s\<lparr>sw_currentIndex := i, sw_buckets := (sw_buckets s)[i := zero_Bucket]\<rparr>)"

fun advance :: "nat \<Rightarrow> SlidingWindow \<Rightarrow> SlidingWindow" where
  "advance 0 s = s"
| "advance (Suc n) s = advance n (advance1 s)"

text \<open>Dividing by a zero bucket time panics.\<close>

definition updateBuckets :: "instant \<Rightarrow> SlidingWindow \<Rightarrow> SlidingWindow option" where
  "updateBuckets now s =
     (let elapsed = time_Sub now (sw_lastUpdate s) in
      if elapsed < sw_bucketTime s then Some s
      else if sw_bucketTime s = 0 then None
      else let bucketsToAdvance = wrap64 (elapsed sdiv sw_bucketTime s) in
        Some ((if bucketsToAdvance \<ge> sw_size s
               then s\<lparr>sw_buckets := map (\<lambda>_. zero_Bucket) (sw_buckets s), sw_currentIndex := 0\<rparr>
               else advance (nat bucketsToAdvance) s)\<lparr>sw_lastUpdate := now\<rparr>))"

section \<open>Recording and reading\<close>

text \<open>\<open>s.buckets[s.currentIndex]\<close> panics when the index is out of range.\<close>

definition bump :: "(Bucket \<Rightarrow> Bucket) \<Rightarrow> SlidingWindow \<Rightarrow> SlidingWindow option" where
  "bump f s =
     (if sw_currentIndex s < length (sw_buckets s)
      then Some (s\<lparr>sw_buckets :=
        (sw_buckets s)[sw_currentIndex s := f (sw_buckets s ! sw_currentIndex s)]\<rparr>)
      else None)"

definition count_success :: "Bucket \<Rightarrow> Bucket" where
  "count_success b = b\<lparr>b_success := wrap64 (b_success b + 1), b_total := wrap64 (b_total b + 1)\<rparr>"

definition count_failure :: "Bucket \<Rightarrow> Bucket" where
  "count_failure b = b\<lparr>b_failure := wrap64 (b_failure b + 1), b_total := wrap64 (b_total b + 1)\<rparr>"

definition count_timeout :: "Bucket \<Rightarrow> Bucket" where
  "count_timeout b = b\<lparr>b_timeout := wrap64 (b_timeout b + 1), b_total := wrap64 (b_total b + 1)\<rparr>"

definition RecordSuccess :: "instant \<Rightarrow> SlidingWindow \<Rightarrow> SlidingWindow option" where
  "RecordSuccess now s = Option.bind (updateBuckets now s) (bump count_success)"

definition RecordFailure :: "instant \<Rightarrow> SlidingWindow \<Rightarrow> SlidingWindow option" where
  "RecordFailure now s = Option.bind (updateBuckets now s) (bump count_failure)"

definition RecordTimeout :: "instant \<Rightarrow> SlidingWindow \<Rightarrow> SlidingWindow option" where
  "RecordTimeout now s = Option.bind (updateBuckets now s) (bump count_timeout)"

text \<open>The aggregates \<open>(success, failure, timeout, total)\<close>.\<close>

definition add_bucket :: "int \<times> int \<times> int \<times> int \<Rightarrow> Bucket \<Rightarrow> int \<times> int \<times> int \<times> int" where
  "add_bucket = (\<lambda>(s, f, t, n) b. (wrap64 (s + b_success b), wrap64 (f + b_failure b),
     wrap64 (t + b_timeout b), wrap64 (n + b_total b)))"

definition Window_Stats :: "SlidingWindow \<Rightarrow> int \<times> int \<times> int \<times> int" where
  "Window_Stats s = foldl add_bucket (0, 0, 0, 0) (sw_buckets s)"

text \<open>
  \<open>float64\<close> arithmetic is exact arithmetic followed by the rounding \<open>rnd\<close> of each result;
  \<open>rnd\<close> is a parameter, so what is proved holds for every rounding with the laws it names.
\<close>

definition FailureRate :: "(rat \<Rightarrow> rat) \<Rightarrow> SlidingWindow \<Rightarrow> rat" where
  "FailureRate rnd s = (case Window_Stats s of (_, failure, timeout, tot) \<Rightarrow>
     if tot = 0 then 0
     else rnd (rnd (of_int (wrap64 (failure + timeout))) / rnd (of_int tot)))"

definition Window_Reset :: "SlidingWindow \<Rightarrow> SlidingWindow" where
  "Window_Reset s = s\<lparr>sw_buckets := map (\<lambda>_. zero_Bucket) (sw_buckets s)\<rparr>"

definition Window_Total :: "SlidingWindow \<Rightarrow> int" where
  "Window_Total s = (case Window_Stats s of (_, _, _, tot) \<Rightarrow> tot)"

section \<open>Well-formed windows\<close>

definition window_wf :: "SlidingWindow \<Rightarrow> bool" where
  "window_wf s \<longleftrightarrow> 0 < sw_size s \<and> in64 (sw_size s) \<and> 0 < sw_bucketTime s
     \<and> length (sw_buckets s) = nat (sw_size s) \<and> sw_currentIndex s < nat (sw_size s)"

lemma window_wf_New:
  "0 < sz \<Longrightarrow> in64 sz \<Longrightarrow> 0 < bt \<Longrightarrow> \<exists>s. NewSlidingWindow now sz bt = Some s \<and> window_wf s"
  by (simp add: NewSlidingWindow_def window_wf_def)

lemma window_wf_advance1: "window_wf s \<Longrightarrow> window_wf (advance1 s)"
  by (simp add: window_wf_def advance1_def Let_def)

lemma window_wf_advance: "window_wf s \<Longrightarrow> window_wf (advance n s)"
  by (induction n s rule: advance.induct) (simp_all add: window_wf_advance1)

lemma advance1_frame [simp]:
  "sw_size (advance1 s) = sw_size s" "sw_bucketTime (advance1 s) = sw_bucketTime s"
  "sw_lastUpdate (advance1 s) = sw_lastUpdate s"
  by (simp_all add: advance1_def Let_def)

lemma advance_frame [simp]:
  "sw_size (advance n s) = sw_size s" "sw_bucketTime (advance n s) = sw_bucketTime s"
  "sw_lastUpdate (advance n s) = sw_lastUpdate s"
  by (induction n s rule: advance.induct) simp_all

lemma updateBuckets_ex:
  assumes "window_wf s"
  shows "\<exists>s'. updateBuckets now s = Some s' \<and> window_wf s' \<and>
    sw_size s' = sw_size s \<and> sw_bucketTime s' = sw_bucketTime s"
proof -
  have clr: "window_wf (s\<lparr>sw_buckets := map (\<lambda>_. zero_Bucket) (sw_buckets s), sw_currentIndex := 0,
      sw_lastUpdate := now\<rparr>)"
    using assms by (simp add: window_wf_def)
  have adv: "window_wf ((advance n s)\<lparr>sw_lastUpdate := now\<rparr>)" for n
    using window_wf_advance [OF assms, of n] by (simp add: window_wf_def)
  have "sw_bucketTime s \<noteq> 0"
    using assms by (simp add: window_wf_def)
  with assms clr adv show ?thesis
    by (simp add: updateBuckets_def Let_def)
qed

lemma updateBuckets_total:
  assumes "window_wf s"
  obtains s' where "updateBuckets now s = Some s'" "window_wf s'"
    "sw_size s' = sw_size s" "sw_bucketTime s' = sw_bucketTime s"
  using updateBuckets_ex [OF assms] by blast

lemma bump_total:
  "window_wf s \<Longrightarrow> \<exists>s'. bump f s = Some s' \<and> window_wf s' \<and> sw_size s' = sw_size s
     \<and> sw_bucketTime s' = sw_bucketTime s"
  by (simp add: bump_def window_wf_def)

lemma record_total:
  assumes "window_wf s"
  shows "\<exists>s'. Option.bind (updateBuckets now s) (bump f) = Some s' \<and> window_wf s'
    \<and> sw_size s' = sw_size s \<and> sw_bucketTime s' = sw_bucketTime s"
proof -
  obtain s1 where "updateBuckets now s = Some s1" "window_wf s1"
    "sw_size s1 = sw_size s" "sw_bucketTime s1 = sw_bucketTime s"
    using assms by (rule updateBuckets_total)
  with bump_total [of s1 f] show ?thesis by auto
qed

lemma window_wf_Reset [simp]: "window_wf (Window_Reset s) \<longleftrightarrow> window_wf s"
  by (simp add: window_wf_def Window_Reset_def)

section \<open>Aggregates as sums\<close>

lemma wrap64_add_left: "wrap64 (wrap64 a + b) = wrap64 (a + b)"
proof -
  have "((a + 2 ^ 63) mod 2 ^ 64 + b) mod 2 ^ 64 = (a + 2 ^ 63 + b) mod 2 ^ (64 :: nat)"
    by (rule mod_add_left_eq)
  then show ?thesis
    by (simp add: wrap64_def ac_simps)
qed

lemma foldl_add_bucket:
  "foldl add_bucket (wrap64 a, wrap64 b, wrap64 c, wrap64 d) bs =
     (wrap64 (a + (\<Sum>x\<leftarrow>bs. b_success x)), wrap64 (b + (\<Sum>x\<leftarrow>bs. b_failure x)),
      wrap64 (c + (\<Sum>x\<leftarrow>bs. b_timeout x)), wrap64 (d + (\<Sum>x\<leftarrow>bs. b_total x)))"
  by (induction bs arbitrary: a b c d) (simp_all add: add_bucket_def wrap64_add_left add.assoc)

lemma Window_Stats_sums:
  "Window_Stats s = (wrap64 (\<Sum>x\<leftarrow>sw_buckets s. b_success x), wrap64 (\<Sum>x\<leftarrow>sw_buckets s. b_failure x),
     wrap64 (\<Sum>x\<leftarrow>sw_buckets s. b_timeout x), wrap64 (\<Sum>x\<leftarrow>sw_buckets s. b_total x))"
  using foldl_add_bucket [of 0 0 0 0 "sw_buckets s"]
  by (simp add: Window_Stats_def in64_def)

lemma Window_Total_sum: "Window_Total s = wrap64 (\<Sum>x\<leftarrow>sw_buckets s. b_total x)"
  by (simp add: Window_Total_def Window_Stats_sums)

lemma sum_list_zero_buckets [simp]:
  "(\<Sum>x\<leftarrow>xs. b_total zero_Bucket) = 0" "(\<Sum>x\<leftarrow>xs. b_failure zero_Bucket) = 0"
  "(\<Sum>x\<leftarrow>xs. b_timeout zero_Bucket) = 0" "(\<Sum>x\<leftarrow>xs. b_success zero_Bucket) = 0"
  by (simp_all add: zero_Bucket_def)

lemma Window_Total_Reset [simp]: "Window_Total (Window_Reset s) = 0"
  by (simp add: Window_Total_sum Window_Reset_def comp_def in64_def)

section \<open>The ring as a shift register\<close>

definition window_view :: "SlidingWindow \<Rightarrow> Bucket list" where
  "window_view s = map (\<lambda>k. sw_buckets s ! ((sw_currentIndex s + (nat (sw_size s) - k)) mod nat (sw_size s)))
     [0..<nat (sw_size s)]"

definition shift_in :: "nat \<Rightarrow> Bucket list \<Rightarrow> Bucket list" where
  "shift_in n v = take (length v) (replicate n zero_Bucket @ v)"

fun on_head :: "('a \<Rightarrow> 'a) \<Rightarrow> 'a list \<Rightarrow> 'a list" where
  "on_head f [] = []"
| "on_head f (x # xs) = f x # xs"

definition rotations :: "instant \<Rightarrow> SlidingWindow \<Rightarrow> nat" where
  "rotations now s = nat (time_Sub now (sw_lastUpdate s) div sw_bucketTime s)"

lemma length_window_view [simp]: "length (window_view s) = nat (sw_size s)"
  by (simp add: window_view_def)

lemma length_shift_in [simp]: "length (shift_in n v) = length v"
  by (simp add: shift_in_def)

lemma shift_in_0 [simp]: "shift_in 0 v = v"
  by (simp add: shift_in_def)

lemma shift_in_Suc: "shift_in n (shift_in (Suc 0) v) = shift_in (Suc n) v"
proof -
  have "take (length v) (replicate n zero_Bucket @ take (length v) (zero_Bucket # v))
      = take (length v) (replicate n zero_Bucket @ zero_Bucket # v)"
    by (simp add: min_def)
  then show ?thesis
    by (simp add: shift_in_def replicate_app_Cons_same min_def)
qed

lemma shift_in_all: "length v \<le> n \<Longrightarrow> shift_in n v = replicate (length v) zero_Bucket"
  by (simp add: shift_in_def)

lemma ring_back:
  assumes "0 < k" and "k < n"
  shows "((c + 1) mod n + (n - k)) mod n = (c + (n - (k - 1))) mod n"
    and "((c + 1) mod n + (n - k)) mod n \<noteq> (c + 1) mod (n::nat)"
proof -
  show "((c + 1) mod n + (n - k)) mod n = (c + (n - (k - 1))) mod n"
  proof -
    have "c + 1 + (n - k) = c + (n - (k - 1))"
      using assms by simp
    then show ?thesis
      using mod_add_left_eq [of "c + 1" n "n - k"] by (simp only:)
  qed
  define i where "i = (c + 1) mod n"
  have "i < n" using assms by (simp add: i_def)
  then have "(i + (n - k)) mod n = (if i < k then i + (n - k) else i - k)"
    using assms by (auto simp: mod_if)
  then have "(i + (n - k)) mod n \<noteq> i"
    using assms by (auto split: if_splits)
  then show "((c + 1) mod n + (n - k)) mod n \<noteq> (c + 1) mod n"
    unfolding i_def .
qed

lemma view_advance1:
  assumes "window_wf s"
  shows "window_view (advance1 s) = shift_in (Suc 0) (window_view s)"
proof (rule nth_equalityI)
  show "length (window_view (advance1 s)) = length (shift_in (Suc 0) (window_view s))"
    by simp
next
  fix k
  assume "k < length (window_view (advance1 s))"
  then have k: "k < nat (sw_size s)" by simp
  show "window_view (advance1 s) ! k = shift_in (Suc 0) (window_view s) ! k"
  proof (cases k)
    case 0
    with k assms show ?thesis
      by (simp add: window_view_def advance1_def Let_def window_wf_def shift_in_def)
  next
    case (Suc j)
    with k assms ring_back [of k "nat (sw_size s)" "sw_currentIndex s"] show ?thesis
      by (simp add: window_view_def advance1_def Let_def window_wf_def shift_in_def)
  qed
qed

lemma view_advance: "window_wf s \<Longrightarrow> window_view (advance n s) = shift_in n (window_view s)"
  by (induction n s rule: advance.induct)
    (simp_all add: view_advance1 window_wf_advance1 shift_in_Suc)

lemma view_lastUpdate [simp]: "window_view (s\<lparr>sw_lastUpdate := t\<rparr>) = window_view s"
  by (simp add: window_view_def)

lemma view_cleared:
  "window_wf s \<Longrightarrow> window_view (s\<lparr>sw_buckets := map (\<lambda>_. zero_Bucket) (sw_buckets s), sw_currentIndex := i\<rparr>)
     = replicate (nat (sw_size s)) zero_Bucket"
  by (rule nth_equalityI) (simp_all add: window_view_def window_wf_def)

lemma updateBuckets_view:
  assumes "window_wf s" and "updateBuckets now s = Some s'"
  shows "window_view s' = shift_in (rotations now s) (window_view s)"
proof (cases "time_Sub now (sw_lastUpdate s) < sw_bucketTime s")
  case True
  then have "time_Sub now (sw_lastUpdate s) div sw_bucketTime s \<le> 0"
    using assms(1) by (cases "time_Sub now (sw_lastUpdate s) < 0")
      (simp_all add: window_wf_def neg_imp_zdiv_neg_iff div_pos_pos_trivial div_neg_pos_less0 order_less_imp_le)
  with True assms show ?thesis
    by (simp add: updateBuckets_def rotations_def)
next
  case False
  let ?e = "time_Sub now (sw_lastUpdate s)"
  have pos: "0 \<le> ?e" "0 < sw_bucketTime s"
    using False assms(1) by (auto simp: window_wf_def)
  then have "?e div sw_bucketTime s \<le> ?e" "0 \<le> ?e div sw_bucketTime s"
    using zdiv_mono2 [of ?e 1 "sw_bucketTime s"] by (simp_all add: pos_imp_zdiv_nonneg_iff)
  then have "in64 (?e div sw_bucketTime s)"
    using in64_time_Sub [of now "sw_lastUpdate s"] by (auto simp: in64_def)
  with False pos assms show ?thesis
    by (auto simp: updateBuckets_def rotations_def Let_def view_cleared view_advance shift_in_all
        nat_le_iff split: if_splits)
qed

lemma view_bump:
  assumes "window_wf s" and "bump f s = Some s'"
  shows "window_view s' = on_head f (window_view s)"
proof -
  let ?n = "nat (sw_size s)"
  have "sw_currentIndex s \<noteq> (sw_currentIndex s + (?n - k)) mod ?n" if "0 < k" "k < ?n" for k
    using that assms(1) by (auto simp: window_wf_def mod_if split: if_splits)
  moreover have "[0..<?n] = 0 # [1..<?n]"
    using assms(1) by (simp add: window_wf_def upt_rec)
  ultimately show ?thesis
    using assms by (auto simp: window_view_def bump_def window_wf_def nth_list_update split: if_splits)
qed

lemma record_view:
  assumes "window_wf s" and "Option.bind (updateBuckets now s) (bump f) = Some s'"
  shows "window_view s' = on_head f (shift_in (rotations now s) (window_view s))"
proof -
  obtain s1 where s1: "updateBuckets now s = Some s1" "window_wf s1"
    using assms(1) by (rule updateBuckets_total)
  with assms updateBuckets_view [OF assms(1) s1(1)] view_bump [OF s1(2)] show ?thesis
    by simp
qed



end
