(* ===== verification/Circuit_Breaker.thy ===== *)
theory Circuit_Breaker
  imports Sliding_Window Protocol_Message
begin

text \<open>
  The three-state circuit breaker of \<open>pkg/circuitbreaker\<close> (\<open>state.go\<close>, \<open>breaker.go\<close>) over the
  sliding window. \<open>beforeCall\<close> and \<open>afterCall\<close> hold the breaker's lock for their whole body,
  so they are the atomic steps; the calls they guard run in between, in any interleaving.
\<close>

section \<open>State\<close>

datatype State = StateClosed | StateOpen | StateHalfOpen | StateOther int

fun State_String :: "State \<Rightarrow> string" where
  "State_String StateClosed = ''CLOSED''"
| "State_String StateOpen = ''OPEN''"
| "State_String StateHalfOpen = ''HALF_OPEN''"
| "State_String (StateOther s) = ''UNKNOWN('' @ fmt_d s @ '')''"

record CBConfig =
  cc_MaxRequests :: u32
  cc_MinRequests :: u32
  cc_Interval :: duration
  cc_Timeout :: duration
  cc_FailureThreshold :: rat
  cc_SuccessThreshold :: u32

definition CB_DefaultConfig :: CBConfig where
  "CB_DefaultConfig = \<lparr>cc_MaxRequests = 1, cc_MinRequests = 5, cc_Interval = 10 * Second,
     cc_Timeout = 60 * Second, cc_FailureThreshold = 1 / 2, cc_SuccessThreshold = 2\<rparr>"

record CircuitBreaker =
  cb_config :: CBConfig
  cb_state :: State
  cb_window :: SlidingWindow
  cb_openTime :: instant
  cb_halfOpenSuccesses :: u32
  cb_halfOpenInFlight :: u32

text \<open>A window of ten buckets never panics at construction. \<open>zeroTime\<close> is the zero \<open>time.Time\<close>.\<close>

definition zeroTime :: instant where
  "zeroTime = - 62135596800000000000"

definition CB_New :: "instant \<Rightarrow> CBConfig option \<Rightarrow> CircuitBreaker" where
  "CB_New now config =
     (let cfg = (case config of None \<Rightarrow> CB_DefaultConfig | Some c \<Rightarrow> c);
          bt = cc_Interval cfg sdiv 10;
          bucketTime = (if bt \<le> 0 then Second else bt)
      in \<lparr>cb_config = cfg, cb_state = StateClosed,
          cb_window = the (NewSlidingWindow now 10 bucketTime),
          cb_openTime = zeroTime, cb_halfOpenSuccesses = 0, cb_halfOpenInFlight = 0\<rparr>)"

section \<open>The two atomic sections of a call\<close>

definition beforeCall :: "instant \<Rightarrow> CircuitBreaker \<Rightarrow> CircuitBreaker \<times> go_error option" where
  "beforeCall now cb =
     (case cb_state cb of
        StateClosed \<Rightarrow> (cb, None)
      | StateOpen \<Rightarrow>
          if time_Sub now (cb_openTime cb) > cc_Timeout (cb_config cb)
          then (cb\<lparr>cb_state := StateHalfOpen, cb_halfOpenSuccesses := 0, cb_halfOpenInFlight := 0\<rparr>, None)
          else (cb, Some (Sentinel ErrCircuitOpen))
      | StateHalfOpen \<Rightarrow>
          if cb_halfOpenInFlight cb \<ge> cc_MaxRequests (cb_config cb)
          then (cb, Some (Sentinel ErrTooManyRequests))
          else (cb\<lparr>cb_halfOpenInFlight := cb_halfOpenInFlight cb + 1\<rparr>, None)
      | StateOther _ \<Rightarrow> (cb, None))"

definition onFailure :: "(rat \<Rightarrow> rat) \<Rightarrow> instant \<Rightarrow> CircuitBreaker \<Rightarrow> CircuitBreaker" where
  "onFailure rnd now cb =
     (case cb_state cb of
        StateClosed \<Rightarrow>
          if Window_Total (cb_window cb) < uint (cc_MinRequests (cb_config cb)) then cb
          else if FailureRate rnd (cb_window cb) \<ge> cc_FailureThreshold (cb_config cb)
            then cb\<lparr>cb_state := StateOpen, cb_openTime := now\<rparr>
            else cb
      | StateHalfOpen \<Rightarrow> cb\<lparr>cb_state := StateOpen, cb_openTime := now\<rparr>
      | _ \<Rightarrow> cb)"

definition onSuccess :: "CircuitBreaker \<Rightarrow> CircuitBreaker" where
  "onSuccess cb =
     (case cb_state cb of
        StateHalfOpen \<Rightarrow>
          let cb1 = cb\<lparr>cb_halfOpenSuccesses := cb_halfOpenSuccesses cb + 1\<rparr> in
          if cb_halfOpenSuccesses cb1 \<ge> cc_SuccessThreshold (cb_config cb1)
          then cb1\<lparr>cb_state := StateClosed, cb_window := Window_Reset (cb_window cb1)\<rparr>
          else cb1
      | _ \<Rightarrow> cb)"

text \<open>\<open>tW\<close> and \<open>tO\<close> are the two readings of the clock, by the window and by \<open>onFailure\<close>.\<close>

definition afterCall ::
    "(rat \<Rightarrow> rat) \<Rightarrow> instant \<Rightarrow> instant \<Rightarrow> go_error option \<Rightarrow> CircuitBreaker \<Rightarrow> CircuitBreaker option" where
  "afterCall rnd tW tO err cb =
     (let cb1 = (if cb_state cb = StateHalfOpen \<and> cb_halfOpenInFlight cb > 0
                 then cb\<lparr>cb_halfOpenInFlight := cb_halfOpenInFlight cb - 1\<rparr> else cb)
      in if err \<noteq> None
         then map_option (\<lambda>w. onFailure rnd tO (cb1\<lparr>cb_window := w\<rparr>)) (RecordFailure tW (cb_window cb1))
         else map_option (\<lambda>w. onSuccess (cb1\<lparr>cb_window := w\<rparr>)) (RecordSuccess tW (cb_window cb1)))"

section \<open>Whole calls\<close>

text \<open>
  \<open>Call\<close>: the guarded function acts on an environment \<open>'s\<close> and returns a result and an error,
  or panics (\<open>None\<close>), in which case \<open>afterCall\<close> does not run.
\<close>

type_synonym 'a returns = "'a option \<times> go_error option"

definition CB_Call ::
    "(rat \<Rightarrow> rat) \<Rightarrow> instant \<Rightarrow> instant \<Rightarrow> instant \<Rightarrow> ('s \<Rightarrow> 's \<times> 'a returns option)
     \<Rightarrow> 's \<Rightarrow> CircuitBreaker \<Rightarrow> 's \<times> CircuitBreaker \<times> 'a returns option" where
  "CB_Call rnd t0 tW tO fn s cb =
     (case beforeCall t0 cb of
        (cb1, Some e) \<Rightarrow> (s, cb1, Some (None, Some e))
      | (cb1, None) \<Rightarrow>
          (case fn s of
             (s', None) \<Rightarrow> (s', cb1, None)
           | (s', Some (result, err)) \<Rightarrow>
               (case afterCall rnd tW tO err cb1 of
                  None \<Rightarrow> (s', cb1, None)
                | Some cb2 \<Rightarrow> (s', cb2, Some (result, err)))))"

text \<open>\<open>CallResponse\<close> drops the result when there is an error.\<close>

definition CB_CallResponse ::
    "(rat \<Rightarrow> rat) \<Rightarrow> instant \<Rightarrow> instant \<Rightarrow> instant \<Rightarrow> ('s \<Rightarrow> 's \<times> 'a returns option)
     \<Rightarrow> 's \<Rightarrow> CircuitBreaker \<Rightarrow> 's \<times> CircuitBreaker \<times> 'a returns option" where
  "CB_CallResponse rnd t0 tW tO fn s cb =
     (case CB_Call rnd t0 tW tO fn s cb of
        (s', cb', None) \<Rightarrow> (s', cb', None)
      | (s', cb', Some (v, Some e)) \<Rightarrow> (s', cb', Some (None, Some e))
      | (s', cb', Some (v, None)) \<Rightarrow> (s', cb', Some (v, None)))"

definition CB_State :: "CircuitBreaker \<Rightarrow> State" where
  "CB_State cb = cb_state cb"

definition CB_Stats :: "(rat \<Rightarrow> rat) \<Rightarrow> CircuitBreaker \<Rightarrow> State \<times> rat" where
  "CB_Stats rnd cb = (cb_state cb, FailureRate rnd (cb_window cb))"

section \<open>Runs of interleaved calls\<close>

datatype cb_event = Begin instant | Finish instant instant "go_error option" | FinishPanic

text \<open>The outcome of an event: \<open>Begin\<close> gives the error \<open>beforeCall\<close> returned, if any.\<close>

definition cb_exec ::
    "(rat \<Rightarrow> rat) \<Rightarrow> cb_event \<Rightarrow> CircuitBreaker \<Rightarrow> (CircuitBreaker \<times> go_error option) option" where
  "cb_exec rnd ev cb = (case ev of
      Begin now \<Rightarrow> Some (beforeCall now cb)
    | Finish tW tO err \<Rightarrow> map_option (\<lambda>cb'. (cb', None)) (afterCall rnd tW tO err cb)
    | FinishPanic \<Rightarrow> Some (cb, None))"

fun cb_run ::
    "(rat \<Rightarrow> rat) \<Rightarrow> cb_event list \<Rightarrow> CircuitBreaker \<Rightarrow> (CircuitBreaker \<times> (cb_event \<times> go_error option) list) option" where
  "cb_run rnd [] cb = Some (cb, [])"
| "cb_run rnd (ev # evs) cb =
     (case cb_exec rnd ev cb of
        None \<Rightarrow> None
      | Some (cb1, out) \<Rightarrow>
          map_option (\<lambda>(cb2, outs). (cb2, (ev, out) # outs)) (cb_run rnd evs cb1))"

text \<open>
  The concurrent system: the breaker with the number of admitted calls that have not finished.
  Here every admitted function returns; \<open>FinishPanic\<close> above is the other case.
\<close>

inductive cb_step :: "(rat \<Rightarrow> rat) \<Rightarrow> CircuitBreaker \<times> nat \<Rightarrow> CircuitBreaker \<times> nat \<Rightarrow> bool"
  for rnd :: "rat \<Rightarrow> rat" where
  cb_admit: "beforeCall now cb = (cb', None) \<Longrightarrow> cb_step rnd (cb, n) (cb', Suc n)"
| cb_reject: "beforeCall now cb = (cb', Some e) \<Longrightarrow> cb_step rnd (cb, n) (cb', n)"
| cb_finish: "afterCall rnd tW tO err cb = Some cb' \<Longrightarrow> cb_step rnd (cb, Suc n) (cb', n)"

inductive_cases cb_stepE: "cb_step rnd s t"

definition cb_init :: "CBConfig option \<Rightarrow> CircuitBreaker \<times> nat \<Rightarrow> bool" where
  "cb_init config s \<longleftrightarrow> (\<exists>now. s = (CB_New now config, 0))"

text \<open>Sequences of whole calls, each a \<open>Begin\<close> and a \<open>Finish\<close> with the error \<open>err\<close> gives.\<close>

definition calls :: "('a \<Rightarrow> go_error option) \<Rightarrow> (instant \<times> instant \<times> instant \<times> 'a) list \<Rightarrow> cb_event list" where
  "calls err xs = concat (map (\<lambda>(t, w, u, x). [Begin t, Finish w u (err x)]) xs)"

section \<open>The invariant\<close>

definition cb_inv :: "CircuitBreaker \<Rightarrow> bool" where
  "cb_inv cb \<longleftrightarrow> window_wf (cb_window cb)
     \<and> cb_state cb \<in> {StateClosed, StateOpen, StateHalfOpen}
     \<and> (cb_state cb = StateHalfOpen \<longrightarrow>
          cb_halfOpenInFlight cb \<le> cc_MaxRequests (cb_config cb) \<and>
          (cb_halfOpenSuccesses cb = 0 \<or> cb_halfOpenSuccesses cb < cc_SuccessThreshold (cb_config cb)))"

lemma cb_inv_New: "cb_inv (CB_New now config)"
  using window_wf_New [of 10 _ now]
  by (auto simp: cb_inv_def CB_New_def Let_def in64_def Second_def NewSlidingWindow_def window_wf_def)

lemma state_New: "cb_state (CB_New now config) = StateClosed"
  by (simp add: CB_New_def Let_def)

lemma config_onFailure [simp]: "cb_config (onFailure rnd now cb) = cb_config cb"
  by (simp add: onFailure_def split: State.splits)

lemma config_onSuccess [simp]: "cb_config (onSuccess cb) = cb_config cb"
  by (simp add: onSuccess_def Let_def split: State.splits)

lemma config_afterCall: "afterCall rnd tW tO err cb = Some cb' \<Longrightarrow> cb_config cb' = cb_config cb"
  by (auto simp: afterCall_def Let_def split: if_splits)

lemma config_beforeCall [simp]: "cb_config (fst (beforeCall now cb)) = cb_config cb"
  by (simp add: beforeCall_def split: State.splits)

lemma u32_inc_le: "(a :: u32) < b \<Longrightarrow> a + 1 \<le> b"
  by (rule inc_le)

lemma cb_inv_beforeCall: "cb_inv cb \<Longrightarrow> cb_inv (fst (beforeCall now cb))"
  by (auto simp: cb_inv_def beforeCall_def not_le intro: u32_inc_le split: State.splits)

lemma onFailure_inv: "cb_inv cb \<Longrightarrow> cb_inv (onFailure rnd now cb)"
  by (auto simp: cb_inv_def onFailure_def split: State.splits)

lemma onSuccess_inv: "cb_inv cb \<Longrightarrow> cb_inv (onSuccess cb)"
  by (auto simp: cb_inv_def onSuccess_def Let_def not_le split: State.splits)

lemma afterCall_total:
  assumes "cb_inv cb"
  obtains cb' where "afterCall rnd tW tO err cb = Some cb'" "cb_inv cb'"
proof -
  define cb1 where "cb1 = (if cb_state cb = StateHalfOpen \<and> cb_halfOpenInFlight cb > 0
    then cb\<lparr>cb_halfOpenInFlight := cb_halfOpenInFlight cb - 1\<rparr> else cb)"
  have "cb_halfOpenInFlight cb - 1 \<le> cb_halfOpenInFlight cb" if "0 < cb_halfOpenInFlight cb"
    using that by (simp add: word_less_nat_alt word_le_nat_alt unat_sub_if')
  then have inv1: "cb_inv cb1"
    using assms by (auto simp: cb1_def cb_inv_def)
  then have wf: "window_wf (cb_window cb1)"
    by (simp add: cb_inv_def)
  have upd: "cb_inv (cb1\<lparr>cb_window := w\<rparr>)" if "window_wf w" for w
    using inv1 that by (simp add: cb_inv_def)
  obtain w v where w: "RecordFailure tW (cb_window cb1) = Some w" "window_wf w"
      "RecordSuccess tW (cb_window cb1) = Some v" "window_wf v"
    using record_total [OF wf, of tW] by (metis RecordFailure_def RecordSuccess_def)
  show ?thesis
    using that w upd [OF w(2)] upd [OF w(4)]
    by (cases "err = None")
      (auto simp: afterCall_def cb1_def [symmetric] Let_def intro: onFailure_inv onSuccess_inv)
qed

definition cb_sys_inv :: "CircuitBreaker \<times> nat \<Rightarrow> bool" where
  "cb_sys_inv s \<longleftrightarrow> cb_inv (fst s) \<and>
     (cb_state (fst s) = StateHalfOpen \<longrightarrow> unat (cb_halfOpenInFlight (fst s)) \<le> snd s)"

lemma afterCall_inv: "afterCall rnd tW tO err cb = Some cb' \<Longrightarrow> cb_inv cb \<Longrightarrow> cb_inv cb'"
  using afterCall_total [of cb rnd tW tO err] by (metis option.inject)

lemma unat_dec: "0 < (a :: u32) \<Longrightarrow> unat (a - 1) = unat a - 1"
  by (simp add: unat_sub_if' word_less_nat_alt)

lemma afterCall_inFlight:
  assumes "afterCall rnd tW tO err cb = Some cb'" and "cb_state cb' = StateHalfOpen"
  shows "cb_state cb = StateHalfOpen" "unat (cb_halfOpenInFlight cb') = unat (cb_halfOpenInFlight cb) - 1"
  using assms
  by (cases "cb_state cb"; auto simp: afterCall_def onFailure_def onSuccess_def Let_def unat_dec word_gt_0
      split: if_splits)+

lemma beforeCall_inFlight:
  assumes "beforeCall now cb = (cb', out)" and "cb_state cb' = StateHalfOpen"
    and "cb_state cb = StateHalfOpen \<Longrightarrow> unat (cb_halfOpenInFlight cb) \<le> n"
  shows "unat (cb_halfOpenInFlight cb') \<le> (if out = None then Suc n else n)"
  using assms
  by (auto simp: beforeCall_def word_le_nat_alt word_less_nat_alt unat_word_ariths split: if_splits State.splits
      intro: le_trans [OF mod_less_eq_dividend])

interpretation breaker: invariant_system "cb_init config" "cb_step rnd" cb_sys_inv for config rnd
proof
  fix s :: "CircuitBreaker \<times> nat"
  assume "cb_init config s"
  then show "cb_sys_inv s"
    using cb_inv_New [of _ config] by (auto simp: cb_init_def cb_sys_inv_def state_New)
next
  fix s t :: "CircuitBreaker \<times> nat"
  assume "cb_step rnd s t" and inv: "cb_sys_inv s"
  then show "cb_sys_inv t"
  proof (cases rule: cb_step.cases)
    case (cb_admit now cb cb' n)
    then show ?thesis
      using inv cb_inv_beforeCall [of cb now] beforeCall_inFlight [of now cb cb' None n]
      by (simp add: cb_sys_inv_def)
  next
    case (cb_reject now cb cb' e n)
    then show ?thesis
      using inv cb_inv_beforeCall [of cb now] beforeCall_inFlight [of now cb cb' "Some e" n]
      by (simp add: cb_sys_inv_def)
  next
    case (cb_finish tW tO err cb cb' n)
    then show ?thesis
      using inv afterCall_inv [OF cb_finish(3)] afterCall_inFlight [OF cb_finish(3)]
      by (auto simp: cb_sys_inv_def)
  qed
qed

lemma cb_step_config: "cb_step rnd s t \<Longrightarrow> cb_config (fst t) = cb_config (fst s)"
  by (erule cb_stepE) (auto dest: config_afterCall, (metis config_beforeCall fst_conv)+)

section \<open>Runs of events\<close>

lemma cb_exec_total:
  assumes "cb_inv cb"
  obtains cb' out where "cb_exec rnd ev cb = Some (cb', out)" "cb_inv cb'"
proof (cases ev)
  case (Begin now)
  then show ?thesis
    using that [of "fst (beforeCall now cb)" "snd (beforeCall now cb)"] cb_inv_beforeCall [OF assms]
    by (simp add: cb_exec_def)
next
  case (Finish tW tO err)
  obtain cb' where "afterCall rnd tW tO err cb = Some cb'" "cb_inv cb'"
    by (rule afterCall_total [OF assms])
  then show ?thesis
    using that Finish by (simp add: cb_exec_def)
next
  case FinishPanic
  then show ?thesis
    using that assms by (simp add: cb_exec_def)
qed

text \<open>An open breaker whose timeout has not passed is left open by every event.\<close>

lemma open_exec:
  assumes "cb_exec rnd ev cb = Some (cb', out)" and "cb_state cb = StateOpen"
    and "\<And>t. ev = Begin t \<Longrightarrow> time_Sub t (cb_openTime cb) \<le> cc_Timeout (cb_config cb)"
  shows "cb_state cb' = StateOpen \<and> cb_openTime cb' = cb_openTime cb \<and> cb_config cb' = cb_config cb
    \<and> (\<forall>t. ev = Begin t \<longrightarrow> out = Some (Sentinel ErrCircuitOpen))"
  using assms
  by (auto simp: cb_exec_def beforeCall_def afterCall_def onFailure_def onSuccess_def Let_def
      split: cb_event.splits if_splits)

lemma half_open_full_exec:
  assumes "cb_state cb = StateHalfOpen" and "cc_MaxRequests (cb_config cb) \<le> cb_halfOpenInFlight cb"
  shows "cb_run rnd (map Begin ts) cb
    = Some (cb, map (\<lambda>t. (Begin t, Some (Sentinel ErrTooManyRequests))) ts)"
  using assms by (induction ts) (simp_all add: cb_exec_def beforeCall_def)

lemma half_open_burst:
  assumes "cb_state cb = StateHalfOpen" and "unat (cb_halfOpenInFlight cb) \<le> unat (cc_MaxRequests (cb_config cb))"
  shows "\<exists>cb' outs. cb_run rnd (map Begin ts) cb = Some (cb', outs) \<and>
    length (filter (\<lambda>r. snd r = None) outs)
      = min (length ts) (unat (cc_MaxRequests (cb_config cb)) - unat (cb_halfOpenInFlight cb))"
  using assms
proof (induction ts arbitrary: cb)
  case (Cons t ts)
  show ?case
  proof (cases "cc_MaxRequests (cb_config cb) \<le> cb_halfOpenInFlight cb")
    case True
    then show ?thesis
      using half_open_full_exec [of cb rnd "t # ts"] Cons.prems by (auto simp: word_le_nat_alt comp_def)
  next
    case False
    let ?cb = "cb\<lparr>cb_halfOpenInFlight := cb_halfOpenInFlight cb + 1\<rparr>"
    have inc: "unat (cb_halfOpenInFlight cb + 1) = Suc (unat (cb_halfOpenInFlight cb))"
      using False by (simp add: unat_inc not_le)
    have "beforeCall t cb = (?cb, None)"
      using False Cons.prems by (simp add: beforeCall_def)
    then show ?thesis
      using Cons.IH [of ?cb] False Cons.prems inc
      by (auto simp: cb_exec_def word_le_nat_alt min_def)
  qed
qed simp

lemma calls_Cons [simp]: "calls err ((t, w, u, x) # xs) = Begin t # Finish w u (err x) # calls err xs"
  by (simp add: calls_def)

lemma calls_Nil [simp]: "calls err [] = []"
  by (simp add: calls_def)

section \<open>Tripping\<close>

text \<open>The window of a new breaker after \<open>n\<close> failures in its first bucket.\<close>

definition failures_window :: "int \<Rightarrow> SlidingWindow \<Rightarrow> SlidingWindow" where
  "failures_window n w = w\<lparr>sw_buckets := \<lparr>b_success = 0, b_failure = n, b_timeout = 0, b_total = n\<rparr> # replicate 9 zero_Bucket\<rparr>"

lemma failures_window_record:
  assumes "time_Sub now (sw_lastUpdate w) < sw_bucketTime w" and "sw_currentIndex w = 0"
    and "in64 (n + 1)"
  shows "RecordFailure now (failures_window n w) = Some (failures_window (n + 1) w)"
  using assms
  by (simp add: RecordFailure_def updateBuckets_def Let_def failures_window_def bump_def count_failure_def)

lemma failures_window_rate:
  assumes "0 < n" and "in64 n" and "rnd (of_int n) = of_int n" and "rnd 1 = 1"
  shows "Window_Total (failures_window n w) = n" "FailureRate rnd (failures_window n w) = 1"
  using assms
  by (simp_all add: FailureRate_def Window_Total_sum Window_Stats_sums failures_window_def
      sum_list_replicate zero_Bucket_def)

lemma failing_call:
  assumes "cb_state cb = StateClosed" and "cb_window cb = failures_window n w" and "0 \<le> n" and "in64 (n + 1)"
    and "sw_currentIndex w = 0" and "time_Sub tW (sw_lastUpdate w) < sw_bucketTime w"
    and "rnd (of_int (n + 1)) = of_int (n + 1)" and "rnd 1 = 1"
    and "cc_FailureThreshold (cb_config cb) \<le> 1"
  shows "beforeCall t cb = (cb, None)"
    and "afterCall rnd tW tO (Some e) cb = Some (let cb1 = cb\<lparr>cb_window := failures_window (n + 1) w\<rparr> in
           if n + 1 < uint (cc_MinRequests (cb_config cb)) then cb1
           else cb1\<lparr>cb_state := StateOpen, cb_openTime := tO\<rparr>)"
proof -
  show "beforeCall t cb = (cb, None)"
    using assms(1) by (simp add: beforeCall_def)
  note w = failures_window_record [OF assms(6,5,4)]
  have rate: "Window_Total (failures_window (n + 1) w) = n + 1" "FailureRate rnd (failures_window (n + 1) w) = 1"
    using failures_window_rate [of "n + 1" rnd w] assms by auto
  show "afterCall rnd tW tO (Some e) cb = Some (let cb1 = cb\<lparr>cb_window := failures_window (n + 1) w\<rparr> in
           if n + 1 < uint (cc_MinRequests (cb_config cb)) then cb1
           else cb1\<lparr>cb_state := StateOpen, cb_openTime := tO\<rparr>)"
    using assms(1,2,9) w rate by (simp add: afterCall_def onFailure_def Let_def)
qed

lemma failing_calls:
  assumes "cb_state cb = StateClosed" and "cb_window cb = failures_window n w" and "0 \<le> n"
    and "sw_currentIndex w = 0" and "\<forall>(t, tW, tO, e) \<in> set xs. time_Sub tW (sw_lastUpdate w) < sw_bucketTime w"
    and "\<And>i. 0 < i \<Longrightarrow> i \<le> uint (cc_MinRequests (cb_config cb)) \<Longrightarrow> rnd (of_int i) = of_int i"
    and "cc_FailureThreshold (cb_config cb) \<le> 1"
    and "n + int (length xs) \<le> uint (cc_MinRequests (cb_config cb))" and "n < uint (cc_MinRequests (cb_config cb))"
  shows "\<exists>cb' outs. cb_run rnd (calls Some xs) cb = Some (cb', outs) \<and> (\<forall>r \<in> set outs. snd r = None) \<and>
    cb_state cb' = (if n + int (length xs) < uint (cc_MinRequests (cb_config cb)) then StateClosed else StateOpen)"
  using assms
proof (induction xs arbitrary: cb n)
  case (Cons x xs)
  obtain t tW tO e where x: "x = (t, tW, tO, e)"
    by (cases x)
  let ?min = "uint (cc_MinRequests (cb_config cb))"
  have lt: "?min < 2 ^ 32"
    using unsigned_less [of "cc_MinRequests (cb_config cb)"] by simp
  have "in64 (n + 1)"
    using Cons.prems(3,8) lt by (simp add: in64_def)
  moreover have "rnd (of_int (n + 1)) = of_int (n + 1)" "rnd 1 = 1"
    using Cons.prems(3,9) Cons.prems(6) [of "n + 1"] Cons.prems(6) [of 1] by simp_all
  ultimately have call: "beforeCall t cb = (cb, None)"
    "afterCall rnd tW tO (Some e) cb = Some (let cb1 = cb\<lparr>cb_window := failures_window (n + 1) w\<rparr> in
       if n + 1 < ?min then cb1 else cb1\<lparr>cb_state := StateOpen, cb_openTime := tO\<rparr>)"
    using failing_call(1) [of cb n w tW rnd t] failing_call(2) [of cb n w tW rnd tO e] Cons.prems x by auto
  show ?case
  proof (cases "n + 1 < ?min")
    case True
    then show ?thesis
      using Cons.IH [of "cb\<lparr>cb_window := failures_window (n + 1) w\<rparr>" "n + 1"] Cons.prems call x
      by (auto simp: cb_exec_def algebra_simps)
  next
    case False
    then have "xs = []"
      using Cons.prems(8,9) by (cases xs) auto
    then show ?thesis
      using call x False Cons.prems(8) by (auto simp: cb_exec_def Let_def)
  qed
qed simp

section \<open>Recovering\<close>

lemma good_finish:
  assumes "cb_inv cb" and "cb_state cb = StateHalfOpen" and "unat (cb_halfOpenInFlight cb) \<le> 1"
  shows "\<exists>cb'. afterCall rnd tW tO None cb = Some cb' \<and>
    (if cc_SuccessThreshold (cb_config cb) \<le> cb_halfOpenSuccesses cb + 1
     then cb_state cb' = StateClosed \<and> Window_Total (cb_window cb') = 0
     else cb_state cb' = StateHalfOpen \<and> cb_halfOpenInFlight cb' = 0
       \<and> cb_halfOpenSuccesses cb' = cb_halfOpenSuccesses cb + 1)"
proof -
  obtain v where "RecordSuccess tW (cb_window cb) = Some v"
    using record_total [of "cb_window cb" tW count_success] assms(1)
    by (auto simp: RecordSuccess_def cb_inv_def)
  moreover have "cb_halfOpenInFlight cb - 1 = 0" if "0 < cb_halfOpenInFlight cb"
    using assms(3) unat_dec [OF that] that by (simp add: unat_eq_0 [symmetric])
  ultimately show ?thesis
    using assms(2) by (auto simp: afterCall_def onSuccess_def Let_def word_gt_0)
qed

lemma good_calls:
  assumes "cb_inv cb" and "cb_state cb = StateHalfOpen" and "cb_halfOpenInFlight cb = 0"
    and "0 < cc_MaxRequests (cb_config cb)"
    and "unat (cb_halfOpenSuccesses cb) + length xs \<le> unat (cc_SuccessThreshold (cb_config cb))"
    and "cb_halfOpenSuccesses cb < cc_SuccessThreshold (cb_config cb)"
  shows "\<exists>cb' outs. cb_run rnd (calls (\<lambda>_. None) xs) cb = Some (cb', outs) \<and> (\<forall>r \<in> set outs. snd r = None) \<and>
    (if unat (cb_halfOpenSuccesses cb) + length xs < unat (cc_SuccessThreshold (cb_config cb))
     then cb_state cb' = StateHalfOpen else cb_state cb' = StateClosed \<and> Window_Total (cb_window cb') = 0)"
  using assms
proof (induction xs arbitrary: cb)
  case Nil
  then show ?case by (simp add: word_less_nat_alt)
next
  case (Cons x xs)
  obtain t tW tO y where x: "x = (t, tW, tO, y)"
    by (cases x)
  let ?cb = "cb\<lparr>cb_halfOpenInFlight := 1\<rparr>" and ?th = "cc_SuccessThreshold (cb_config cb)"
  have b: "beforeCall t cb = (?cb, None)"
    using Cons.prems by (simp add: beforeCall_def)
  have inv: "cb_inv ?cb"
    using cb_inv_beforeCall [OF Cons.prems(1), of t] b by simp
  obtain cb1 where cb1: "afterCall rnd tW tO None ?cb = Some cb1"
    "if ?th \<le> cb_halfOpenSuccesses cb + 1
     then cb_state cb1 = StateClosed \<and> Window_Total (cb_window cb1) = 0
     else cb_state cb1 = StateHalfOpen \<and> cb_halfOpenInFlight cb1 = 0
       \<and> cb_halfOpenSuccesses cb1 = cb_halfOpenSuccesses cb + 1"
    using good_finish [OF inv, of rnd tW tO] Cons.prems(2) by auto
  note suc = unat_inc [OF Cons.prems(6)]
  show ?case
  proof (cases "?th \<le> cb_halfOpenSuccesses cb + 1")
    case True
    then have "xs = []"
      using Cons.prems(5) suc by (cases xs) (auto simp: word_le_nat_alt)
    then show ?thesis
      using True cb1 b x suc Cons.prems(5) by (auto simp: cb_exec_def word_le_nat_alt)
  next
    case False
    then show ?thesis
      using Cons.IH [of cb1] cb1 b x suc Cons.prems(4,5) afterCall_inv [OF cb1(1) inv] config_afterCall [OF cb1(1)]
      by (auto simp: cb_exec_def not_le)
  qed
qed

section \<open>Properties of the breaker\<close>

text \<open>
  (C12) While the breaker is open and its timeout has not passed, every call is refused with
  \<open>ErrCircuitOpen\<close>, however new calls, returns of earlier calls and panics interleave; the
  breaker stays open and the instant it opened does not move.
\<close>

theorem breaker_open_rejects:
  assumes "cb_inv cb" and "cb_state cb = StateOpen"
    and "\<forall>t. Begin t \<in> set evs \<longrightarrow> time_Sub t (cb_openTime cb) \<le> cc_Timeout (cb_config cb)"
  shows "\<exists>cb' outs. cb_run rnd evs cb = Some (cb', outs) \<and> map fst outs = evs
    \<and> cb_state cb' = StateOpen \<and> cb_openTime cb' = cb_openTime cb
    \<and> (\<forall>t out. (Begin t, out) \<in> set outs \<longrightarrow> out = Some (Sentinel ErrCircuitOpen))"
  using assms
proof (induction evs arbitrary: cb)
  case (Cons ev evs)
  obtain cb1 out where 1: "cb_exec rnd ev cb = Some (cb1, out)" "cb_inv cb1"
    by (rule cb_exec_total [OF Cons.prems(1)])
  have "cb_state cb1 = StateOpen \<and> cb_openTime cb1 = cb_openTime cb \<and> cb_config cb1 = cb_config cb
    \<and> (\<forall>t. ev = Begin t \<longrightarrow> out = Some (Sentinel ErrCircuitOpen))"
    using open_exec [OF 1(1) Cons.prems(2)] Cons.prems(3) by simp
  then show ?case
    using Cons.IH [of cb1] Cons.prems(3) 1 by auto
qed simp

theorem breaker_open_rejects_witness:
  "\<exists>cb' outs. cb_run id [Begin 5, Finish 6 7 (Some (Sentinel DeadlineExceeded)), Begin 9]
      ((CB_New 0 None)\<lparr>cb_state := StateOpen, cb_openTime := 4\<rparr>) = Some (cb', outs) \<and> cb_state cb' = StateOpen"
proof -
  let ?cb = "(CB_New 0 None)\<lparr>cb_state := StateOpen, cb_openTime := 4\<rparr>"
  let ?evs = "[Begin 5, Finish 6 7 (Some (Sentinel DeadlineExceeded)), Begin 9]"
  have "cb_inv ?cb"
    using cb_inv_New [of 0 None] by (simp add: cb_inv_def)
  moreover have "\<forall>t. Begin t \<in> set ?evs \<longrightarrow> time_Sub t (cb_openTime ?cb) \<le> cc_Timeout (cb_config ?cb)"
    by (auto simp: CB_New_def Let_def CB_DefaultConfig_def Second_def in64_def)
  ultimately show ?thesis
    using breaker_open_rejects [of ?cb ?evs id] by auto
qed



text \<open>
  (C17) From open, once the timeout has passed, a run of successful calls is admitted throughout
  (\<open>MaxRequests\<close> not zero): the breaker is half open before the \<open>SuccessThreshold\<close>-th success
  and closes exactly with it, with the window cleared.
\<close>

theorem breaker_recovers:
  assumes "cb_inv cb" and "cb_state cb = StateOpen"
    and "time_Sub t (cb_openTime cb) > cc_Timeout (cb_config cb)"
    and "cc_MaxRequests (cb_config cb) \<noteq> 0"
    and "length xs < unat (cc_SuccessThreshold (cb_config cb))"
  shows "\<exists>cb' outs. cb_run rnd (calls (\<lambda>_. None) ((t, tW, tO, x) # xs)) cb = Some (cb', outs)
    \<and> (\<forall>r \<in> set outs. snd r = None)
    \<and> (if Suc (length xs) < unat (cc_SuccessThreshold (cb_config cb)) then cb_state cb' = StateHalfOpen
        else cb_state cb' = StateClosed \<and> Window_Total (cb_window cb') = 0)"
proof -
  let ?cb = "cb\<lparr>cb_state := StateHalfOpen, cb_halfOpenSuccesses := 0, cb_halfOpenInFlight := 0\<rparr>"
  let ?th = "cc_SuccessThreshold (cb_config cb)"
  have b: "beforeCall t cb = (?cb, None)"
    using assms(2,3) by (simp add: beforeCall_def)
  have inv: "cb_inv ?cb"
    using cb_inv_beforeCall [OF assms(1), of t] b by simp
  obtain cb1 where cb1: "afterCall rnd tW tO None ?cb = Some cb1"
    "if ?th \<le> 1 then cb_state cb1 = StateClosed \<and> Window_Total (cb_window cb1) = 0
     else cb_state cb1 = StateHalfOpen \<and> cb_halfOpenInFlight cb1 = 0 \<and> cb_halfOpenSuccesses cb1 = 1"
    using good_finish [OF inv, of rnd tW tO] by auto
  show ?thesis
  proof (cases "?th \<le> 1")
    case True
    then have "xs = []"
      using assms(5) by (cases xs) (simp_all add: word_le_nat_alt)
    then show ?thesis
      using True b cb1 by (auto simp: cb_exec_def word_le_nat_alt)
  next
    case False
    then show ?thesis
      using good_calls [of cb1 xs rnd] cb1 b assms(4,5) afterCall_inv [OF cb1(1) inv] config_afterCall [OF cb1(1)]
      by (auto simp: cb_exec_def not_le word_neq_0_conv)
  qed
qed

theorem breaker_recovers_witness:
  "\<exists>cb' outs. cb_run id (calls (\<lambda>_. None) [(60000000001, 60000000002, 60000000002, ()), (60000000003, 60000000004, 60000000004, ())])
      ((CB_New 0 None)\<lparr>cb_state := StateOpen, cb_openTime := 0\<rparr>) = Some (cb', outs)
    \<and> cb_state cb' = StateClosed \<and> Window_Total (cb_window cb') = 0"
proof -
  let ?cb = "(CB_New 0 None)\<lparr>cb_state := StateOpen, cb_openTime := 0\<rparr>"
  have cfg: "cb_config ?cb = CB_DefaultConfig"
    by (simp add: CB_New_def Let_def)
  have "cb_inv ?cb"
    using cb_inv_New [of 0 None] by (simp add: cb_inv_def)
  then show ?thesis
    using breaker_recovers [of ?cb 60000000001 "[(60000000003, 60000000004, 60000000004, ())]" id 60000000002 60000000002 "()"]
    by (simp add: cfg del: cb_run.simps) (simp add: CB_DefaultConfig_def Second_def in64_def del: cb_run.simps, blast)
qed

text \<open>
  A burst of calls that arrives at an open breaker after its timeout, before any of them
  returns, has exactly \<open>MaxRequests + 1\<close> of its calls admitted when it is that large: the call
  that moves the breaker to half open is not counted in flight.
\<close>

theorem breaker_probe_burst:
  assumes "cb_state cb = StateOpen" and "time_Sub t (cb_openTime cb) > cc_Timeout (cb_config cb)"
  shows "\<exists>cb' outs. cb_run rnd (map Begin (t # ts)) cb = Some (cb', outs) \<and>
    length (filter (\<lambda>r. snd r = None) outs)
      = min (Suc (length ts)) (unat (cc_MaxRequests (cb_config cb)) + 1)"
proof -
  let ?cb = "cb\<lparr>cb_state := StateHalfOpen, cb_halfOpenSuccesses := 0, cb_halfOpenInFlight := 0\<rparr>"
  have "beforeCall t cb = (?cb, None)"
    using assms by (simp add: beforeCall_def)
  then show ?thesis
    using half_open_burst [of ?cb rnd ts] by (auto simp: cb_exec_def)
qed

theorem breaker_probe_burst_witness:
  "\<exists>cb' outs. cb_run id (map Begin [60000000001, 60000000002, 60000000003])
      ((CB_New 0 None)\<lparr>cb_state := StateOpen, cb_openTime := 0\<rparr>) = Some (cb', outs)
    \<and> length (filter (\<lambda>r. snd r = None) outs) = 2"
  using breaker_probe_burst [of "(CB_New 0 None)\<lparr>cb_state := StateOpen, cb_openTime := 0\<rparr>"
      60000000001 id "[60000000002, 60000000003]"]
  by (simp add: CB_New_def Let_def CB_DefaultConfig_def Second_def in64_def numeral_2_eq_2 del: cb_run.simps)



text \<open>
  A panic of a guarded function leaks its half-open slot: after the breaker has gone half
  open and the \<open>MaxRequests\<close> probes admitted there have panicked, so that no call is outstanding,
  every later call is refused with \<open>ErrTooManyRequests\<close>, at any time and for ever.
\<close>

theorem breaker_panic_wedges:
  assumes "cb_state cb = StateOpen" and "time_Sub t (cb_openTime cb) > cc_Timeout (cb_config cb)"
    and "cc_MaxRequests (cb_config cb) = 1"
  shows "\<exists>cb' outs. cb_run rnd ([Begin t, Begin t, FinishPanic, FinishPanic] @ map Begin ts) cb = Some (cb', outs)
    \<and> drop 4 outs = map (\<lambda>t. (Begin t, Some (Sentinel ErrTooManyRequests))) ts"
proof -
  let ?cb = "cb\<lparr>cb_state := StateHalfOpen, cb_halfOpenSuccesses := 0, cb_halfOpenInFlight := 1\<rparr>"
  have "cb_run rnd (map Begin ts) ?cb = Some (?cb, map (\<lambda>t. (Begin t, Some (Sentinel ErrTooManyRequests))) ts)"
    using half_open_full_exec [of ?cb rnd ts] assms(3) by simp
  then show ?thesis
    using assms by (auto simp: cb_exec_def beforeCall_def)
qed

theorem breaker_panic_wedges_witness:
  "\<exists>cb' outs. cb_run id ([Begin 60000000001, Begin 60000000001, FinishPanic, FinishPanic] @ map Begin [999000000000])
      ((CB_New 0 None)\<lparr>cb_state := StateOpen, cb_openTime := 0\<rparr>) = Some (cb', outs)
    \<and> drop 4 outs = [(Begin 999000000000, Some (Sentinel ErrTooManyRequests))]"
  using breaker_panic_wedges [of "(CB_New 0 None)\<lparr>cb_state := StateOpen, cb_openTime := 0\<rparr>" 60000000001 id "[999000000000]"]
  by (simp add: CB_New_def Let_def CB_DefaultConfig_def Second_def in64_def del: cb_run.simps)

end
