(* ===== verification/Rate_Limiter.thy ===== *)
theory Rate_Limiter
  imports Protocol_Message
begin

text \<open>
  The two rate limiters of \<open>pkg/ratelimiter\<close>: the token bucket (\<open>token_bucket.go\<close>) and the
  sliding window (\<open>sliding_window.go\<close>), with the contract \<open>RateLimiter\<close> of \<open>limiter.go\<close> that
  both provide. Every method holds the limiter's lock while it works, so a method is one step;
  the clock reading of a step is its argument \<open>now\<close>.
\<close>

section \<open>The token bucket\<close>

record TokenBucketLimiter =
  tb_capacity :: int
  tb_rate :: int
  tb_tokens :: int
  tb_lastUpdate :: instant
  tb_nsRemainder :: int

definition NewTokenBucketLimiter :: "instant \<Rightarrow> int \<Rightarrow> int \<Rightarrow> TokenBucketLimiter" where
  "NewTokenBucketLimiter now rate capacity =
     \<lparr>tb_capacity = capacity, tb_rate = rate, tb_tokens = capacity, tb_lastUpdate = now, tb_nsRemainder = 0\<rparr>"

text \<open>A rate of zero is a division by zero: a panic.\<close>

definition refill :: "instant \<Rightarrow> TokenBucketLimiter \<Rightarrow> TokenBucketLimiter option" where
  "refill now tb =
     (let elapsed = time_Sub now (tb_lastUpdate tb) in
      if elapsed \<le> 0 then Some tb
      else if tb_rate tb = 0 then None
      else
        let tb1 = tb\<lparr>tb_lastUpdate := now\<rparr>;
            nsPerToken = wrap64 (Second sdiv tb_rate tb)
        in if nsPerToken \<le> 0 then Some (tb1\<lparr>tb_tokens := tb_capacity tb, tb_nsRemainder := 0\<rparr>)
           else
             let totalNs = wrap64 (tb_nsRemainder tb + elapsed);
                 add = totalNs sdiv nsPerToken;
                 tb2 = tb1\<lparr>tb_nsRemainder := totalNs smod nsPerToken\<rparr>
             in Some (if add > 0
                      then tb2\<lparr>tb_tokens := (let t = wrap64 (tb_tokens tb + add) in
                             if t > tb_capacity tb then tb_capacity tb else t)\<rparr>
                      else tb2))"

definition tb_AllowN :: "instant \<Rightarrow> int \<Rightarrow> TokenBucketLimiter \<Rightarrow> (TokenBucketLimiter \<times> bool) option" where
  "tb_AllowN now n tb =
     (if n \<le> 0 then Some (tb, True)
      else map_option (\<lambda>tb1. if tb_tokens tb1 \<ge> n
          then (tb1\<lparr>tb_tokens := wrap64 (tb_tokens tb1 - n)\<rparr>, True) else (tb1, False))
        (refill now tb))"

definition tb_Allow :: "instant \<Rightarrow> TokenBucketLimiter \<Rightarrow> (TokenBucketLimiter \<times> bool) option" where
  "tb_Allow now tb = tb_AllowN now 1 tb"

definition tb_Name :: "TokenBucketLimiter \<Rightarrow> string" where
  "tb_Name tb = ''token-bucket''"

text \<open>
  The waiting loop. At each \<open>select\<close> the environment decides: the context is done, or the timer
  fires and the loop goes round at a later reading of the clock, after other callers made the
  listed requests. With no decision left the caller is still blocked, on a timer of the given
  duration.
\<close>

datatype tb_select = SelDone go_error | SelTimer "(instant \<times> int) list" instant

datatype wait_outcome = WaitOk | WaitErr go_error | WaitBlocked duration | WaitPanic

fun tb_requests :: "(instant \<times> int) list \<Rightarrow> TokenBucketLimiter \<Rightarrow> TokenBucketLimiter option" where
  "tb_requests [] tb = Some tb"
| "tb_requests ((now, n) # rs) tb = Option.bind (tb_AllowN now n tb) (\<lambda>(tb1, _). tb_requests rs tb1)"

fun tb_WaitLoop :: "int \<Rightarrow> instant \<Rightarrow> tb_select list \<Rightarrow> TokenBucketLimiter \<Rightarrow> TokenBucketLimiter \<times> wait_outcome" where
  "tb_WaitLoop n now sels tb =
     (case refill now tb of
        None \<Rightarrow> (tb, WaitPanic)
      | Some tb1 \<Rightarrow>
          if tb_tokens tb1 \<ge> n then (tb1\<lparr>tb_tokens := wrap64 (tb_tokens tb1 - n)\<rparr>, WaitOk)
          else if tb_rate tb1 = 0 then (tb1, WaitPanic)
          else
            let neededTokens = wrap64 (n - tb_tokens tb1);
                nsPerToken = wrap64 (Second sdiv tb_rate tb1);
                w = wrap64 (neededTokens * nsPerToken);
                waitNs = (if w < Microsecond then Microsecond else w)
            in (case sels of
                  [] \<Rightarrow> (tb1, WaitBlocked waitNs)
                | SelDone e # _ \<Rightarrow> (tb1, WaitErr e)
                | SelTimer others now' # sels' \<Rightarrow>
                    (case tb_requests others tb1 of
                       None \<Rightarrow> (tb1, WaitPanic)
                     | Some tb2 \<Rightarrow> tb_WaitLoop n now' sels' tb2)))"

definition tb_WaitN :: "int \<Rightarrow> instant \<Rightarrow> tb_select list \<Rightarrow> TokenBucketLimiter \<Rightarrow> TokenBucketLimiter \<times> wait_outcome" where
  "tb_WaitN n now sels tb =
     (if n \<le> 0 then (tb, WaitOk)
      else if n > tb_capacity tb then (tb, WaitErr (Sentinel ErrInvalidRequest))
      else tb_WaitLoop n now sels tb)"

definition tb_Wait :: "instant \<Rightarrow> tb_select list \<Rightarrow> TokenBucketLimiter \<Rightarrow> TokenBucketLimiter \<times> wait_outcome" where
  "tb_Wait now sels tb = tb_WaitN 1 now sels tb"

section \<open>The sliding window\<close>

record SlidingWindowLimiter =
  swl_limit :: int
  swl_window :: duration
  swl_requests :: "instant list"

definition NewSlidingWindowLimiter :: "int \<Rightarrow> duration \<Rightarrow> SlidingWindowLimiter" where
  "NewSlidingWindowLimiter limit window = \<lparr>swl_limit = limit, swl_window = window, swl_requests = []\<rparr>"

definition swl_AllowN :: "instant \<Rightarrow> int \<Rightarrow> SlidingWindowLimiter \<Rightarrow> SlidingWindowLimiter \<times> bool" where
  "swl_AllowN now n swl =
     (let windowStart = now + wrap64 (- swl_window swl);
          validRequests = filter (\<lambda>t. t > windowStart) (swl_requests swl);
          swl1 = swl\<lparr>swl_requests := validRequests\<rparr>
      in if wrap64 (int (length validRequests) + n) > swl_limit swl then (swl1, False)
         else (swl1\<lparr>swl_requests := validRequests @ replicate (nat n) now\<rparr>, True))"

definition swl_Allow :: "instant \<Rightarrow> SlidingWindowLimiter \<Rightarrow> SlidingWindowLimiter \<times> bool" where
  "swl_Allow now swl = swl_AllowN now 1 swl"

definition swl_Name :: "SlidingWindowLimiter \<Rightarrow> string" where
  "swl_Name swl = ''sliding-window''"

datatype swl_select = SwlDone go_error | SwlTick "(instant \<times> int) list" instant

fun swl_requests_run :: "(instant \<times> int) list \<Rightarrow> SlidingWindowLimiter \<Rightarrow> SlidingWindowLimiter" where
  "swl_requests_run [] swl = swl"
| "swl_requests_run ((now, n) # rs) swl = swl_requests_run rs (fst (swl_AllowN now n swl))"

fun swl_Wait :: "instant \<Rightarrow> swl_select list \<Rightarrow> SlidingWindowLimiter \<Rightarrow> SlidingWindowLimiter \<times> wait_outcome" where
  "swl_Wait now sels swl =
     (case swl_Allow now swl of
        (swl1, True) \<Rightarrow> (swl1, WaitOk)
      | (swl1, False) \<Rightarrow>
          (case sels of
             [] \<Rightarrow> (swl1, WaitBlocked (10 * Millisecond))
           | SwlDone e # _ \<Rightarrow> (swl1, WaitErr e)
           | SwlTick others now' # sels' \<Rightarrow> swl_Wait now' sels' (swl_requests_run others swl1)))"

section \<open>Histories of requests\<close>

text \<open>The number of tokens granted over a run, and the grants of a sliding window with their instants.\<close>

fun tb_granted :: "(instant \<times> int) list \<Rightarrow> TokenBucketLimiter \<Rightarrow> (TokenBucketLimiter \<times> int) option" where
  "tb_granted [] tb = Some (tb, 0)"
| "tb_granted ((now, n) # rs) tb =
     Option.bind (tb_AllowN now n tb) (\<lambda>(tb1, ok).
       map_option (\<lambda>(tb2, g). (tb2, g + (if ok then max 0 n else 0))) (tb_granted rs tb1))"

fun swl_grants :: "(instant \<times> int) list \<Rightarrow> SlidingWindowLimiter \<Rightarrow> instant list" where
  "swl_grants [] swl = []"
| "swl_grants ((now, n) # rs) swl =
     (case swl_AllowN now n swl of
        (swl1, ok) \<Rightarrow> (if ok then replicate (nat n) now else []) @ swl_grants rs swl1)"

text \<open>A burst of \<open>k\<close> single requests at one instant, and how many of them a limiter grants.\<close>

primrec burst :: "(instant \<Rightarrow> int \<Rightarrow> 's \<Rightarrow> ('s \<times> bool) option) \<Rightarrow> instant \<Rightarrow> nat \<Rightarrow> 's \<Rightarrow> ('s \<times> nat) option" where
  "burst allowN now 0 s = Some (s, 0)"
| "burst allowN now (Suc k) s = Option.bind (allowN now 1 s) (\<lambda>(s1, ok).
     map_option (\<lambda>(s2, g). (s2, g + (if ok then 1 else 0))) (burst allowN now k s1))"

section \<open>Invariants\<close>

definition ns_per_token :: "TokenBucketLimiter \<Rightarrow> int" where
  "ns_per_token tb = Second div tb_rate tb"

definition tb_wf :: "TokenBucketLimiter \<Rightarrow> bool" where
  "tb_wf tb \<longleftrightarrow> 1 \<le> tb_rate tb \<and> tb_rate tb \<le> Second \<and> 0 \<le> tb_tokens tb \<and> tb_tokens tb \<le> tb_capacity tb
     \<and> tb_capacity tb < 2 ^ 62 \<and> 0 \<le> tb_nsRemainder tb \<and> tb_nsRemainder tb < ns_per_token tb"

text \<open>The clock stays within 2^61 ns (73 years) of the last refill.\<close>

definition near :: "instant \<Rightarrow> TokenBucketLimiter \<Rightarrow> bool" where
  "near now tb \<longleftrightarrow> now - tb_lastUpdate tb < 2 ^ 61 \<and> tb_lastUpdate tb - now < 2 ^ 61"

lemma ns_per_token_bounds:
  assumes "tb_wf tb"
  shows "1 \<le> ns_per_token tb" "ns_per_token tb \<le> Second" "wrap64 (Second sdiv tb_rate tb) = ns_per_token tb"
proof -
  have r: "1 \<le> tb_rate tb" "tb_rate tb \<le> Second"
    using assms by (simp_all add: tb_wf_def)
  have "Second div tb_rate tb \<le> Second div 1"
    by (rule zdiv_mono2) (use r in \<open>auto simp: Second_def\<close>)
  moreover have "tb_rate tb div tb_rate tb \<le> Second div tb_rate tb"
    by (rule zdiv_mono1) (use r in auto)
  ultimately show b: "1 \<le> ns_per_token tb" "ns_per_token tb \<le> Second"
    using r by (auto simp: ns_per_token_def)
  have "in64 (Second div tb_rate tb)"
    using b by (simp add: ns_per_token_def in64_def Second_def)
  then show "wrap64 (Second sdiv tb_rate tb) = ns_per_token tb"
    using r by (simp add: ns_per_token_def Second_def)
qed

lemma div_le_dividend_int: "0 \<le> (a::int) \<Longrightarrow> 1 \<le> b \<Longrightarrow> a div b \<le> a"
  using zdiv_mono2 [of a 1 b] by simp

text \<open>What a refill does on a well-formed bucket, without machine arithmetic.\<close>

lemma refill_eq:
  assumes wf: "tb_wf tb" and near: "near now tb"
  shows "refill now tb = Some (if now \<le> tb_lastUpdate tb then tb else
    let q = (tb_nsRemainder tb + (now - tb_lastUpdate tb)) div ns_per_token tb in
    tb\<lparr>tb_lastUpdate := now,
       tb_nsRemainder := (tb_nsRemainder tb + (now - tb_lastUpdate tb)) mod ns_per_token tb,
       tb_tokens := min (tb_capacity tb) (tb_tokens tb + q)\<rparr>)"
proof -
  let ?p = "ns_per_token tb" and ?e = "now - tb_lastUpdate tb"
  let ?q = "(tb_nsRemainder tb + ?e) div ?p"
  note p = ns_per_token_bounds [OF wf]
  have e: "time_Sub now (tb_lastUpdate tb) = ?e"
    using near by (simp add: near_def in64_def)
  show ?thesis
  proof (cases "now \<le> tb_lastUpdate tb")
    case False
    have t: "0 \<le> tb_nsRemainder tb + ?e" "tb_nsRemainder tb + ?e < 2 ^ 62"
      using wf near False p(2) by (auto simp: tb_wf_def near_def Second_def)
    have "?q \<le> tb_nsRemainder tb + ?e"
      using t(1) p(1) by (rule div_le_dividend_int)
    moreover have "0 \<le> ?q"
      using t(1) p(1) by (simp add: pos_imp_zdiv_nonneg_iff)
    moreover have "0 \<le> tb_tokens tb" "tb_tokens tb < 2 ^ 62"
      using wf by (simp_all add: tb_wf_def)
    ultimately have i: "in64 (tb_nsRemainder tb + ?e)" "in64 (tb_tokens tb + ?q)" "0 \<le> ?q"
      using t by (auto intro: in64_between [of _ "2 ^ 62 - 1"] in64_between [of _ "2 ^ 63 - 1"])
    have "min (tb_capacity tb) (tb_tokens tb + ?q) =
      (if ?q > 0 then if tb_tokens tb + ?q > tb_capacity tb then tb_capacity tb else tb_tokens tb + ?q
       else tb_tokens tb)"
      using i(3) wf by (simp add: min_def tb_wf_def)
    moreover have "tb_rate tb \<noteq> 0"
      using wf by (simp add: tb_wf_def)
    ultimately show ?thesis
      using False p t(1) e i by (simp add: refill_def Let_def)
  qed (simp add: refill_def e)
qed

text \<open>What is conserved: tokens and remainder, in nanoseconds, grow by no more than the time that passed.\<close>

definition tb_potential :: "TokenBucketLimiter \<Rightarrow> int" where
  "tb_potential tb = tb_tokens tb * ns_per_token tb + tb_nsRemainder tb"

lemma refill_total:
  assumes wf: "tb_wf tb" and near: "near now tb"
  obtains tb' where "refill now tb = Some tb'" "tb_wf tb'" "tb_lastUpdate tb' = max (tb_lastUpdate tb) now"
    "tb_rate tb' = tb_rate tb" "tb_capacity tb' = tb_capacity tb" "tb_tokens tb \<le> tb_tokens tb'"
    "tb_potential tb' \<le> tb_potential tb + (tb_lastUpdate tb' - tb_lastUpdate tb)"
proof (cases "now \<le> tb_lastUpdate tb")
  case True
  then show ?thesis
    using that [of tb] wf refill_eq [OF wf near] by simp
next
  case False
  let ?p = "ns_per_token tb" and ?t = "tb_nsRemainder tb + (now - tb_lastUpdate tb)"
  let ?tb = "tb\<lparr>tb_lastUpdate := now, tb_nsRemainder := ?t mod ?p,
    tb_tokens := min (tb_capacity tb) (tb_tokens tb + ?t div ?p)\<rparr>"
  note p = ns_per_token_bounds [OF wf]
  have q: "0 \<le> ?t div ?p" "0 \<le> ?t mod ?p" "?t mod ?p < ?p"
    using wf False p(1) by (auto simp: tb_wf_def pos_imp_zdiv_nonneg_iff)
  then have wf': "tb_wf ?tb"
    using wf by (auto simp: tb_wf_def ns_per_token_def)
  have "tb_tokens ?tb * ?p \<le> (tb_tokens tb + ?t div ?p) * ?p"
    using p(1) by (intro mult_right_mono) auto
  also have "\<dots> = tb_tokens tb * ?p + (?t - ?t mod ?p)"
    by (simp add: distrib_right minus_mod_eq_div_mult [symmetric])
  finally have "tb_potential ?tb \<le> tb_potential tb + (tb_lastUpdate ?tb - tb_lastUpdate tb)"
    by (simp add: tb_potential_def ns_per_token_def)
  then show ?thesis
    using that [of ?tb] refill_eq [OF wf near] wf' wf q(1) False by (auto simp: Let_def tb_wf_def)
qed

lemma AllowN_total:
  assumes wf: "tb_wf tb" and near: "near now tb"
  obtains tb' ok where "tb_AllowN now n tb = Some (tb', ok)" "tb_wf tb'"
    "tb_lastUpdate tb' \<in> {tb_lastUpdate tb, max (tb_lastUpdate tb) now}"
    "tb_rate tb' = tb_rate tb" "tb_capacity tb' = tb_capacity tb"
    "(if ok then max 0 n else 0) * ns_per_token tb + tb_potential tb'
       \<le> tb_potential tb + (tb_lastUpdate tb' - tb_lastUpdate tb)"
proof (cases "n \<le> 0")
  case True
  then show ?thesis
    using that [of tb True] wf by (simp add: tb_AllowN_def)
next
  case False
  obtain tb1 where tb1: "refill now tb = Some tb1" "tb_wf tb1" "tb_lastUpdate tb1 = max (tb_lastUpdate tb) now"
    "tb_rate tb1 = tb_rate tb" "tb_capacity tb1 = tb_capacity tb"
    "tb_potential tb1 \<le> tb_potential tb + (tb_lastUpdate tb1 - tb_lastUpdate tb)"
    by (rule refill_total [OF wf near])
  show ?thesis
  proof (cases "n \<le> tb_tokens tb1")
    case True
    let ?tb = "tb1\<lparr>tb_tokens := tb_tokens tb1 - n\<rparr>"
    have "in64 (tb_tokens tb1 - n)" "tb_wf ?tb"
      using True False tb1(2) by (auto simp: tb_wf_def in64_def ns_per_token_def)
    moreover have "n * ns_per_token tb + tb_potential ?tb = tb_potential tb1"
      using tb1(4) by (simp add: tb_potential_def ns_per_token_def algebra_simps)
    ultimately show ?thesis
      using that [of ?tb True] True False tb1 by (simp add: tb_AllowN_def)
  next
    case no: False
    then show ?thesis
      using that [of tb1 False] False tb1 by (simp add: tb_AllowN_def)
  qed
qed

lemma granted_bound:
  assumes "tb_wf tb" and "\<forall>(t, n) \<in> set rs. lo < t \<and> t \<le> hi"
    and "lo < tb_lastUpdate tb" and "tb_lastUpdate tb \<le> hi" and "hi - lo < 2 ^ 61"
  shows "\<exists>tb' g. tb_granted rs tb = Some (tb', g) \<and> tb_wf tb' \<and>
    g * ns_per_token tb + tb_potential tb' \<le> tb_potential tb + (hi - tb_lastUpdate tb)"
  using assms
proof (induction rs arbitrary: tb)
  case (Cons r rs)
  obtain t n where r: "r = (t, n)"
    by (cases r)
  have "near t tb"
    using Cons.prems r by (auto simp: near_def)
  then obtain tb1 ok where tb1: "tb_AllowN t n tb = Some (tb1, ok)" "tb_wf tb1"
    "tb_lastUpdate tb1 \<in> {tb_lastUpdate tb, max (tb_lastUpdate tb) t}"
    "tb_rate tb1 = tb_rate tb" "tb_capacity tb1 = tb_capacity tb"
    "(if ok then max 0 n else 0) * ns_per_token tb + tb_potential tb1
       \<le> tb_potential tb + (tb_lastUpdate tb1 - tb_lastUpdate tb)"
    by (rule AllowN_total [OF Cons.prems(1)])
  have "lo < tb_lastUpdate tb1" "tb_lastUpdate tb1 \<le> hi"
    using tb1(3) Cons.prems r by auto
  then obtain tb2 g where tb2: "tb_granted rs tb1 = Some (tb2, g)" "tb_wf tb2"
    "g * ns_per_token tb1 + tb_potential tb2 \<le> tb_potential tb1 + (hi - tb_lastUpdate tb1)"
    using Cons.IH [OF tb1(2)] Cons.prems(2,5) by auto
  have "ns_per_token tb1 = ns_per_token tb"
    using tb1(4) by (simp add: ns_per_token_def)
  then show ?case
    using tb1 tb2 r by (simp add: distrib_right)
qed (simp add: tb_potential_def)

section \<open>The contract of a limiter\<close>

text \<open>
  What the interface promises at one instant: a request is granted exactly when it fits into
  what is available, and a granted request uses that up.
\<close>

locale rate_limiter =
  fixes allowN :: "instant \<Rightarrow> int \<Rightarrow> 's \<Rightarrow> ('s \<times> bool) option"
    and good :: "instant \<Rightarrow> 's \<Rightarrow> bool"
    and avail :: "instant \<Rightarrow> 's \<Rightarrow> int"
  assumes allow_decides: "good now s \<Longrightarrow> 0 \<le> n \<Longrightarrow> n < 2 ^ 62 \<Longrightarrow>
      \<exists>s'. allowN now n s = Some (s', n \<le> avail now s) \<and> good now s'
        \<and> avail now s' = avail now s - (if n \<le> avail now s then n else 0)"
    and avail_nonneg: "good now s \<Longrightarrow> 0 \<le> avail now s"
begin

lemma burst_exact:
  "good now s \<Longrightarrow> \<exists>s'. burst allowN now k s = Some (s', min k (nat (avail now s))) \<and> good now s'
     \<and> avail now s' = avail now s - int (min k (nat (avail now s)))"
proof (induction k arbitrary: s)
  case 0
  then show ?case by simp
next
  case (Suc k)
  obtain s1 where s1: "allowN now 1 s = Some (s1, 1 \<le> avail now s)" "good now s1"
    "avail now s1 = avail now s - (if 1 \<le> avail now s then 1 else 0)"
    using allow_decides [OF Suc.prems, of 1] by auto
  obtain s2 where s2: "burst allowN now k s1 = Some (s2, min k (nat (avail now s1)))" "good now s2"
    "avail now s2 = avail now s1 - int (min k (nat (avail now s1)))"
    using Suc.IH [OF s1(2)] by blast
  let ?g = "min k (nat (avail now s1)) + (if 1 \<le> avail now s then 1 else 0)"
  have g: "?g = min (Suc k) (nat (avail now s))" "avail now s2 = avail now s - int ?g"
    using s1(3) s2(3) avail_nonneg [OF Suc.prems] by (cases "1 \<le> avail now s"; simp add: nat_diff_distrib)+
  have "burst allowN now (Suc k) s = Some (s2, ?g)"
    using s1(1) s2(1) by simp
  then show ?case
    using s2(2) g by metis
qed

lemma denial_persists: "good now s \<Longrightarrow> avail now s = 0 \<Longrightarrow> \<exists>s'. allowN now 1 s = Some (s', False)"
  using allow_decides [of now s 1] by auto

end

definition tb_good :: "instant \<Rightarrow> TokenBucketLimiter \<Rightarrow> bool" where
  "tb_good now tb \<longleftrightarrow> tb_wf tb \<and> near now tb"

definition tb_avail :: "instant \<Rightarrow> TokenBucketLimiter \<Rightarrow> int" where
  "tb_avail now tb = tb_tokens (the (refill now tb))"

lemma refill_done: "tb_lastUpdate tb = max l now \<Longrightarrow> refill now tb = Some tb"
  by (simp add: refill_def Let_def time_Sub_def)

interpretation token_bucket: rate_limiter tb_AllowN tb_good tb_avail
proof
  fix now tb and n :: int
  assume "tb_good now tb" and n: "0 \<le> n" "n < 2 ^ 62"
  then have wf: "tb_wf tb" and near: "near now tb"
    by (simp_all add: tb_good_def)
  obtain tb1 where tb1: "refill now tb = Some tb1" "tb_wf tb1" "tb_lastUpdate tb1 = max (tb_lastUpdate tb) now"
    by (rule refill_total [OF wf near])
  have near1: "near now tb1"
    using near tb1(3) by (auto simp: near_def)
  have pos: "0 \<le> tb_tokens tb1"
    using tb1(2) by (simp add: tb_wf_def)
  show "\<exists>s'. tb_AllowN now n tb = Some (s', n \<le> tb_avail now tb) \<and> tb_good now s'
    \<and> tb_avail now s' = tb_avail now tb - (if n \<le> tb_avail now tb then n else 0)"
  proof (cases "n = 0")
    case True
    then show ?thesis
      using tb1 pos wf near by (simp add: tb_AllowN_def tb_good_def tb_avail_def)
  next
    case False
    let ?tb = "if n \<le> tb_tokens tb1 then tb1\<lparr>tb_tokens := tb_tokens tb1 - n\<rparr> else tb1"
    have "in64 (tb_tokens tb1 - n)" "tb_wf ?tb" "near now ?tb" "refill now ?tb = Some ?tb"
      using tb1 n near1 refill_done [of ?tb "tb_lastUpdate tb" now]
      by (auto simp: tb_wf_def in64_def ns_per_token_def near_def)
    then show ?thesis
      using tb1 False n(1) by (auto simp: tb_AllowN_def tb_good_def tb_avail_def)
  qed
next
  fix now tb
  assume "tb_good now tb"
  then have wf: "tb_wf tb" and near: "near now tb"
    by (simp_all add: tb_good_def)
  obtain tb1 where "refill now tb = Some tb1" "tb_wf tb1"
    by (rule refill_total [OF wf near])
  then show "0 \<le> tb_avail now tb"
    by (simp add: tb_avail_def tb_wf_def)
qed

definition swl_valid :: "instant \<Rightarrow> SlidingWindowLimiter \<Rightarrow> instant list" where
  "swl_valid now swl = filter (\<lambda>t. t > now - swl_window swl) (swl_requests swl)"

definition swl_wf :: "SlidingWindowLimiter \<Rightarrow> bool" where
  "swl_wf swl \<longleftrightarrow> 0 \<le> swl_limit swl \<and> swl_limit swl < 2 ^ 62 \<and> 0 < swl_window swl \<and> swl_window swl < 2 ^ 63"

definition swl_good :: "instant \<Rightarrow> SlidingWindowLimiter \<Rightarrow> bool" where
  "swl_good now swl \<longleftrightarrow> swl_wf swl \<and> int (length (swl_valid now swl)) \<le> swl_limit swl"

definition swl_avail :: "instant \<Rightarrow> SlidingWindowLimiter \<Rightarrow> int" where
  "swl_avail now swl = swl_limit swl - int (length (swl_valid now swl))"

lemma swl_AllowN_eq:
  assumes "swl_wf swl" and "int (length (swl_valid now swl)) < 2 ^ 62" and "- (2 ^ 62) \<le> n" and "n < 2 ^ 62"
  shows "swl_AllowN now n swl =
    (if int (length (swl_valid now swl)) + n > swl_limit swl
     then (swl\<lparr>swl_requests := swl_valid now swl\<rparr>, False)
     else (swl\<lparr>swl_requests := swl_valid now swl @ replicate (nat n) now\<rparr>, True))"
proof -
  have "in64 (- swl_window swl)" "in64 (int (length (swl_valid now swl)) + n)"
    using assms by (auto simp: swl_wf_def in64_def)
  then show ?thesis
    by (simp add: swl_AllowN_def Let_def swl_valid_def)
qed

lemma swl_valid_again:
  assumes "0 < swl_window swl"
  shows "swl_valid now (swl\<lparr>swl_requests := swl_valid now swl @ replicate k now\<rparr>) = swl_valid now swl @ replicate k now"
  using assms by (simp add: swl_valid_def)

interpretation window_limiter: rate_limiter "\<lambda>now n s. Some (swl_AllowN now n s)" swl_good swl_avail
proof
  fix now swl and n :: int
  assume g: "swl_good now swl" and n: "0 \<le> n" "n < 2 ^ 62"
  have eq: "swl_AllowN now n swl = (if n \<le> swl_avail now swl
     then (swl\<lparr>swl_requests := swl_valid now swl @ replicate (nat n) now\<rparr>, True)
     else (swl\<lparr>swl_requests := swl_valid now swl @ replicate 0 now\<rparr>, False))"
    using swl_AllowN_eq [of swl now n] g n by (auto simp: swl_good_def swl_avail_def swl_wf_def)
  have w: "0 < swl_window swl"
    using g by (simp add: swl_good_def swl_wf_def)
  show "\<exists>s'. Some (swl_AllowN now n swl) = Some (s', n \<le> swl_avail now swl) \<and> swl_good now s'
    \<and> swl_avail now s' = swl_avail now swl - (if n \<le> swl_avail now swl then n else 0)"
    using g n unfolding eq
    by (auto simp: swl_good_def swl_wf_def swl_avail_def swl_valid_again [OF w]
        swl_valid_again [OF w, of _ 0, simplified])
qed (simp add: swl_good_def swl_avail_def)

section \<open>Waiting\<close>

lemma wait_blocked:
  assumes wf: "tb_wf tb" and near: "near now tb" and n: "0 < n" "n \<le> tb_capacity tb"
    and fits: "tb_capacity tb * ns_per_token tb < 2 ^ 61"
    and blocked: "tb_WaitN n now [] tb = (tb1, WaitBlocked d)"
  shows "refill now tb = Some tb1" "tb_wf tb1" "tb_tokens tb1 < n" "(n - tb_tokens tb1) * ns_per_token tb1 \<le> d"
    "tb_lastUpdate tb1 = max (tb_lastUpdate tb) now" "tb_capacity tb1 = tb_capacity tb"
proof -
  obtain t where t: "refill now tb = Some t" "tb_wf t" "tb_lastUpdate t = max (tb_lastUpdate tb) now"
    "tb_rate t = tb_rate tb" "tb_capacity t = tb_capacity tb"
    by (rule refill_total [OF wf near])
  have p: "ns_per_token t = ns_per_token tb"
    using t(4) by (simp add: ns_per_token_def)
  have r: "tb_rate t \<noteq> 0" "0 \<le> tb_tokens t" "1 \<le> ns_per_token t"
    using t(2) ns_per_token_bounds(1) [OF t(2)] by (auto simp: tb_wf_def)
  have lt: "tb_tokens t < n"
    using blocked t(1) n by (auto simp: tb_WaitN_def split: if_splits)
  have "(n - tb_tokens t) * ns_per_token t \<le> tb_capacity tb * ns_per_token tb"
    unfolding p using n(2) r p by (intro mult_right_mono) auto
  moreover have "0 \<le> (n - tb_tokens t) * ns_per_token t"
    using lt r by (intro mult_nonneg_nonneg) auto
  ultimately have "in64 ((n - tb_tokens t) * ns_per_token t)"
    using fits by (intro in64_between [of _ "tb_capacity tb * ns_per_token tb"]) auto
  moreover have "in64 (n - tb_tokens t)"
    using lt r(2) n(2) wf by (intro in64_between [of _ "tb_capacity tb"]) (auto simp: tb_wf_def)
  ultimately have "in64 ((n - tb_tokens t) * ns_per_token t)" "in64 (n - tb_tokens t)" .
  then have "t = tb1" "(n - tb_tokens t) * ns_per_token t \<le> d"
    using blocked t(1) lt n r(1) ns_per_token_bounds(3) [OF t(2)]
    by (auto simp: tb_WaitN_def Let_def split: if_splits)
  then show "refill now tb = Some tb1" "tb_wf tb1" "tb_tokens tb1 < n" "(n - tb_tokens tb1) * ns_per_token tb1 \<le> d"
    "tb_lastUpdate tb1 = max (tb_lastUpdate tb) now" "tb_capacity tb1 = tb_capacity tb"
    using t lt by simp_all
qed

lemma refill_enough:
  assumes wf: "tb_wf tb" and near: "near now tb" and k: "0 < k" "tb_tokens tb + k \<le> tb_capacity tb"
    and long: "k * ns_per_token tb \<le> now - tb_lastUpdate tb"
  shows "\<exists>tb'. refill now tb = Some tb' \<and> tb_tokens tb + k \<le> tb_tokens tb'"
proof -
  note p = ns_per_token_bounds(1) [OF wf]
  have "0 < k * ns_per_token tb"
    using k p by simp
  moreover have "k \<le> (tb_nsRemainder tb + (now - tb_lastUpdate tb)) div ns_per_token tb"
    using zdiv_mono1 [of "k * ns_per_token tb" "tb_nsRemainder tb + (now - tb_lastUpdate tb)" "ns_per_token tb"]
      wf long p by (simp add: tb_wf_def)
  ultimately show ?thesis
    using refill_eq [OF wf near] long k by (auto simp: Let_def)
qed

section \<open>Grants of the sliding window\<close>

definition in_window :: "instant \<Rightarrow> duration \<Rightarrow> instant \<Rightarrow> bool" where
  "in_window a w t \<longleftrightarrow> a < t \<and> t \<le> a + w"

lemma filter_mono_length: "(\<And>x. x \<in> set xs \<Longrightarrow> P x \<Longrightarrow> Q x) \<Longrightarrow> length (filter P xs) \<le> length (filter Q xs)"
  by (induction xs) (auto intro: le_SucI)

text \<open>One step of the history \<open>gs\<close>: the limiter remembers the grants its window still reaches.\<close>

lemma swl_grant_step:
  assumes wf: "swl_wf swl" and old: "\<forall>t \<in> set gs. t \<le> now" and w: "w = swl_window swl"
    and valid: "swl_valid now swl = filter (\<lambda>t. t > now - w) gs"
    and bound: "\<And>a. int (length (filter (in_window a w) gs)) \<le> swl_limit swl"
    and n: "- (2 ^ 62) \<le> n" "n < 2 ^ 62"
  shows "\<exists>swl' ok. swl_AllowN now n swl = (swl', ok) \<and> swl_limit swl' = swl_limit swl \<and> swl_window swl' = swl_window swl
    \<and> (let gs' = gs @ (if ok then replicate (nat n) now else []) in
        swl_requests swl' = filter (\<lambda>t. t > now - w) gs'
        \<and> (\<forall>a. int (length (filter (in_window a w) gs')) \<le> swl_limit swl))"
proof -
  have "filter (\<lambda>t. t > now - w) gs = filter (in_window (now - w) w) gs"
    using old by (intro filter_cong) (auto simp: in_window_def)
  then have v: "int (length (swl_valid now swl)) \<le> swl_limit swl"
    using bound [of "now - w"] valid by simp
  note eq = swl_AllowN_eq [OF wf _ n, of now]
  have "int (length (filter (in_window a w) (gs @ replicate (nat n) now))) \<le> swl_limit swl"
    if fits: "int (length (swl_valid now swl)) + n \<le> swl_limit swl" for a
  proof (cases "in_window a w now")
    case True
    have "length (filter (in_window a w) gs) \<le> length (filter (\<lambda>t. t > now - w) gs)"
      by (rule filter_mono_length) (use True in \<open>auto simp: in_window_def\<close>)
    then show ?thesis
      using fits v valid True by simp
  qed (use bound in simp)
  moreover have "0 < w"
    using wf w by (simp add: swl_wf_def)
  ultimately show ?thesis
    using eq v wf valid bound by (auto simp: swl_wf_def Let_def)
qed

lemma swl_grants_bound:
  assumes "swl_wf swl" and "sorted (now0 # map fst rs)" and "\<forall>t \<in> set gs. t \<le> now0"
    and "swl_requests swl = filter (\<lambda>t. t > now0 - swl_window swl) gs"
    and "\<And>a. int (length (filter (in_window a (swl_window swl)) gs)) \<le> swl_limit swl"
    and "\<forall>(t, n) \<in> set rs. - (2 ^ 62) \<le> n \<and> n < 2 ^ 62"
  shows "int (length (filter (in_window a (swl_window swl)) (gs @ swl_grants rs swl))) \<le> swl_limit swl"
  using assms
proof (induction rs arbitrary: swl gs now0)
  case (Cons r rs)
  obtain now n where r: "r = (now, n)"
    by (cases r)
  let ?w = "swl_window swl"
  have le: "now0 \<le> now" and srt: "sorted (now # map fst rs)"
    using Cons.prems(2) r by auto
  have old: "\<forall>t \<in> set gs. t \<le> now"
    using Cons.prems(3) le by auto
  have valid: "swl_valid now swl = filter (\<lambda>t. t > now - ?w) gs"
    using le unfolding swl_valid_def Cons.prems(4) filter_filter by (intro filter_cong) auto
  obtain swl1 ok where 1: "swl_AllowN now n swl = (swl1, ok)" "swl_limit swl1 = swl_limit swl" "swl_window swl1 = ?w"
    "swl_requests swl1 = filter (\<lambda>t. t > now - ?w) (gs @ (if ok then replicate (nat n) now else []))"
    "\<And>a. int (length (filter (in_window a ?w) (gs @ (if ok then replicate (nat n) now else [])))) \<le> swl_limit swl"
    using swl_grant_step [OF Cons.prems(1) old refl valid Cons.prems(5), of n] Cons.prems(6) r
    by (auto simp: Let_def)
  let ?gs = "gs @ (if ok then replicate (nat n) now else [])"
  have "swl_wf swl1" "\<forall>t \<in> set ?gs. t \<le> now" "\<forall>(t, n) \<in> set rs. - (2 ^ 62) \<le> n \<and> n < 2 ^ 62"
    using 1 Cons.prems(1,6) old by (auto simp: swl_wf_def)
  then have "int (length (filter (in_window a ?w) (?gs @ swl_grants rs swl1))) \<le> swl_limit swl"
    using Cons.IH [of swl1 now ?gs] 1 srt by simp
  then show ?case
    using 1(1) r by simp
qed simp

section \<open>Properties of the limiters\<close>





text \<open>
  (C19) The sliding window keeps its limit over every window, not only over those that end at a
  request: for requests at non-decreasing instants and any \<open>a\<close>, at most \<open>limit\<close> grants lie after
  \<open>a\<close> and no later than \<open>a + window\<close>.
\<close>

theorem sliding_window_limit:
  assumes "0 \<le> limit" and "limit < 2 ^ 62" and "0 < window" and "window < 2 ^ 63"
    and "sorted (map fst rs)" and "\<forall>(t, n) \<in> set rs. - (2 ^ 62) \<le> n \<and> n < 2 ^ 62"
  shows "int (length (filter (in_window a window) (swl_grants rs (NewSlidingWindowLimiter limit window)))) \<le> limit"
proof (cases rs)
  case Nil
  then show ?thesis
    using assms(1) by simp
next
  case (Cons r rs')
  then show ?thesis
    using swl_grants_bound [of "NewSlidingWindowLimiter limit window" "fst r" rs "[]" a] assms
    by (simp add: NewSlidingWindowLimiter_def swl_wf_def)
qed

theorem sliding_window_limit_witness:
  "int (length (filter (in_window 4 10) (swl_grants [(5, 2), (6, 1), (14, 1), (15, 1)] (NewSlidingWindowLimiter 2 10)))) \<le> 2"
  using sliding_window_limit [of 2 10 "[(5, 2), (6, 1), (14, 1), (15, 1)]" 4] by simp

text \<open>
  Both limiters grant a burst exactly up to their size: of \<open>k\<close> single requests at one instant a
  new token bucket grants the first \<open>capacity\<close>, a new sliding window the first \<open>limit\<close>.
\<close>

theorem limiter_burst:
  assumes "1 \<le> rate" and "rate \<le> Second" and "0 \<le> sz" and "sz < 2 ^ 62" and "0 < window" and "window < 2 ^ 63"
  shows "(\<exists>s. burst tb_AllowN now k (NewTokenBucketLimiter now rate sz) = Some (s, min k (nat sz)))
    \<and> (\<exists>s. burst (\<lambda>now n s. Some (swl_AllowN now n s)) now k (NewSlidingWindowLimiter sz window)
          = Some (s, min k (nat sz)))"
proof -
  have "0 < Second div rate"
    using assms(1,2) by (simp add: pos_imp_zdiv_pos_iff)
  then have "tb_good now (NewTokenBucketLimiter now rate sz)" "tb_avail now (NewTokenBucketLimiter now rate sz) = sz"
    using assms by (simp_all add: tb_good_def tb_wf_def near_def ns_per_token_def NewTokenBucketLimiter_def
        tb_avail_def refill_def)
  moreover have "swl_good now (NewSlidingWindowLimiter sz window)"
    "swl_avail now (NewSlidingWindowLimiter sz window) = sz"
    using assms by (simp_all add: swl_good_def swl_wf_def swl_valid_def swl_avail_def NewSlidingWindowLimiter_def)
  ultimately show ?thesis
    using token_bucket.burst_exact [of now "NewTokenBucketLimiter now rate sz" k]
      window_limiter.burst_exact [of now "NewSlidingWindowLimiter sz window" k] by auto
qed

theorem limiter_burst_witness:
  "\<exists>s. burst tb_AllowN 0 7 (NewTokenBucketLimiter 0 10 5) = Some (s, 5)"
  using limiter_burst [of 10 5 1 0 7] by (simp add: Second_def)

end
