(* ===== verification/Service_Instance.thy ===== *)
theory Service_Instance
  imports Protocol_Message
begin

text \<open>
  Service instances (\<open>pkg/registry/instance.go\<close>): the value that registries hand out, balancers
  pick and the client dials.
\<close>

datatype InstanceStatus = StatusUnknown | StatusUp | StatusDown | StatusStarting | StatusOther int

fun InstanceStatus_String :: "InstanceStatus \<Rightarrow> string" where
  "InstanceStatus_String StatusUp = ''UP''"
| "InstanceStatus_String StatusDown = ''DOWN''"
| "InstanceStatus_String StatusStarting = ''STARTING''"
| "InstanceStatus_String _ = ''UNKNOWN''"

record ServiceInstance =
  si_ID :: string
  si_Service :: string
  si_Version :: string
  si_Address :: string
  si_Port :: int
  si_Metadata :: Metadata
  si_Weight :: int
  si_Status :: InstanceStatus
  si_RegisterTime :: instant
  si_UpdateTime :: instant

text \<open>The three readings of the clock: for the ID (in seconds), and for the two time stamps.\<close>

definition NewServiceInstance ::
    "instant \<Rightarrow> instant \<Rightarrow> instant \<Rightarrow> string \<Rightarrow> string \<Rightarrow> int \<Rightarrow> ServiceInstance" where
  "NewServiceInstance t1 t2 t3 service address port =
     \<lparr>si_ID = service @ ''-'' @ address @ '':'' @ fmt_d port @ ''-'' @ fmt_d (t1 div Second),
      si_Service = service, si_Version = '''', si_Address = address, si_Port = port,
      si_Metadata = Some Map.empty, si_Weight = 100, si_Status = StatusUp,
      si_RegisterTime = t2, si_UpdateTime = t3\<rparr>"

definition Endpoint :: "ServiceInstance \<Rightarrow> string" where
  "Endpoint si = si_Address si @ '':'' @ fmt_d (si_Port si)"

lemma fmt_d_no_colon: "CHR '':'' \<notin> set (fmt_d i)"
  using nat_base_digits by (auto simp: fmt_d_def)

lemma nat_base_ne_dash: "nat_base 10 m \<noteq> CHR ''-'' # xs"
  using nat_base_digits [of "CHR ''-''" m] by (metis list.set_intros(1))

lemma fmt_d_inj [simp]: "fmt_d i = fmt_d j \<longleftrightarrow> i = j"
proof
  assume eq: "fmt_d i = fmt_d j"
  then have "i < 0 \<longleftrightarrow> j < 0"
    by (auto simp: fmt_d_def nat_base_ne_dash nat_base_ne_dash [symmetric] split: if_splits)
  then show "i = j"
    using eq nat_base_inj [of 10] by (auto simp: fmt_d_def eq_nat_nat_iff split: if_splits)
qed simp

text \<open>Two endpoints are the same string only for the same address and port.\<close>

lemma Endpoint_inj: "Endpoint a = Endpoint b \<longleftrightarrow> si_Address a = si_Address b \<and> si_Port a = si_Port b"
  using append_sep_inj [of "si_Address a" "CHR '':''" "fmt_d (si_Port a)" "si_Address b" "fmt_d (si_Port b)"]
  by (auto simp: Endpoint_def fmt_d_no_colon)

end
