(* ===== verification/Load_Balancer.thy ===== *)
theory Load_Balancer
  imports Service_Instance "HOL-Library.Multiset"
begin

text \<open>
  The four balancers of \<open>pkg/loadbalancer\<close>: round robin (\<open>roundrobin.go\<close>), random (\<open>random.go\<close>),
  weighted round robin (\<open>weighted.go\<close>) and consistent hashing (\<open>consistent.go\<close>), and the pick
  options of \<open>balancer.go\<close>. The interface \<open>LoadBalancer\<close> is the locale \<open>load_balancer\<close>. Instance
  lists hold no nil pointers, and a list handed to \<open>Pick\<close> is not written to afterwards.
\<close>

section \<open>Pick options\<close>

record PickOptions =
  po_key :: string
  po_Metadata :: Metadata

definition NewPickOptions :: "string \<Rightarrow> PickOptions" where
  "NewPickOptions key = \<lparr>po_key = key, po_Metadata = None\<rparr>"

definition PickOptions_Key :: "PickOptions option \<Rightarrow> string" where
  "PickOptions_Key po = (case po of None \<Rightarrow> '''' | Some p \<Rightarrow> po_key p)"

definition WithKey :: "PickOptions option \<Rightarrow> string \<Rightarrow> PickOptions" where
  "WithKey po key = (case po of None \<Rightarrow> \<lparr>po_key = key, po_Metadata = None\<rparr> | Some p \<Rightarrow> p\<lparr>po_key := key\<rparr>)"

section \<open>Round robin\<close>

record RoundRobinBalancer =
  rb_index :: u64

definition NewRoundRobin :: RoundRobinBalancer where
  "NewRoundRobin = \<lparr>rb_index = 0\<rparr>"

definition rb_Pick :: "ServiceInstance list \<Rightarrow> RoundRobinBalancer \<Rightarrow> RoundRobinBalancer \<times> ServiceInstance or_error" where
  "rb_Pick instances rb =
     (if instances = [] then (rb, Inl (Errorf ''no available instances''))
      else let i = rb_index rb + 1 in
        (rb\<lparr>rb_index := i\<rparr>, Inr (instances ! unat (i mod of_nat (length instances)))))"

definition rb_Name :: "RoundRobinBalancer \<Rightarrow> string" where
  "rb_Name rb = ''round-robin''"

section \<open>Random\<close>

text \<open>
  \<open>rand.Rand\<close> is not part of the repository: \<open>Intn\<close> maps a generator state and a bound to the next
  state and a number, which is below the bound when that is positive.
\<close>

record 'r Random =
  rnd :: 'r

definition random_Pick ::
    "('r \<Rightarrow> nat \<Rightarrow> 'r \<times> nat) \<Rightarrow> ServiceInstance list \<Rightarrow> 'r Random \<Rightarrow> 'r Random \<times> ServiceInstance or_error" where
  "random_Pick Intn instances r =
     (if instances = [] then (r, Inl (Sentinel ErrNoInstances))
      else case Intn (rnd r) (length instances) of (g, idx) \<Rightarrow> (r\<lparr>rnd := g\<rparr>, Inr (instances ! idx)))"

definition random_Name :: "'r Random \<Rightarrow> string" where
  "random_Name r = ''random''"

section \<open>Weighted round robin\<close>

record WeightedRoundRobin =
  wrr_instances :: "ServiceInstance list"
  wrr_weights :: "nat list"
  wrr_current :: int

definition NewWeightedRoundRobin :: WeightedRoundRobin where
  "NewWeightedRoundRobin = \<lparr>wrr_instances = [], wrr_weights = [], wrr_current = 0\<rparr>"

definition weight_of :: "ServiceInstance \<Rightarrow> nat" where
  "weight_of inst = nat (if si_Weight inst \<le> 0 then 100 else si_Weight inst)"

fun wrr_schedule :: "nat \<Rightarrow> ServiceInstance list \<Rightarrow> nat list" where
  "wrr_schedule i [] = []"
| "wrr_schedule i (inst # rest) = replicate (weight_of inst) i @ wrr_schedule (Suc i) rest"

definition wrr_rebuild :: "ServiceInstance list \<Rightarrow> WeightedRoundRobin \<Rightarrow> WeightedRoundRobin" where
  "wrr_rebuild instances wrr =
     wrr\<lparr>wrr_instances := instances, wrr_weights := wrr_schedule 0 instances, wrr_current := -1\<rparr>"

definition wrr_isSameInstances :: "ServiceInstance list \<Rightarrow> WeightedRoundRobin \<Rightarrow> bool" where
  "wrr_isSameInstances instances wrr \<longleftrightarrow> length instances = length (wrr_instances wrr) \<and>
     list_all2 (\<lambda>a b. si_ID a = si_ID b \<and> si_Weight a = si_Weight b) instances (wrr_instances wrr)"

text \<open>The final index expressions are in range for every reachable state: \<open>wrr_wf\<close> below.\<close>

definition wrr_Pick :: "ServiceInstance list \<Rightarrow> WeightedRoundRobin \<Rightarrow> WeightedRoundRobin \<times> ServiceInstance or_error" where
  "wrr_Pick instances wrr =
     (if instances = [] then (wrr, Inl (Sentinel ErrNoInstances))
      else
        let wrr1 = (if wrr_isSameInstances instances wrr then wrr else wrr_rebuild instances wrr) in
        if wrr_weights wrr1 = [] then (wrr1, Inr (instances ! 0))
        else
          let c = (wrr_current wrr1 + 1) smod int (length (wrr_weights wrr1)) in
          (wrr1\<lparr>wrr_current := c\<rparr>, Inr (wrr_instances wrr1 ! (wrr_weights wrr1 ! nat c))))"

definition wrr_Name :: "WeightedRoundRobin \<Rightarrow> string" where
  "wrr_Name wrr = ''weighted-round-robin''"

section \<open>Consistent hashing\<close>

definition defaultVirtualNodes :: int where
  "defaultVirtualNodes = 150"

record ConsistentHash =
  ch_hashRing :: "u32 list"
  ch_nodes :: "u32 \<rightharpoonup> ServiceInstance"
  ch_virtualNodes :: int
  ch_instances :: "ServiceInstance list"

definition NewConsistentHash :: ConsistentHash where
  "NewConsistentHash = \<lparr>ch_hashRing = [], ch_nodes = Map.empty, ch_virtualNodes = defaultVirtualNodes, ch_instances = []\<rparr>"

text \<open>\<open>md5\<close> is a parameter: the sixteen bytes of the digest of a string.\<close>

definition hashKey :: "(string \<Rightarrow> bytes) \<Rightarrow> string \<Rightarrow> u32" where
  "hashKey md5 key =
     (let hash = md5 key in
      or (or (or (push_bit 24 (ucast (hash ! 0))) (push_bit 16 (ucast (hash ! 1))))
         (push_bit 8 (ucast (hash ! 2)))) (ucast (hash ! 3)))"

definition vnode_key :: "ServiceInstance \<Rightarrow> nat \<Rightarrow> string" where
  "vnode_key inst i = si_ID inst @ ''-'' @ fmt_d (int i)"

definition vnodes :: "(string \<Rightarrow> bytes) \<Rightarrow> int \<Rightarrow> ServiceInstance list \<Rightarrow> (u32 \<times> ServiceInstance) list" where
  "vnodes md5 k instances =
     concat (map (\<lambda>inst. map (\<lambda>i. (hashKey md5 (vnode_key inst i), inst)) [0..<nat k]) instances)"

definition ch_rebuild :: "(string \<Rightarrow> bytes) \<Rightarrow> ServiceInstance list \<Rightarrow> ConsistentHash \<Rightarrow> ConsistentHash" where
  "ch_rebuild md5 instances ch =
     (let vs = vnodes md5 (ch_virtualNodes ch) instances in
      ch\<lparr>ch_instances := instances,
         ch_nodes := foldl (\<lambda>m (h, inst). m(h \<mapsto> inst)) Map.empty vs,
         ch_hashRing := sort (map fst vs)\<rparr>)"

definition ch_isSameInstances :: "ServiceInstance list \<Rightarrow> ConsistentHash \<Rightarrow> bool" where
  "ch_isSameInstances instances ch \<longleftrightarrow>
     ch_instances ch \<noteq> [] \<and> length instances = length (ch_instances ch) \<and>
     (let cur = set (map si_ID instances) in list_all (\<lambda>inst. si_ID inst \<in> cur) (ch_instances ch))"

text \<open>\<open>sort.Search\<close>: the binary search of the standard library.\<close>

function sort_Search_loop :: "(nat \<Rightarrow> bool) \<Rightarrow> nat \<Rightarrow> nat \<Rightarrow> nat" where
  "sort_Search_loop f i j =
     (if i < j then
        let h = (i + j) div 2 in
        if \<not> f h then sort_Search_loop f (h + 1) j else sort_Search_loop f i h
      else i)"
  by auto
termination
  by (relation "measure (\<lambda>(f, i, j). j - i)") auto

definition sort_Search :: "nat \<Rightarrow> (nat \<Rightarrow> bool) \<Rightarrow> nat" where
  "sort_Search n f = sort_Search_loop f 0 n"

text \<open>The two critical sections of a pick: bring the ring up to date, then look the key up.\<close>

definition ch_sync :: "(string \<Rightarrow> bytes) \<Rightarrow> ServiceInstance list \<Rightarrow> ConsistentHash \<Rightarrow> ConsistentHash" where
  "ch_sync md5 instances ch = (if ch_isSameInstances instances ch then ch else ch_rebuild md5 instances ch)"

text \<open>An empty ring makes \<open>hashRing[0]\<close> panic; a hash without a node gives the nil instance.\<close>

datatype 'a pick_result = Picked 'a | PickedNil | PickPanic

definition ch_lookup :: "(string \<Rightarrow> bytes) \<Rightarrow> string \<Rightarrow> ConsistentHash \<Rightarrow> ServiceInstance pick_result" where
  "ch_lookup md5 key ch =
     (let hash = hashKey md5 key;
          n = length (ch_hashRing ch);
          idx0 = sort_Search n (\<lambda>i. ch_hashRing ch ! i \<ge> hash);
          idx = (if idx0 = n then 0 else idx0)
      in if idx < n then (case ch_nodes ch (ch_hashRing ch ! idx) of None \<Rightarrow> PickedNil | Some inst \<Rightarrow> Picked inst)
         else PickPanic)"

definition pick_key :: "instant \<Rightarrow> PickOptions option \<Rightarrow> string" where
  "pick_key now opts = (case opts of
      Some p \<Rightarrow> if po_key p \<noteq> '''' then po_key p else fmt_d (wrap64 now)
    | None \<Rightarrow> fmt_d (wrap64 now))"

definition ch_PickWithOptions ::
    "(string \<Rightarrow> bytes) \<Rightarrow> instant \<Rightarrow> ServiceInstance list \<Rightarrow> PickOptions option \<Rightarrow> ConsistentHash
     \<Rightarrow> ConsistentHash \<times> ServiceInstance pick_result or_error" where
  "ch_PickWithOptions md5 now instances opts ch =
     (if instances = [] then (ch, Inl (Sentinel ErrNoInstances))
      else let ch1 = ch_sync md5 instances ch in (ch1, Inr (ch_lookup md5 (pick_key now opts) ch1)))"

definition ch_Pick ::
    "(string \<Rightarrow> bytes) \<Rightarrow> instant \<Rightarrow> ServiceInstance list \<Rightarrow> ConsistentHash
     \<Rightarrow> ConsistentHash \<times> ServiceInstance pick_result or_error" where
  "ch_Pick md5 now instances ch = ch_PickWithOptions md5 now instances None ch"

definition ch_Name :: "ConsistentHash \<Rightarrow> string" where
  "ch_Name ch = ''consistent-hash''"

section \<open>Runs of picks\<close>

text \<open>\<open>k\<close> picks from the same instances, with the instances picked.\<close>

primrec picks :: "('s \<Rightarrow> 's \<times> ServiceInstance or_error) \<Rightarrow> nat \<Rightarrow> 's \<Rightarrow> 's \<times> ServiceInstance or_error list" where
  "picks pick 0 s = (s, [])"
| "picks pick (Suc k) s = (case pick s of (s1, r) \<Rightarrow> (case picks pick k s1 of (s2, rs) \<Rightarrow> (s2, r # rs)))"

section \<open>The contract of a balancer\<close>

text \<open>
  Whatever happened before, a pick from no instances is an error and leaves the balancer as it
  was; a pick from some instances succeeds, with an instance whose ID is among theirs.
\<close>

locale load_balancer =
  fixes pick :: "ServiceInstance list \<Rightarrow> 's \<Rightarrow> 's \<times> ServiceInstance or_error"
    and inv :: "'s \<Rightarrow> bool"
  assumes pick_empty: "\<exists>e. pick [] s = (s, Inl e)"
    and pick_some: "inv s \<Longrightarrow> instances \<noteq> [] \<Longrightarrow> length instances < 2 ^ 63 \<Longrightarrow>
      \<exists>s' x. pick instances s = (s', Inr x) \<and> inv s' \<and> si_ID x \<in> si_ID ` set instances"
begin

lemma picks_some:
  "inv s \<Longrightarrow> instances \<noteq> [] \<Longrightarrow> length instances < 2 ^ 63 \<Longrightarrow>
     \<exists>s' xs. picks (pick instances) k s = (s', map Inr xs) \<and> length xs = k \<and> inv s'
       \<and> si_ID ` set xs \<subseteq> si_ID ` set instances"
proof (induction k arbitrary: s)
  case (Suc k)
  obtain s1 x where 1: "pick instances s = (s1, Inr x)" "inv s1" "si_ID x \<in> si_ID ` set instances"
    using pick_some [OF Suc.prems] by blast
  obtain s2 xs where 2: "picks (pick instances) k s1 = (s2, map Inr xs)" "length xs = k" "inv s2"
    "si_ID ` set xs \<subseteq> si_ID ` set instances"
    using Suc.IH [OF 1(2) Suc.prems(2,3)] by blast
  show ?case
    by (rule exI [of _ s2], rule exI [of _ "x # xs"]) (use 1 2 in auto)
qed simp

lemma picks_members:
  "inv s \<Longrightarrow> instances \<noteq> [] \<Longrightarrow> length instances < 2 ^ 63 \<Longrightarrow>
     \<exists>s' xs. picks (pick instances) k s = (s', map Inr xs) \<and> length xs = k
       \<and> si_ID ` set xs \<subseteq> si_ID ` set instances"
  using picks_some [of s instances k] by blast

lemma pick_ok: "inv s \<Longrightarrow> length instances < 2 ^ 63 \<Longrightarrow> (\<exists>x. snd (pick instances s) = Inr x) \<longleftrightarrow> instances \<noteq> []"
  using pick_empty [of s] pick_some [of s instances] by force

end

section \<open>Round robin and random keep the contract\<close>

lemma unat_mod_length:
  assumes "n < 2 ^ 63"
  shows "unat ((i :: u64) mod of_nat n) = unat i mod n"
  using assms by (simp add: unat_mod_distrib unat_of_nat take_bit_nat_eq_self)

lemma rb_Pick_some:
  assumes "instances \<noteq> []" and "length instances < 2 ^ 63"
  shows "rb_Pick instances rb = (rb\<lparr>rb_index := rb_index rb + 1\<rparr>,
    Inr (instances ! (unat (rb_index rb + 1) mod length instances)))"
  using assms by (simp add: rb_Pick_def Let_def unat_mod_length)

interpretation round_robin: load_balancer rb_Pick "\<lambda>_. True"
proof
  show "\<exists>e. rb_Pick [] s = (s, Inl e)" for s
    by (simp add: rb_Pick_def)
qed (simp add: rb_Pick_some)

interpretation random_balancer: load_balancer "random_Pick (\<lambda>g n. (next g n, val g n mod n))" "\<lambda>_. True" for "next" val
proof
  show "\<exists>e. random_Pick (\<lambda>g n. (next g n, val g n mod n)) [] s = (s, Inl e)" for s
    by (simp add: random_Pick_def)
qed (simp add: random_Pick_def)

section \<open>Weighted round robin\<close>

definition wrr_wf :: "WeightedRoundRobin \<Rightarrow> bool" where
  "wrr_wf wrr \<longleftrightarrow> wrr_weights wrr = wrr_schedule 0 (wrr_instances wrr) \<and> - 1 \<le> wrr_current wrr
     \<and> (wrr_instances wrr \<noteq> [] \<longrightarrow> wrr_current wrr < int (length (wrr_weights wrr)))"

lemma weight_of_pos [simp]: "0 < weight_of inst"
  by (simp add: weight_of_def)

lemma wrr_schedule_nil [simp]: "wrr_schedule i xs = [] \<longleftrightarrow> xs = []"
  by (cases xs) auto

lemma wrr_schedule_set: "j \<in> set (wrr_schedule i xs) \<Longrightarrow> i \<le> j \<and> j < i + length xs"
  by (induction xs arbitrary: i) fastforce+

lemma wrr_schedule_instances:
  "map ((!) (pre @ xs)) (wrr_schedule (length pre) xs) = concat (map (\<lambda>x. replicate (weight_of x) x) xs)"
proof (induction xs arbitrary: pre)
  case (Cons x xs)
  then show ?case
    using Cons.IH [of "pre @ [x]"] by simp
qed simp

text \<open>The state a pick works on: the kept schedule, or a new one for the instances.\<close>

definition wrr_sync :: "ServiceInstance list \<Rightarrow> WeightedRoundRobin \<Rightarrow> WeightedRoundRobin" where
  "wrr_sync instances wrr = (if wrr_isSameInstances instances wrr then wrr else wrr_rebuild instances wrr)"

lemma wrr_sync_wf:
  assumes "wrr_wf wrr" and "instances \<noteq> []"
  shows "wrr_wf (wrr_sync instances wrr)" "wrr_instances (wrr_sync instances wrr) \<noteq> []"
    "map si_ID (wrr_instances (wrr_sync instances wrr)) = map si_ID instances"
    "map weight_of (wrr_instances (wrr_sync instances wrr)) = map weight_of instances"
    "wrr_isSameInstances instances (wrr_sync instances wrr)"
  using assms
  by (auto simp: wrr_sync_def wrr_wf_def wrr_rebuild_def wrr_isSameInstances_def list_all2_conv_all_nth
      weight_of_def intro!: nth_equalityI)

lemma wrr_Pick_some:
  assumes "wrr_wf wrr" and "instances \<noteq> []"
  defines "w \<equiv> wrr_sync instances wrr"
  defines "c \<equiv> nat (wrr_current w + 1) mod length (wrr_weights w)"
  shows "wrr_Pick instances wrr = (w\<lparr>wrr_current := int c\<rparr>, Inr (wrr_instances w ! (wrr_weights w ! c)))"
    and "wrr_wf (w\<lparr>wrr_current := int c\<rparr>)" and "wrr_weights w ! c < length (wrr_instances w)"
proof -
  have w: "wrr_wf w" "wrr_instances w \<noteq> []"
    using wrr_sync_wf [OF assms(1,2)] by (simp_all add: w_def)
  then have len: "0 < length (wrr_weights w)"
    by (simp add: wrr_wf_def)
  then have c: "c < length (wrr_weights w)" "(wrr_current w + 1) smod int (length (wrr_weights w)) = int c"
    using w(1) by (simp_all add: c_def wrr_wf_def zmod_int)
  show "wrr_Pick instances wrr = (w\<lparr>wrr_current := int c\<rparr>, Inr (wrr_instances w ! (wrr_weights w ! c)))"
    using assms(2) len c(2) by (simp add: wrr_Pick_def wrr_sync_def [symmetric] w_def [symmetric] Let_def)
  show "wrr_wf (w\<lparr>wrr_current := int c\<rparr>)"
    using w c(1) by (simp add: wrr_wf_def)
  have "wrr_weights w ! c \<in> set (wrr_schedule 0 (wrr_instances w))"
    using w(1) c(1) by (metis nth_mem wrr_wf_def)
  then show "wrr_weights w ! c < length (wrr_instances w)"
    using wrr_schedule_set by fastforce
qed

interpretation weighted: load_balancer wrr_Pick wrr_wf
proof
  show "\<exists>e. wrr_Pick [] s = (s, Inl e)" for s
    by (simp add: wrr_Pick_def)
next
  fix wrr and instances :: "ServiceInstance list"
  assume a: "wrr_wf wrr" "instances \<noteq> []"
  have "si_ID ` set (wrr_instances (wrr_sync instances wrr)) = si_ID ` set instances"
    using wrr_sync_wf(3) [OF a] by (metis set_map)
  then show "\<exists>s' x. wrr_Pick instances wrr = (s', Inr x) \<and> wrr_wf s' \<and> si_ID x \<in> si_ID ` set instances"
    using wrr_Pick_some [OF a] nth_mem by auto
qed

section \<open>Cycles\<close>

lemma cycle_rotate: "map (\<lambda>j. xs ! ((a + j) mod length xs)) [0..<length xs] = rotate a xs"
  by (rule nth_equalityI) (simp_all add: nth_rotate)

lemma mset_rotate: "mset (rotate n xs) = mset xs"
  by (metis append_take_drop_id mset_append rotate_drop_take union_commute)

lemma upt_Suc_shift: "map f [0..<Suc k] = f 0 # map (\<lambda>j. f (Suc j)) [0..<k]"
  by (simp add: upt_conv_Cons map_Suc_upt [symmetric] comp_def del: upt_Suc map_Suc_upt)

lemma snd_picks_Suc: "snd (picks pick (Suc k) s) = snd (pick s) # snd (picks pick k (fst (pick s)))"
  by (simp split: prod.splits)

lemma rb_picks:
  assumes "instances \<noteq> []" and "length instances < 2 ^ 63" and "unat (rb_index rb) + k < 2 ^ 64"
  shows "snd (picks (rb_Pick instances) k rb)
    = map (\<lambda>j. Inr (instances ! ((unat (rb_index rb) + 1 + j) mod length instances))) [0..<k]"
  using assms(3)
proof (induction k arbitrary: rb)
  case (Suc k)
  have "unat (rb_index rb + 1) = unat (rb_index rb) + 1"
    using Suc.prems by (simp add: unat_word_ariths)
  then show ?case
    using Suc.IH [of "rb\<lparr>rb_index := rb_index rb + 1\<rparr>"] Suc.prems rb_Pick_some [OF assms(1,2), of rb]
    by (simp add: upt_Suc_shift snd_picks_Suc del: upt_Suc picks.simps)
qed simp

lemma wrr_picks:
  assumes "wrr_wf w" and "instances \<noteq> []" and "wrr_isSameInstances instances w"
  shows "snd (picks (wrr_Pick instances) k w)
    = map (\<lambda>j. Inr (wrr_instances w ! (wrr_weights w ! ((nat (wrr_current w + 1) + j) mod length (wrr_weights w))))) [0..<k]"
  using assms(1,3)
proof (induction k arbitrary: w)
  case (Suc k)
  let ?c = "nat (wrr_current w + 1) mod length (wrr_weights w)"
  have same: "wrr_sync instances w = w"
    using Suc.prems(2) by (simp add: wrr_sync_def)
  note pick = wrr_Pick_some [OF Suc.prems(1) assms(2), unfolded same]
  have next_same: "wrr_isSameInstances instances (w\<lparr>wrr_current := int ?c\<rparr>)"
    using Suc.prems(2) by (simp add: wrr_isSameInstances_def)
  have "(Suc (?c + j)) mod length (wrr_weights w) = (nat (wrr_current w + 1) + Suc j) mod length (wrr_weights w)" for j
    using mod_add_left_eq [of "nat (wrr_current w + 1)" "length (wrr_weights w)" "Suc j"] by simp
  then show ?case
    using Suc.IH [OF pick(2) next_same] pick(1)
    by (simp add: upt_Suc_shift nat_add_distrib snd_picks_Suc del: upt_Suc picks.simps)
qed simp

text \<open>From any state, a pick is a pick from the synchronised state.\<close>

lemma wrr_picks_sync:
  assumes "wrr_wf wrr" and "instances \<noteq> []"
  shows "snd (picks (wrr_Pick instances) k wrr) = snd (picks (wrr_Pick instances) k (wrr_sync instances wrr))"
proof (cases k)
  case (Suc k')
  have "wrr_sync instances (wrr_sync instances wrr) = wrr_sync instances wrr"
    using wrr_sync_wf(5) [OF assms] by (simp add: wrr_sync_def)
  then have "wrr_Pick instances wrr = wrr_Pick instances (wrr_sync instances wrr)"
    using wrr_Pick_some(1) [OF assms] wrr_Pick_some(1) [OF wrr_sync_wf(1) [OF assms] assms(2)] by simp
  then show ?thesis
    using Suc by simp
qed simp

lemma weighted_ids:
  assumes "map si_ID xs = map si_ID ys" and "map weight_of xs = map weight_of ys"
  shows "map si_ID (concat (map (\<lambda>x. replicate (weight_of x) x) xs))
    = concat (map (\<lambda>x. replicate (weight_of x) (si_ID x)) ys)"
proof -
  have "map (\<lambda>x. replicate (weight_of x) (si_ID x)) xs = map (\<lambda>x. replicate (weight_of x) (si_ID x)) ys"
    using assms by (auto simp: list_eq_iff_nth_eq)
  then show ?thesis
    by (simp add: map_concat comp_def)
qed

section \<open>The hash ring\<close>

declare sort_Search_loop.simps [simp del]

lemma sort_Search_loop_spec:
  assumes "i \<le> j" and "j \<le> n" and "\<And>k. k < i \<Longrightarrow> \<not> f k" and "\<And>k. j \<le> k \<Longrightarrow> k < n \<Longrightarrow> f k"
    and "\<And>a b. a \<le> b \<Longrightarrow> b < n \<Longrightarrow> f a \<Longrightarrow> f b"
  shows "sort_Search_loop f i j \<le> j \<and> (\<forall>k < sort_Search_loop f i j. \<not> f k)
    \<and> (\<forall>k. sort_Search_loop f i j \<le> k \<longrightarrow> k < n \<longrightarrow> f k)"
  using assms
proof (induction f i j rule: sort_Search_loop.induct)
  case (1 f i j)
  let ?h = "(i + j) div 2"
  show ?case
  proof (cases "i < j")
    case lt: True
    then have h: "i \<le> ?h" "?h < j"
      by auto
    show ?thesis
    proof (cases "f ?h")
      case True
      have "sort_Search_loop f i ?h \<le> ?h \<and> (\<forall>k < sort_Search_loop f i ?h. \<not> f k)
        \<and> (\<forall>k. sort_Search_loop f i ?h \<le> k \<longrightarrow> k < n \<longrightarrow> f k)"
        by (rule 1(2) [OF lt refl]) (use True h 1(4-7) in \<open>auto\<close>)
      then show ?thesis
        using lt True h by (auto simp: Let_def sort_Search_loop.simps [of f i j])
    next
      case False
      have "sort_Search_loop f (?h + 1) j \<le> j \<and> (\<forall>k < sort_Search_loop f (?h + 1) j. \<not> f k)
        \<and> (\<forall>k. sort_Search_loop f (?h + 1) j \<le> k \<longrightarrow> k < n \<longrightarrow> f k)"
        by (rule 1(1) [OF lt refl]) (use False h 1(4-7) in \<open>auto simp: less_Suc_eq_le\<close>)
      then show ?thesis
        using lt False h by (auto simp: Let_def sort_Search_loop.simps [of f i j])
    qed
  next
    case False
    then have "sort_Search_loop f i j = i"
      by (simp add: sort_Search_loop.simps [of f i j])
    moreover have "i = j"
      using False 1(3) by simp
    ultimately show ?thesis
      using 1(5,6) by simp
  qed
qed

text \<open>The abstract ring: the first position at or after \<open>h\<close>, or the first of all.\<close>

definition ring_successor :: "u32 set \<Rightarrow> u32 \<Rightarrow> u32" where
  "ring_successor hs h = (if \<exists>x \<in> hs. h \<le> x then Min {x \<in> hs. h \<le> x} else Min hs)"

lemma ring_successor_in: "finite hs \<Longrightarrow> hs \<noteq> {} \<Longrightarrow> ring_successor hs h \<in> hs"
  using Min_in [of "{x \<in> hs. h \<le> x}"] Min_in [of hs] by (auto simp: ring_successor_def)

text \<open>A subset of the ring that keeps the successor keeps it as the successor.\<close>

lemma ring_successor_subset:
  assumes "finite hs" and "hs' \<subseteq> hs" and "ring_successor hs h \<in> hs'"
  shows "ring_successor hs' h = ring_successor hs h"
proof (cases "\<exists>x \<in> hs. h \<le> x")
  case True
  let ?r = "Min {x \<in> hs. h \<le> x}"
  have fin: "finite {x \<in> hs. h \<le> x}"
    using assms(1) by simp
  have ne: "{x \<in> hs. h \<le> x} \<noteq> {}"
    using True by auto
  have r: "ring_successor hs h = ?r" "?r \<in> {x \<in> hs. h \<le> x}"
    using True Min_in [OF fin ne] by (simp_all add: ring_successor_def)
  have "Min {x \<in> hs'. h \<le> x} = ?r"
  proof (rule Min_eqI)
    show "finite {x \<in> hs'. h \<le> x}"
      by (rule finite_subset [OF _ fin]) (use assms(2) in auto)
    show "?r \<in> {x \<in> hs'. h \<le> x}"
      using assms(3) r by simp
    show "?r \<le> y" if "y \<in> {x \<in> hs'. h \<le> x}" for y
      by (rule Min_le [OF fin]) (use that assms(2) in auto)
  qed
  then show ?thesis
    using r assms(3) by (auto simp: ring_successor_def)
next
  case False
  then have "\<not> (\<exists>x \<in> hs'. h \<le> x)"
    using assms(2) by auto
  moreover have "Min hs' = Min hs"
  proof (rule Min_eqI)
    show "finite hs'"
      using assms(1,2) by (rule finite_subset [rotated])
    show "Min hs \<in> hs'"
      using assms(3) False by (simp add: ring_successor_def)
    show "Min hs \<le> y" if "y \<in> hs'" for y
      using Min_le [OF assms(1)] that assms(2) by auto
  qed
  ultimately show ?thesis
    using False by (simp add: ring_successor_def)
qed

lemma Min_sorted: "sorted (xs :: 'a::linorder list) \<Longrightarrow> xs \<noteq> [] \<Longrightarrow> Min (set xs) = xs ! 0"
  by (cases xs) (auto intro!: Min_eqI)

lemma ring_search:
  fixes ring :: "u32 list" and h :: u32
  assumes srt: "sorted ring" and ne: "ring \<noteq> []"
  defines "idx0 \<equiv> sort_Search (length ring) (\<lambda>i. ring ! i \<ge> h)"
  shows "(if idx0 = length ring then 0 else idx0) < length ring"
    "ring ! (if idx0 = length ring then 0 else idx0) = ring_successor (set ring) h"
proof -
  have mono: "h \<le> ring ! b" if "a \<le> b" "b < length ring" "h \<le> ring ! a" for a b
    using sorted_nth_mono [OF srt that(1,2)] that(3) by (rule order_trans [rotated])
  have "idx0 \<le> length ring \<and> (\<forall>k < idx0. \<not> h \<le> ring ! k) \<and> (\<forall>k. idx0 \<le> k \<longrightarrow> k < length ring \<longrightarrow> h \<le> ring ! k)"
    unfolding idx0_def sort_Search_def by (rule sort_Search_loop_spec) (simp, simp, simp, simp, erule (2) mono)
  then have spec: "idx0 \<le> length ring" "\<And>k. k < idx0 \<Longrightarrow> \<not> h \<le> ring ! k"
    "\<And>k. idx0 \<le> k \<Longrightarrow> k < length ring \<Longrightarrow> h \<le> ring ! k"
    by blast+
  show "(if idx0 = length ring then 0 else idx0) < length ring"
    using spec(1) ne by auto
  show "ring ! (if idx0 = length ring then 0 else idx0) = ring_successor (set ring) h"
  proof (cases "idx0 = length ring")
    case True
    then have "\<not> (\<exists>x \<in> set ring. h \<le> x)"
      using spec(2) by (auto simp: in_set_conv_nth)
    then show ?thesis
      using True Min_sorted [OF srt ne] by (simp add: ring_successor_def)
  next
    case False
    then have lt: "idx0 < length ring" "h \<le> ring ! idx0"
      using spec by auto
    have "Min {x \<in> set ring. h \<le> x} = ring ! idx0"
    proof (rule Min_eqI)
      fix y
      assume "y \<in> {x \<in> set ring. h \<le> x}"
      then obtain k where "k < length ring" "y = ring ! k" "h \<le> ring ! k"
        by (auto simp: in_set_conv_nth)
      then show "ring ! idx0 \<le> y"
        using spec(2) [of k] sorted_nth_mono [OF srt, of idx0 k] by force
    qed (use lt in auto)
    then show ?thesis
      using False lt by (auto simp: ring_successor_def)
  qed
qed

lemma foldl_nodes: "foldl (\<lambda>m (h, x). m(h \<mapsto> x)) m vs = m ++ map_of (rev vs)"
  by (induction vs arbitrary: m) (auto simp: map_add_def fun_eq_iff split: option.splits)

definition ch_wf :: "(string \<Rightarrow> bytes) \<Rightarrow> ConsistentHash \<Rightarrow> bool" where
  "ch_wf md5 ch \<longleftrightarrow> 0 < ch_virtualNodes ch \<and> (ch_instances ch \<noteq> [] \<longrightarrow>
     (let vs = vnodes md5 (ch_virtualNodes ch) (ch_instances ch) in
      ch_hashRing ch = sort (map fst vs) \<and> ch_nodes ch = map_of (rev vs)))"

lemma ch_wf_New: "ch_wf md5 NewConsistentHash"
  by (simp add: ch_wf_def NewConsistentHash_def defaultVirtualNodes_def)

lemma ch_wf_sync: "ch_wf md5 ch \<Longrightarrow> ch_wf md5 (ch_sync md5 instances ch)"
  by (simp add: ch_wf_def ch_sync_def ch_rebuild_def Let_def foldl_nodes)

lemma ch_sync_frame [simp]: "ch_virtualNodes (ch_sync md5 instances ch) = ch_virtualNodes ch"
  by (simp add: ch_sync_def ch_rebuild_def Let_def)

lemma ch_sync_instances:
  "instances \<noteq> [] \<Longrightarrow> ch_instances (ch_sync md5 instances ch) \<noteq> [] \<and>
     si_ID ` set (ch_instances (ch_sync md5 instances ch)) \<subseteq> si_ID ` set instances"
  by (auto simp: ch_sync_def ch_rebuild_def Let_def ch_isSameInstances_def list_all_iff)

lemma vnodes_ne: "instances \<noteq> [] \<Longrightarrow> 0 < k \<Longrightarrow> vnodes md5 k instances \<noteq> []"
  by (cases instances) (auto simp: vnodes_def)

lemma vnodes_in: "(h, x) \<in> set (vnodes md5 k instances) \<Longrightarrow> x \<in> set instances"
  by (auto simp: vnodes_def)

text \<open>A lookup in a ring that is up to date is the abstract successor.\<close>

lemma ch_lookup_successor:
  fixes key :: string
  assumes wf: "ch_wf md5 ch" and ne: "ch_instances ch \<noteq> []"
  defines "vs \<equiv> vnodes md5 (ch_virtualNodes ch) (ch_instances ch)"
  defines "r \<equiv> ring_successor (fst ` set vs) (hashKey md5 key)"
  shows "\<exists>x. ch_lookup md5 key ch = Picked x \<and> map_of (rev vs) r = Some x \<and> (r, x) \<in> set vs"
proof -
  have ring: "ch_hashRing ch = sort (map fst vs)" "ch_nodes ch = map_of (rev vs)" "vs \<noteq> []"
    using wf ne vnodes_ne [OF ne] by (auto simp: ch_wf_def vs_def Let_def)
  have "r \<in> fst ` set (rev vs)"
    using ring(3) ring_successor_in [of "fst ` set vs"] by (simp add: r_def)
  then obtain x where x: "map_of (rev vs) r = Some x"
    by (metis map_of_eq_None_iff not_None_eq)
  have ne': "sort (map fst vs) \<noteq> []"
    using ring(3) by (metis length_sort list.map_disc_iff length_0_conv)
  let ?ring = "sort (map fst vs)"
  define idx where "idx = (if sort_Search (length ?ring) (\<lambda>i. ?ring ! i \<ge> hashKey md5 key) = length ?ring
    then 0 else sort_Search (length ?ring) (\<lambda>i. ?ring ! i \<ge> hashKey md5 key))"
  have idx: "idx < length ?ring" "?ring ! idx = r"
    using ring_search [OF sorted_sort ne', of "hashKey md5 key"] by (simp_all add: idx_def r_def)
  have "ch_lookup md5 key ch = (if idx < length ?ring then case map_of (rev vs) (?ring ! idx) of
      None \<Rightarrow> PickedNil | Some inst \<Rightarrow> Picked inst else PickPanic)"
    unfolding ch_lookup_def Let_def ring idx_def by (rule refl)
  then have "ch_lookup md5 key ch = Picked x"
    using idx x by simp
  then show ?thesis
    using x map_of_SomeD [OF x] by auto
qed

text \<open>The pick as the interface sees it; the last two cases do not arise.\<close>

definition ch_Pick_result ::
    "(string \<Rightarrow> bytes) \<Rightarrow> string \<Rightarrow> ServiceInstance list \<Rightarrow> ConsistentHash \<Rightarrow> ConsistentHash \<times> ServiceInstance or_error" where
  "ch_Pick_result md5 key instances ch =
     (case ch_PickWithOptions md5 0 instances (Some (NewPickOptions key)) ch of
        (ch', Inl e) \<Rightarrow> (ch', Inl e)
      | (ch', Inr (Picked x)) \<Rightarrow> (ch', Inr x)
      | (ch', Inr PickedNil) \<Rightarrow> (ch', Inl (Errorf ''nil instance''))
      | (ch', Inr PickPanic) \<Rightarrow> (ch', Inl (Errorf ''index out of range'')))"

lemma ch_Pick_some:
  assumes wf: "ch_wf md5 ch" and ne: "instances \<noteq> []"
  defines "ch1 \<equiv> ch_sync md5 instances ch"
  defines "vs \<equiv> vnodes md5 (ch_virtualNodes ch) (ch_instances ch1)"
  shows "\<exists>x. ch_PickWithOptions md5 now instances opts ch = (ch1, Inr (Picked x))
    \<and> map_of (rev vs) (ring_successor (fst ` set vs) (hashKey md5 (pick_key now opts))) = Some x
    \<and> (ring_successor (fst ` set vs) (hashKey md5 (pick_key now opts)), x) \<in> set vs
    \<and> x \<in> set (ch_instances ch1)"
proof -
  have ne1: "ch_instances ch1 \<noteq> []"
    using ch_sync_instances [OF ne] by (simp add: ch1_def)
  have vs: "vs = vnodes md5 (ch_virtualNodes ch1) (ch_instances ch1)"
    by (simp add: vs_def ch1_def)
  have wf1: "ch_wf md5 ch1"
    unfolding ch1_def by (rule ch_wf_sync [OF wf])
  obtain x where x: "ch_lookup md5 (pick_key now opts) ch1 = Picked x"
    "map_of (rev vs) (ring_successor (fst ` set vs) (hashKey md5 (pick_key now opts))) = Some x"
    "(ring_successor (fst ` set vs) (hashKey md5 (pick_key now opts)), x) \<in> set vs"
    using ch_lookup_successor [OF wf1 ne1, of "pick_key now opts"] unfolding vs by blast
  then show ?thesis
    using ne vnodes_in [OF x(3) [unfolded vs]] by (auto simp: ch_PickWithOptions_def ch1_def [symmetric])
qed

interpretation consistent: load_balancer "ch_Pick_result md5 key" "ch_wf md5" for md5 key
proof
  show "\<exists>e. ch_Pick_result md5 key [] s = (s, Inl e)" for s
    by (simp add: ch_Pick_result_def ch_PickWithOptions_def)
next
  fix ch and instances :: "ServiceInstance list"
  assume a: "ch_wf md5 ch" "instances \<noteq> []"
  then show "\<exists>s' x. ch_Pick_result md5 key instances ch = (s', Inr x) \<and> ch_wf md5 s' \<and> si_ID x \<in> si_ID ` set instances"
    using ch_Pick_some [OF a, of 0 "Some (NewPickOptions key)"] ch_wf_sync [OF a(1), of instances]
      ch_sync_instances [OF a(2), of md5 ch]
    by (auto simp: ch_Pick_result_def)
qed

section \<open>Rings without collisions\<close>

lemma mset_vnodes_cong: "mset xs = mset ys \<Longrightarrow> mset (vnodes md5 k xs) = mset (vnodes md5 k ys)"
proof -
  have "mset (vnodes md5 k zs) = sum_mset (image_mset (\<lambda>inst. mset (map (\<lambda>i. (hashKey md5 (vnode_key inst i), inst)) [0..<nat k])) (mset zs))" for zs
    by (induction zs) (simp_all add: vnodes_def)
  then show "mset xs = mset ys \<Longrightarrow> ?thesis"
    by simp
qed

lemma vnodes_append [simp]: "vnodes md5 k (xs @ ys) = vnodes md5 k xs @ vnodes md5 k ys"
  by (simp add: vnodes_def)

lemma vnodes_unique:
  "distinct (map fst vs) \<Longrightarrow> (h, x) \<in> set vs \<Longrightarrow> (h, y) \<in> set vs \<Longrightarrow> x = y"
  by (metis eq_key_imp_eq_value)

lemma ch_sync_fresh: "ch_instances ch = [] \<Longrightarrow> ch_sync md5 xs ch = ch_rebuild md5 xs ch"
  by (simp add: ch_sync_def ch_isSameInstances_def)

lemma ch_rebuild_instances [simp]: "ch_instances (ch_rebuild md5 xs ch) = xs"
  by (simp add: ch_rebuild_def Let_def)

lemma ch_wf_fresh: "0 < ch_virtualNodes ch \<Longrightarrow> ch_instances ch = [] \<Longrightarrow> ch_wf md5 ch"
  by (simp add: ch_wf_def)

text \<open>A pick from a ring that has not been built yet.\<close>

lemma ch_Pick_fresh:
  fixes md5 :: "string \<Rightarrow> bytes"
  assumes "0 < ch_virtualNodes ch" and "ch_instances ch = []" and "xs \<noteq> []"
  defines "vs \<equiv> vnodes md5 (ch_virtualNodes ch) xs"
  obtains x where "ch_PickWithOptions md5 now xs opts ch = (ch_rebuild md5 xs ch, Inr (Picked x))"
    "(ring_successor (fst ` set vs) (hashKey md5 (pick_key now opts)), x) \<in> set vs"
  using ch_Pick_some [OF ch_wf_fresh [OF assms(1,2), of md5] assms(3), of now opts] that
  unfolding ch_sync_fresh [OF assms(2)] ch_rebuild_instances vs_def by blast

section \<open>Properties of the balancers\<close>


definition sample_instance :: "string \<Rightarrow> int \<Rightarrow> int \<Rightarrow> ServiceInstance" where
  "sample_instance name port weight =
     (NewServiceInstance 0 0 0 ''svc'' ''host'' port)\<lparr>si_ID := name, si_Weight := weight\<rparr>"


text \<open>
  Round robin is fair: from any position of the counter, as many consecutive picks as there
  are instances return each of them exactly once (short of the wrap-around of the counter).
\<close>

theorem round_robin_fair:
  assumes "instances \<noteq> []" and "length instances < 2 ^ 63" and "unat (rb_index rb) + length instances < 2 ^ 64"
  shows "\<exists>xs. snd (picks (rb_Pick instances) (length instances) rb) = map Inr xs \<and> mset xs = mset instances"
proof -
  have "snd (picks (rb_Pick instances) (length instances) rb) = map Inr (rotate (unat (rb_index rb) + 1) instances)"
    unfolding rb_picks [OF assms] cycle_rotate [symmetric] by simp
  then show ?thesis
    using mset_rotate by blast
qed

theorem round_robin_fair_witness:
  "\<exists>xs. snd (picks (rb_Pick [sample_instance ''a'' 80 1, sample_instance ''b'' 81 1]) 2 NewRoundRobin) = map Inr xs
     \<and> mset xs = {#sample_instance ''a'' 80 1, sample_instance ''b'' 81 1#}"
  using round_robin_fair [of "[sample_instance ''a'' 80 1, sample_instance ''b'' 81 1]" NewRoundRobin]
  by (simp add: NewRoundRobin_def numeral_2_eq_2 [symmetric] del: picks.simps)

text \<open>
  (C22) Weighted round robin is fair: from any state, over as many picks as the weights sum up to,
  every instance is picked exactly as often as its weight says (100 when it is not positive).
\<close>

theorem weighted_round_robin_fair:
  assumes "wrr_wf wrr" and "instances \<noteq> []"
  shows "\<exists>xs. snd (picks (wrr_Pick instances) (sum_list (map weight_of instances)) wrr) = map Inr xs
    \<and> mset (map si_ID xs) = mset (concat (map (\<lambda>x. replicate (weight_of x) (si_ID x)) instances))"
proof -
  let ?w = "wrr_sync instances wrr"
  let ?xs = "wrr_instances ?w" and ?c = "nat (wrr_current ?w + 1)"
  note w = wrr_sync_wf [OF assms]
  have sched: "map ((!) ?xs) (wrr_weights ?w) = concat (map (\<lambda>x. replicate (weight_of x) x) ?xs)"
    using w(1) wrr_schedule_instances [of "[]" ?xs] by (simp add: wrr_wf_def)
  have "length (concat (map (\<lambda>x. replicate (weight_of x) x) ?xs)) = sum_list (map weight_of ?xs)"
    by (simp add: length_concat comp_def)
  then have len: "length (wrr_weights ?w) = sum_list (map weight_of instances)"
    using sched w(4) by (metis length_map)
  have "snd (picks (wrr_Pick instances) (length (wrr_weights ?w)) wrr) = map Inr (map ((!) ?xs) (rotate ?c (wrr_weights ?w)))"
    unfolding wrr_picks_sync [OF assms] wrr_picks [OF w(1) assms(2) w(5)] cycle_rotate [symmetric] by simp
  moreover have "mset (map si_ID (map ((!) ?xs) (rotate ?c (wrr_weights ?w))))
      = mset (map si_ID (map ((!) ?xs) (wrr_weights ?w)))"
    by (simp add: mset_rotate)
  ultimately show ?thesis
    unfolding sched weighted_ids [OF w(3,4)] len by blast
qed

theorem weighted_round_robin_fair_witness:
  "\<exists>xs. snd (picks (wrr_Pick [sample_instance ''a'' 80 2, sample_instance ''b'' 81 1]) 3 NewWeightedRoundRobin) = map Inr xs
     \<and> mset (map si_ID xs) = {#''a'', ''a'', ''b''#}"
  using weighted_round_robin_fair [of NewWeightedRoundRobin "[sample_instance ''a'' 80 2, sample_instance ''b'' 81 1]"]
  by (simp add: wrr_wf_def NewWeightedRoundRobin_def weight_of_def sample_instance_def numeral_3_eq_3 [symmetric] numeral_2_eq_2 del: picks.simps)

text \<open>
  (C14) A pick with consistent hashing is the successor on the ring: in any reachable state, for any
  key, the binary search over the sorted ring returns the instance of a virtual node whose hash
  is the least one not below the hash of the key, or the least of all when there is none.
\<close>

theorem consistent_hash_successor:
  assumes "ch_wf md5 ch" and "instances \<noteq> []"
  shows "\<exists>ch' x. ch_PickWithOptions md5 now instances opts ch = (ch', Inr (Picked x)) \<and> ch_wf md5 ch'
    \<and> (let vs = vnodes md5 (ch_virtualNodes ch') (ch_instances ch') in
        (ring_successor (fst ` set vs) (hashKey md5 (pick_key now opts)), x) \<in> set vs)"
  using ch_Pick_some [OF assms, of now opts] ch_wf_sync [OF assms(1), of instances] by (auto simp: Let_def)

definition sample_md5 :: "string \<Rightarrow> bytes" where
  "sample_md5 s = map (\<lambda>c. word_of_nat (of_char c)) s @ replicate 16 0"

theorem consistent_hash_successor_witness:
  "\<exists>ch' x. ch_PickWithOptions sample_md5 0 [sample_instance ''a'' 80 1] (Some (NewPickOptions ''k'')) NewConsistentHash
     = (ch', Inr (Picked x))"
  using consistent_hash_successor [of sample_md5 NewConsistentHash "[sample_instance ''a'' 80 1]" 0
      "Some (NewPickOptions ''k'')"] ch_wf_New by auto





text \<open>
  The ring is not rebuilt when an instance changes under the same ID: a list with the IDs of
  the kept one leaves the balancer unchanged, and the pick returns an instance of the old list,
  with its old address, port and weight.
\<close>

theorem consistent_hash_keeps_stale_instance:
  assumes "ch_wf md5 ch" and "ch_instances ch \<noteq> []" and "map si_ID instances = map si_ID (ch_instances ch)"
  shows "\<exists>x. ch_PickWithOptions md5 now instances opts ch = (ch, Inr (Picked x)) \<and> x \<in> set (ch_instances ch)"
proof -
  have "instances \<noteq> []"
    using assms(2,3) by auto
  moreover have "set (map si_ID instances) = si_ID ` set (ch_instances ch)" "length instances = length (ch_instances ch)"
    using assms(3) by (metis set_map, metis length_map)
  then have "ch_sync md5 instances ch = ch"
    using assms(2) by (simp add: ch_sync_def ch_isSameInstances_def list_all_iff)
  ultimately show ?thesis
    using ch_Pick_some [OF assms(1), of instances now opts] by auto
qed

theorem consistent_hash_keeps_stale_instance_witness:
  "let ch = ch_rebuild sample_md5 [sample_instance ''a'' 80 1] NewConsistentHash in
   snd (ch_PickWithOptions sample_md5 0 [sample_instance ''a'' 9999 1] None ch) = Inr (Picked (sample_instance ''a'' 80 1))"
proof -
  let ?ch = "ch_rebuild sample_md5 [sample_instance ''a'' 80 1] NewConsistentHash"
  have "ch_wf sample_md5 ?ch"
    using ch_wf_sync [OF ch_wf_New, of sample_md5 "[sample_instance ''a'' 80 1]"]
    by (simp add: ch_sync_def ch_isSameInstances_def NewConsistentHash_def)
  then show ?thesis
    using consistent_hash_keeps_stale_instance [of sample_md5 ?ch "[sample_instance ''a'' 9999 1]" 0 None]
    by (auto simp: sample_instance_def Let_def)
qed

end
