(* ===== verification/Memory_Registry.thy ===== *)
theory Memory_Registry
  imports Service_Instance
begin

text \<open>
  The in-memory registry (\<open>pkg/registry/memory/memory.go\<close>) with the events and watchers of
  \<open>pkg/registry/watcher.go\<close>. Instances are shared by pointer between the registry, the events in
  flight and the callers, and \<open>Update\<close> and \<open>Heartbeat\<close> write to them: pointers are addresses into
  a store of instances, channels are addresses into the list of channels made so far. Every method
  holds the registry's lock, so a method is one step; a panic is \<open>None\<close>.
\<close>

section \<open>Events and state\<close>

datatype EventType = EventTypeAdd | EventTypeUpdate | EventTypeDelete | EventTypeOther int

fun EventType_String :: "EventType \<Rightarrow> string" where
  "EventType_String EventTypeAdd = ''ADD''"
| "EventType_String EventTypeUpdate = ''UPDATE''"
| "EventType_String EventTypeDelete = ''DELETE''"
| "EventType_String (EventTypeOther _) = ''UNKNOWN''"

record Event =
  ev_Type :: EventType
  ev_Instance :: nat

record Registry =
  mr_heap :: "nat \<Rightarrow> ServiceInstance"
  mr_instances :: "string \<rightharpoonup> nat"
  mr_watchers :: "string \<Rightarrow> nat list"
  mr_chans :: "Event chan list"

record memoryWatcher =
  mw_ch :: nat
  mw_stopped :: bool

definition NewRegistry :: "(nat \<Rightarrow> ServiceInstance) \<Rightarrow> Registry" where
  "NewRegistry heap = \<lparr>mr_heap = heap, mr_instances = Map.empty, mr_watchers = (\<lambda>_. []), mr_chans = []\<rparr>"

section \<open>Operations\<close>

definition notify1 :: "Event \<Rightarrow> nat \<Rightarrow> Registry \<Rightarrow> Registry option" where
  "notify1 event c r =
     (case try_send (mr_chans r ! c) event of
        (_, SendPanic) \<Rightarrow> None
      | (ch, _) \<Rightarrow> Some (r\<lparr>mr_chans := (mr_chans r)[c := ch]\<rparr>))"

fun notify_all :: "Event \<Rightarrow> nat list \<Rightarrow> Registry \<Rightarrow> Registry option" where
  "notify_all event [] r = Some r"
| "notify_all event (c # cs) r = Option.bind (notify1 event c r) (notify_all event cs)"

definition notify :: "string \<Rightarrow> Event \<Rightarrow> Registry \<Rightarrow> Registry option" where
  "notify service event r = notify_all event (mr_watchers r service) r"

definition Register :: "nat \<Rightarrow> Registry \<Rightarrow> (Registry \<times> go_error option) option" where
  "Register p r =
     (let inst = mr_heap r p in
      map_option (\<lambda>r'. (r', None))
        (notify (si_Service inst) \<lparr>ev_Type = EventTypeAdd, ev_Instance = p\<rparr>
          (r\<lparr>mr_instances := (mr_instances r)(si_ID inst \<mapsto> p)\<rparr>)))"

definition Deregister :: "string \<Rightarrow> string \<Rightarrow> Registry \<Rightarrow> (Registry \<times> go_error option) option" where
  "Deregister service instanceID r =
     (case mr_instances r instanceID of
        None \<Rightarrow> Some (r, Some (Sentinel ErrNotFound))
      | Some p \<Rightarrow>
          map_option (\<lambda>r'. (r', None))
            (notify (si_Service (mr_heap r p)) \<lparr>ev_Type = EventTypeDelete, ev_Instance = p\<rparr>
              (r\<lparr>mr_instances := (mr_instances r)(instanceID := None)\<rparr>)))"

definition touch :: "instant \<Rightarrow> nat \<Rightarrow> Registry \<Rightarrow> Registry" where
  "touch now p r = r\<lparr>mr_heap := (mr_heap r)(p := (mr_heap r p)\<lparr>si_UpdateTime := now\<rparr>)\<rparr>"

definition Registry_Update :: "instant \<Rightarrow> nat \<Rightarrow> Registry \<Rightarrow> (Registry \<times> go_error option) option" where
  "Registry_Update now p r =
     (let inst = mr_heap r p in
      if mr_instances r (si_ID inst) = None then Some (r, Some (Sentinel ErrNotFound))
      else
        let r1 = touch now p r in
        map_option (\<lambda>r'. (r', None))
          (notify (si_Service inst) \<lparr>ev_Type = EventTypeUpdate, ev_Instance = p\<rparr>
            (r1\<lparr>mr_instances := (mr_instances r1)(si_ID inst \<mapsto> p)\<rparr>)))"

definition Heartbeat :: "instant \<Rightarrow> string \<Rightarrow> string \<Rightarrow> Registry \<Rightarrow> (Registry \<times> go_error option) option" where
  "Heartbeat now service instanceID r =
     (case mr_instances r instanceID of
        None \<Rightarrow> Some (r, Some (Sentinel ErrNotFound))
      | Some p \<Rightarrow> Some (touch now p r, None))"

text \<open>\<open>ks\<close> is the order in which the runtime visits the map.\<close>

definition GetInstances :: "string list \<Rightarrow> string \<Rightarrow> Registry \<Rightarrow> nat list" where
  "GetInstances ks service r =
     filter (\<lambda>p. si_Service (mr_heap r p) = service \<and> si_Status (mr_heap r p) = StatusUp)
       (range_vals (mr_instances r) ks)"

definition GetInstanceByID :: "string \<Rightarrow> Registry \<Rightarrow> nat or_error" where
  "GetInstanceByID instanceID r =
     (case mr_instances r instanceID of None \<Rightarrow> Inl (Sentinel ErrNotFound) | Some p \<Rightarrow> Inr p)"

definition Watch :: "string \<Rightarrow> Registry \<Rightarrow> Registry \<times> memoryWatcher" where
  "Watch service r =
     (let c = length (mr_chans r) in
      (r\<lparr>mr_chans := mr_chans r @ [make_chan 10],
         mr_watchers := (mr_watchers r)(service := mr_watchers r service @ [c])\<rparr>,
       \<lparr>mw_ch = c, mw_stopped = False\<rparr>))"

fun close_all :: "nat list \<Rightarrow> Registry \<Rightarrow> Registry option" where
  "close_all [] r = Some r"
| "close_all (c # cs) r =
     (case close_chan (mr_chans r ! c) of
        None \<Rightarrow> None
      | Some ch \<Rightarrow> close_all cs (r\<lparr>mr_chans := (mr_chans r)[c := ch]\<rparr>))"

text \<open>\<open>services\<close> is the order in which \<open>Close\<close> visits the services that have watchers.\<close>

definition Registry_Close :: "string list \<Rightarrow> Registry \<Rightarrow> Registry option" where
  "Registry_Close services r = close_all (concat (map (mr_watchers r) services)) r"

text \<open>
  \<open>Next\<close> blocks on two channels; when both are ready the runtime chooses. \<open>watcher_next w r r' res\<close>
  says that it can return \<open>res\<close> and leave the registry's channels as in \<open>r'\<close>.
\<close>

inductive watcher_next :: "memoryWatcher \<Rightarrow> Registry \<Rightarrow> Registry \<Rightarrow> Event or_error \<Rightarrow> bool" where
  next_stopped: "mw_stopped w \<Longrightarrow> watcher_next w r r (Inl (Sentinel ErrWatcherStopped))"
| next_event: "try_recv (mr_chans r ! mw_ch w) = (ch, Got event) \<Longrightarrow>
    watcher_next w r (r\<lparr>mr_chans := (mr_chans r)[mw_ch w := ch]\<rparr>) (Inr event)"
| next_closed: "try_recv (mr_chans r ! mw_ch w) = (ch, RecvClosed) \<Longrightarrow>
    watcher_next w r r (Inl (Sentinel ErrWatcherStopped))"

inductive_cases watcher_nextE: "watcher_next w r r' res"

definition watcher_Stop :: "memoryWatcher \<Rightarrow> memoryWatcher" where
  "watcher_Stop w = w\<lparr>mw_stopped := True\<rparr>"

section \<open>Runs of operations\<close>

datatype mr_op = OpRegister nat | OpDeregister string string | OpUpdate instant nat | OpHeartbeat instant string string

fun mr_exec :: "mr_op \<Rightarrow> Registry \<Rightarrow> (Registry \<times> go_error option) option" where
  "mr_exec (OpRegister p) r = Register p r"
| "mr_exec (OpDeregister service i) r = Deregister service i r"
| "mr_exec (OpUpdate now p) r = Registry_Update now p r"
| "mr_exec (OpHeartbeat now service i) r = Heartbeat now service i r"

fun mr_run :: "mr_op list \<Rightarrow> Registry \<Rightarrow> Registry option" where
  "mr_run [] r = Some r"
| "mr_run (op # ops) r = Option.bind (mr_exec op r) (\<lambda>(r1, _). mr_run ops r1)"

section \<open>Invariant\<close>

definition mr_wf :: "Registry \<Rightarrow> bool" where
  "mr_wf r \<longleftrightarrow> (\<forall>i p. mr_instances r i = Some p \<longrightarrow> si_ID (mr_heap r p) = i)
     \<and> (\<forall>s. distinct (mr_watchers r s) \<and> set (mr_watchers r s) \<subseteq> {..<length (mr_chans r)})
     \<and> (\<forall>s t. s \<noteq> t \<longrightarrow> set (mr_watchers r s) \<inter> set (mr_watchers r t) = {})
     \<and> (\<forall>ch \<in> set (mr_chans r). chan_cap ch = 10)"

definition mr_open :: "Registry \<Rightarrow> bool" where
  "mr_open r \<longleftrightarrow> (\<forall>ch \<in> set (mr_chans r). \<not> chan_closed ch)"

text \<open>What one service's watchers are told about.\<close>

definition service_view :: "string \<Rightarrow> Registry \<Rightarrow> string \<rightharpoonup> nat" where
  "service_view s r = (\<lambda>i. case mr_instances r i of
      None \<Rightarrow> None | Some p \<Rightarrow> if si_Service (mr_heap r p) = s then Some p else None)"

definition apply_event :: "(nat \<Rightarrow> ServiceInstance) \<Rightarrow> (string \<rightharpoonup> nat) \<Rightarrow> Event \<Rightarrow> (string \<rightharpoonup> nat)" where
  "apply_event heap m ev = (case ev_Type ev of
      EventTypeDelete \<Rightarrow> m(si_ID (heap (ev_Instance ev)) := None)
    | EventTypeOther _ \<Rightarrow> m
    | _ \<Rightarrow> m(si_ID (heap (ev_Instance ev)) \<mapsto> ev_Instance ev))"

lemma mr_wf_New: "mr_wf (NewRegistry heap)" "mr_open (NewRegistry heap)"
  by (simp_all add: mr_wf_def mr_open_def NewRegistry_def)

definition chan_events :: "Registry \<Rightarrow> nat \<Rightarrow> Event list" where
  "chan_events r c = chan_buf (mr_chans r ! c)"

text \<open>Sending one event to a list of open channels: each that has room gets it.\<close>

lemma notify_all_effect:
  assumes "distinct cs" and "set cs \<subseteq> {..<length (mr_chans r)}"
    and "\<forall>ch \<in> set (mr_chans r). chan_cap ch = 10 \<and> \<not> chan_closed ch"
  shows "\<exists>chs. notify_all ev cs r = Some (r\<lparr>mr_chans := chs\<rparr>) \<and> length chs = length (mr_chans r)
    \<and> (\<forall>ch \<in> set chs. chan_cap ch = 10 \<and> \<not> chan_closed ch)
    \<and> (\<forall>c < length chs. chan_buf (chs ! c) = chan_events r c
        @ (if c \<in> set cs \<and> length (chan_events r c) < 10 then [ev] else []))"
  using assms
proof (induction cs arbitrary: r)
  case Nil
  then show ?case
    by (intro exI [of _ "mr_chans r"]) (simp add: chan_events_def)
next
  case (Cons c cs)
  let ?ch = "fst (try_send (mr_chans r ! c) ev)"
  let ?r = "r\<lparr>mr_chans := (mr_chans r)[c := ?ch]\<rparr>"
  have c: "c < length (mr_chans r)" "\<not> chan_closed (mr_chans r ! c)" "chan_cap (mr_chans r ! c) = 10"
    using Cons.prems by auto
  have step: "notify1 ev c r = Some ?r"
    using c(2) by (simp add: notify1_def try_send_def)
  have all: "\<forall>ch \<in> set (mr_chans ?r). chan_cap ch = 10 \<and> \<not> chan_closed ch"
    using Cons.prems(3) c by (auto simp: try_send_def dest: set_update_subset_insert [THEN subsetD])
  obtain chs where chs: "notify_all ev cs ?r = Some (?r\<lparr>mr_chans := chs\<rparr>)" "length chs = length (mr_chans r)"
    "\<forall>ch \<in> set chs. chan_cap ch = 10 \<and> \<not> chan_closed ch"
    "\<forall>d < length chs. chan_buf (chs ! d) = chan_events ?r d
       @ (if d \<in> set cs \<and> length (chan_events ?r d) < 10 then [ev] else [])"
    using Cons.IH [of ?r] Cons.prems(1,2) all by auto
  have "chan_events ?r d = chan_events r d @ (if d = c \<and> length (chan_events r c) < 10 then [ev] else [])"
    if "d < length (mr_chans r)" for d
    using c that by (cases "d = c") (auto simp: chan_events_def try_send_def)
  then show ?case
    using step chs Cons.prems(1) by (intro exI [of _ chs]) auto
qed

lemma notify_effect:
  assumes wf: "mr_wf r" and op: "mr_open r"
  obtains chs where "notify sv ev r = Some (r\<lparr>mr_chans := chs\<rparr>)" "mr_wf (r\<lparr>mr_chans := chs\<rparr>)"
    "mr_open (r\<lparr>mr_chans := chs\<rparr>)"
    "\<And>s c. c \<in> set (mr_watchers r s) \<Longrightarrow> length (chan_events r c) < 10 \<Longrightarrow>
       chan_events (r\<lparr>mr_chans := chs\<rparr>) c = chan_events r c @ (if s = sv then [ev] else [])"
proof -
  obtain chs where chs: "notify sv ev r = Some (r\<lparr>mr_chans := chs\<rparr>)" "length chs = length (mr_chans r)"
    "\<forall>ch \<in> set chs. chan_cap ch = 10 \<and> \<not> chan_closed ch"
    "\<forall>c < length chs. chan_buf (chs ! c) = chan_events r c
       @ (if c \<in> set (mr_watchers r sv) \<and> length (chan_events r c) < 10 then [ev] else [])"
    using notify_all_effect [of "mr_watchers r sv" r ev] wf op by (auto simp: notify_def mr_wf_def mr_open_def)
  show ?thesis
  proof (rule that [OF chs(1)])
    show "mr_wf (r\<lparr>mr_chans := chs\<rparr>)" "mr_open (r\<lparr>mr_chans := chs\<rparr>)"
      using wf chs(2,3) by (simp_all add: mr_wf_def mr_open_def)
    fix s c
    assume c: "c \<in> set (mr_watchers r s)" "length (chan_events r c) < 10"
    have "s \<noteq> sv \<longrightarrow> set (mr_watchers r s) \<inter> set (mr_watchers r sv) = {}"
      using wf by (simp add: mr_wf_def)
    then have "c \<in> set (mr_watchers r sv) \<longleftrightarrow> s = sv"
      using c(1) by blast
    moreover have "c < length chs"
      using c(1) wf chs(2) by (auto simp: mr_wf_def)
    ultimately have "c < length chs" "c \<in> set (mr_watchers r sv) \<longleftrightarrow> s = sv"
      by simp_all
    then show "chan_events (r\<lparr>mr_chans := chs\<rparr>) c = chan_events r c @ (if s = sv then [ev] else [])"
      using chs(4) c(2) by (simp add: chan_events_def)
  qed
qed

text \<open>No operation changes the ID or the service of an instance.\<close>

definition same_ids :: "(nat \<Rightarrow> ServiceInstance) \<Rightarrow> (nat \<Rightarrow> ServiceInstance) \<Rightarrow> bool" where
  "same_ids h h' \<longleftrightarrow> (\<forall>p. si_ID (h' p) = si_ID (h p) \<and> si_Service (h' p) = si_Service (h p))"

text \<open>An ID belongs to one service.\<close>

definition ids_one_service :: "(nat \<Rightarrow> ServiceInstance) \<Rightarrow> bool" where
  "ids_one_service h \<longleftrightarrow> (\<forall>p q. si_ID (h p) = si_ID (h q) \<longrightarrow> si_Service (h p) = si_Service (h q))"

lemma same_ids_refl [simp]: "same_ids h h"
  by (simp add: same_ids_def)

lemma same_ids_apply: "same_ids h h' \<Longrightarrow> apply_event h' = apply_event h"
  by (simp add: same_ids_def apply_event_def fun_eq_iff split: EventType.splits)

lemma ids_one_service_cong: "same_ids h h' \<Longrightarrow> ids_one_service h' \<longleftrightarrow> ids_one_service h"
  by (simp add: same_ids_def ids_one_service_def)

text \<open>An update is published for an instance that the service has.\<close>

definition known_update :: "(nat \<Rightarrow> ServiceInstance) \<Rightarrow> (string \<rightharpoonup> nat) \<Rightarrow> Event \<Rightarrow> bool" where
  "known_update h v ev \<longleftrightarrow> (ev_Type ev = EventTypeUpdate \<longrightarrow> si_ID (h (ev_Instance ev)) \<in> dom v)"

fun known_updates :: "(nat \<Rightarrow> ServiceInstance) \<Rightarrow> (string \<rightharpoonup> nat) \<Rightarrow> Event list \<Rightarrow> bool" where
  "known_updates h v [] \<longleftrightarrow> True"
| "known_updates h v (ev # evs) \<longleftrightarrow> known_update h v ev \<and> known_updates h (apply_event h v ev) evs"

lemma known_updates_append:
  "known_updates h v (evs @ evs') \<longleftrightarrow> known_updates h v evs \<and> known_updates h (foldl (apply_event h) v evs) evs'"
  by (induction evs arbitrary: v) auto

lemma known_update_cong: "same_ids h h' \<Longrightarrow> known_update h' = known_update h"
  by (simp add: known_update_def same_ids_def fun_eq_iff)

text \<open>
  The effect of an operation on the watchers of \<open>s\<close>: their channels get at most one event, and
  applying it to the old view of the service gives the new one.
\<close>

definition tracks :: "string \<Rightarrow> Registry \<Rightarrow> Registry \<Rightarrow> bool" where
  "tracks s r r' \<longleftrightarrow> mr_wf r' \<and> mr_open r' \<and> mr_watchers r' = mr_watchers r \<and> same_ids (mr_heap r) (mr_heap r')
     \<and> (\<exists>evs. length evs \<le> 1 \<and> known_updates (mr_heap r) (service_view s r) evs
         \<and> service_view s r' = foldl (apply_event (mr_heap r)) (service_view s r) evs
         \<and> (\<forall>c \<in> set (mr_watchers r s). length (chan_events r c) < 10 \<longrightarrow> chan_events r' c = chan_events r c @ evs))"

lemma tracks_publish:
  assumes wf: "mr_wf r1" and op: "mr_open r1" and same: "mr_watchers r1 = mr_watchers r" "mr_chans r1 = mr_chans r"
    "same_ids (mr_heap r) (mr_heap r1)"
    and view: "service_view s r1 = (if s = sv then apply_event (mr_heap r) (service_view s r) ev else service_view s r)"
    and known: "s = sv \<Longrightarrow> known_update (mr_heap r) (service_view s r) ev"
  shows "\<exists>r'. notify sv ev r1 = Some r' \<and> tracks s r r'"
proof -
  obtain chs where chs: "notify sv ev r1 = Some (r1\<lparr>mr_chans := chs\<rparr>)" "mr_wf (r1\<lparr>mr_chans := chs\<rparr>)"
    "mr_open (r1\<lparr>mr_chans := chs\<rparr>)"
    "\<And>s c. c \<in> set (mr_watchers r1 s) \<Longrightarrow> length (chan_events r1 c) < 10 \<Longrightarrow>
       chan_events (r1\<lparr>mr_chans := chs\<rparr>) c = chan_events r1 c @ (if s = sv then [ev] else [])"
    by (rule notify_effect [OF wf op, of sv ev]) blast
  have "service_view s (r1\<lparr>mr_chans := chs\<rparr>) = service_view s r1"
    by (auto simp: service_view_def fun_eq_iff split: option.splits)
  then have "tracks s r (r1\<lparr>mr_chans := chs\<rparr>)"
    using chs same view known
    by (auto simp: tracks_def chan_events_def intro!: exI [of _ "if s = sv then [ev] else []"])
  then show ?thesis
    using chs(1) by blast
qed

lemma tracks_same:
  assumes "mr_wf r'" and "mr_open r'" and "mr_watchers r' = mr_watchers r" and "mr_chans r' = mr_chans r"
    and "mr_instances r' = mr_instances r" and "same_ids (mr_heap r) (mr_heap r')"
  shows "tracks s r r'"
proof -
  have "service_view s r' = service_view s r"
    using assms(5,6) by (auto simp: service_view_def same_ids_def fun_eq_iff split: option.splits)
  then show ?thesis
    using assms by (auto simp: tracks_def chan_events_def intro!: exI [of _ "[]"])
qed

lemma touch_simps [simp]:
  "mr_watchers (touch now p r) = mr_watchers r" "mr_chans (touch now p r) = mr_chans r"
  "mr_instances (touch now p r) = mr_instances r" "same_ids (mr_heap r) (mr_heap (touch now p r))"
  "si_ID (mr_heap (touch now p r) q) = si_ID (mr_heap r q)"
  "si_Service (mr_heap (touch now p r) q) = si_Service (mr_heap r q)"
  by (auto simp: touch_def same_ids_def)

lemma mr_wf_touch [simp]: "mr_wf (touch now p r) \<longleftrightarrow> mr_wf r" "mr_open (touch now p r) \<longleftrightarrow> mr_open r"
  by (simp_all add: mr_wf_def mr_open_def)

lemma view_insert:
  assumes "ids_one_service (mr_heap r)" and "mr_wf r" and "ev_Type ev \<in> {EventTypeAdd, EventTypeUpdate}"
    and "ev_Instance ev = p" and "same_ids (mr_heap r) (mr_heap r1)"
    and "mr_instances r1 = (mr_instances r)(si_ID (mr_heap r p) \<mapsto> p)"
  shows "service_view s r1 = (if s = si_Service (mr_heap r p)
    then apply_event (mr_heap r) (service_view s r) ev else service_view s r)"
proof
  fix i
  have other: "si_Service (mr_heap r q) = si_Service (mr_heap r p)" if "mr_instances r (si_ID (mr_heap r p)) = Some q" for q
    using assms(1,2) that by (metis ids_one_service_def mr_wf_def)
  show "service_view s r1 i = (if s = si_Service (mr_heap r p)
    then apply_event (mr_heap r) (service_view s r) ev else service_view s r) i"
    using assms(3-6) other
    by (cases "i = si_ID (mr_heap r p)") (auto simp: service_view_def apply_event_def same_ids_def split: option.splits)
qed

lemma view_delete:
  assumes "mr_wf r" and "mr_instances r i = Some p" and "ev = \<lparr>ev_Type = EventTypeDelete, ev_Instance = p\<rparr>"
  shows "service_view s (r\<lparr>mr_instances := (mr_instances r)(i := None)\<rparr>)
    = (if s = si_Service (mr_heap r p) then apply_event (mr_heap r) (service_view s r) ev else service_view s r)"
proof -
  have "si_ID (mr_heap r p) = i"
    using assms(1,2) by (simp add: mr_wf_def)
  then show ?thesis
    using assms(2,3) by (auto simp: service_view_def apply_event_def fun_eq_iff split: option.splits)
qed

lemma mr_wf_insert:
  "mr_wf r \<Longrightarrow> mr_wf (r\<lparr>mr_instances := (mr_instances r)(si_ID (mr_heap r p) \<mapsto> p)\<rparr>)"
  "mr_wf r \<Longrightarrow> mr_wf (r\<lparr>mr_instances := (mr_instances r)(i := None)\<rparr>)"
  by (auto simp: mr_wf_def)

lemma mr_open_instances [simp]: "mr_open (r\<lparr>mr_instances := m\<rparr>) \<longleftrightarrow> mr_open r"
  by (simp add: mr_open_def)

text \<open>Every operation keeps the watchers of every service in step.\<close>

lemma mr_exec_tracks:
  assumes wf: "mr_wf r" and op: "mr_open r" and one: "ids_one_service (mr_heap r)"
  shows "\<exists>r' err. mr_exec opr r = Some (r', err) \<and> tracks s r r'"
proof (cases opr)
  case (OpRegister p)
  show ?thesis
    using tracks_publish [OF mr_wf_insert(1) [OF wf, of p] _ _ _ _ view_insert [OF one wf], of
        "\<lparr>ev_Type = EventTypeAdd, ev_Instance = p\<rparr>"] op OpRegister
    by (fastforce simp: Register_def Let_def known_update_def)
next
  case (OpDeregister sv i)
  show ?thesis
  proof (cases "mr_instances r i")
    case None
    then show ?thesis
      using OpDeregister tracks_same [OF wf op] by (simp add: Deregister_def)
  next
    case (Some p)
    then show ?thesis
      using OpDeregister op tracks_publish [OF mr_wf_insert(2) [OF wf, of i] _ _ _ _ view_delete [OF wf Some refl]]
      by (fastforce simp: Deregister_def known_update_def)
  qed
next
  case (OpUpdate now p)
  show ?thesis
  proof (cases "mr_instances r (si_ID (mr_heap r p))")
    case None
    then show ?thesis
      using OpUpdate tracks_same [OF wf op] by (simp add: Registry_Update_def Let_def)
  next
    case (Some q)
    let ?r = "(touch now p r)\<lparr>mr_instances := (mr_instances r)(si_ID (mr_heap r p) \<mapsto> p)\<rparr>"
      and ?ev = "\<lparr>ev_Type = EventTypeUpdate, ev_Instance = p\<rparr>"
    have "mr_wf ?r" "mr_open ?r" "same_ids (mr_heap r) (mr_heap ?r)"
      using mr_wf_insert(1) [of "touch now p r" p] wf op by simp_all
    moreover have "si_Service (mr_heap r q) = si_Service (mr_heap r p)"
      using wf one Some by (metis ids_one_service_def mr_wf_def)
    then have "known_update (mr_heap r) (service_view (si_Service (mr_heap r p)) r) ?ev"
      using Some by (auto simp: known_update_def service_view_def)
    ultimately show ?thesis
      using OpUpdate Some tracks_publish [of ?r r s "si_Service (mr_heap r p)" ?ev]
        view_insert [OF one wf, of ?ev p ?r s]
      by (auto simp: Registry_Update_def Let_def)
  qed
next
  case (OpHeartbeat now sv i)
  then show ?thesis
    using wf op tracks_same [OF wf op] tracks_same [of "touch now _ r" r s]
    by (auto simp: Heartbeat_def split: option.splits)
qed

lemma mr_run_tracks:
  assumes "mr_wf r" and "mr_open r" and "ids_one_service (mr_heap r)" and "same_ids h (mr_heap r)"
    and "c \<in> set (mr_watchers r s)" and "length (chan_events r c) + length ops \<le> 10"
    and "service_view s r = foldl (apply_event h) v (chan_events r c)" and "known_updates h v (chan_events r c)"
  shows "\<exists>r'. mr_run ops r = Some r' \<and> service_view s r' = foldl (apply_event h) v (chan_events r' c)
    \<and> known_updates h v (chan_events r' c) \<and> same_ids h (mr_heap r')"
  using assms
proof (induction ops arbitrary: r)
  case (Cons opr ops)
  obtain r1 err where r1: "mr_exec opr r = Some (r1, err)" "tracks s r r1"
    using mr_exec_tracks [OF Cons.prems(1-3)] by blast
  then obtain evs where evs: "length evs \<le> 1" "service_view s r1 = foldl (apply_event (mr_heap r)) (service_view s r) evs"
    "chan_events r1 c = chan_events r c @ evs" "known_updates (mr_heap r) (service_view s r) evs"
    using Cons.prems(5,6) by (auto simp: tracks_def)
  have ids: "same_ids (mr_heap r) (mr_heap r1)" "apply_event (mr_heap r) = apply_event h"
    using r1(2) same_ids_apply [OF Cons.prems(4)] by (simp_all add: tracks_def)
  then have "ids_one_service (mr_heap r1)" "same_ids h (mr_heap r1)"
    using Cons.prems(3,4) by (simp_all add: ids_one_service_cong [OF ids(1)] same_ids_def)
  moreover have "known_updates h v (chan_events r1 c)"
    using Cons.prems(4,7,8) evs(1,3,4) ids(2)
    by (cases evs) (auto simp: known_updates_append known_update_cong [OF Cons.prems(4)])
  ultimately show ?case
    using Cons.IH [of r1] Cons.prems(5-7) r1 evs ids(2) by (simp add: tracks_def)
qed simp

text \<open>A watch starts with an empty channel of its own.\<close>

lemma Watch_effect:
  assumes "mr_wf r" and "mr_open r" and "Watch s r = (r1, w)"
  shows "mr_wf r1" "mr_open r1" "mr_heap r1 = mr_heap r" "mw_ch w \<in> set (mr_watchers r1 s)"
    "chan_events r1 (mw_ch w) = []" "service_view s r1 = service_view s r"
proof -
  let ?n = "length (mr_chans r)"
  have r1: "r1 = r\<lparr>mr_chans := mr_chans r @ [make_chan 10],
      mr_watchers := (mr_watchers r)(s := mr_watchers r s @ [?n])\<rparr>" "mw_ch w = ?n"
    using assms(3) by (auto simp: Watch_def Let_def)
  have old: "set (mr_watchers r t) \<subseteq> {..<?n}" for t
    using assms(1) by (simp add: mr_wf_def)
  then have "?n \<notin> set (mr_watchers r t)" for t
    by blast
  moreover have "set (mr_watchers r t) \<subseteq> {..<Suc ?n}" for t
    using old [of t] by auto
  ultimately show "mr_wf r1"
    using assms(1) unfolding r1 mr_wf_def by (auto simp: make_chan_def)
  show "mr_open r1" "mr_heap r1 = mr_heap r" "mw_ch w \<in> set (mr_watchers r1 s)" "chan_events r1 (mw_ch w) = []"
    using assms(2) r1 by (auto simp: mr_open_def make_chan_def chan_events_def)
  show "service_view s r1 = service_view s r"
    unfolding r1 by (auto simp: service_view_def fun_eq_iff split: option.splits)
qed

section \<open>Properties of the registry\<close>


definition sample_heap :: "nat \<Rightarrow> ServiceInstance" where
  "sample_heap p = (NewServiceInstance 0 0 0 ''svc'' ''host'' (int p))\<lparr>si_ID := fmt_d (int p)\<rparr>"


lemma notify_frame:
  assumes "mr_wf r" and "mr_open r"
  obtains r' where "notify sv ev r = Some r'" "mr_wf r'" "mr_open r'" "mr_instances r' = mr_instances r" "mr_heap r' = mr_heap r"
proof -
  obtain chs where "notify sv ev r = Some (r\<lparr>mr_chans := chs\<rparr>)" "mr_wf (r\<lparr>mr_chans := chs\<rparr>)" "mr_open (r\<lparr>mr_chans := chs\<rparr>)"
    by (rule notify_effect [OF assms, of sv ev]) blast
  then show ?thesis
    using that by simp
qed



lemma close_all_closed: "close_all cs r = Some r' \<Longrightarrow> c < length (mr_chans r) \<Longrightarrow>
  (c \<in> set cs \<or> chan_closed (mr_chans r ! c) \<longrightarrow> chan_closed (mr_chans r' ! c))
  \<and> mr_heap r' = mr_heap r \<and> mr_watchers r' = mr_watchers r \<and> length (mr_chans r') = length (mr_chans r)"
proof (induction cs arbitrary: r)
  case (Cons d cs)
  then obtain ch where ch: "close_chan (mr_chans r ! d) = Some ch"
    "close_all cs (r\<lparr>mr_chans := (mr_chans r)[d := ch]\<rparr>) = Some r'"
    by (auto split: option.splits)
  then have "chan_closed ch"
    by (auto simp: close_chan_def split: if_splits)
  then show ?case
    using Cons.IH [OF ch(2)] Cons.prems(2) by (cases "c = d") auto
qed simp

lemma notify_all_closed:
  "c \<in> set cs \<Longrightarrow> chan_closed (mr_chans r ! c) \<Longrightarrow> notify_all ev cs r = None"
proof (induction cs arbitrary: r)
  case (Cons d cs)
  show ?case
  proof (cases "chan_closed (mr_chans r ! d)")
    case True
    then show ?thesis
      by (simp add: notify1_def try_send_def)
  next
    case False
    then have "d \<noteq> c" "c \<in> set cs"
      using Cons.prems by auto
    then show ?thesis
      using False Cons.IH Cons.prems(2) by (simp add: notify1_def try_send_def)
  qed
qed simp

lemma close_all_twice: "c \<in> set cs \<Longrightarrow> chan_closed (mr_chans r ! c) \<Longrightarrow> close_all cs r = None"
proof (induction cs arbitrary: r)
  case (Cons d cs)
  show ?case
  proof (cases "chan_closed (mr_chans r ! d)")
    case True
    then show ?thesis
      by (simp add: close_chan_def)
  next
    case False
    then have "d \<noteq> c" "c \<in> set cs"
      using Cons.prems by auto
    then show ?thesis
      using False Cons.IH Cons.prems(2) by (simp add: close_chan_def)
  qed
qed simp

text \<open>
  \<open>Close\<close> closes the channels of the watchers but keeps them in the registry: once a service
  has a watcher, after \<open>Close\<close> registering an instance of that service panics, and so does a second
  \<open>Close\<close>.
\<close>

theorem closed_registry_panics:
  assumes "mr_wf r" and "mr_watchers r (si_Service (mr_heap r p)) \<noteq> []"
    and "si_Service (mr_heap r p) \<in> set services" and "Registry_Close services r = Some r'"
  shows "Register p r' = None \<and> Registry_Close services r' = None"
proof -
  let ?s = "si_Service (mr_heap r p)" and ?cs = "concat (map (mr_watchers r) services)"
  obtain c where c: "c \<in> set (mr_watchers r ?s)"
    using assms(2) by (cases "mr_watchers r ?s") auto
  then have "c < length (mr_chans r)" "c \<in> set ?cs"
    using assms(1,3) by (auto simp: mr_wf_def)
  then have r': "chan_closed (mr_chans r' ! c)" "mr_heap r' = mr_heap r" "mr_watchers r' = mr_watchers r"
    using close_all_closed [of ?cs r r' c] assms(4) by (simp_all add: Registry_Close_def)
  then show ?thesis
    using c \<open>c \<in> set ?cs\<close> notify_all_closed [of c "mr_watchers r ?s"] close_all_twice [of c ?cs r']
    by (simp add: Register_def notify_def Let_def Registry_Close_def)
qed

theorem closed_registry_panics_witness:
  "\<exists>r'. Registry_Close [''svc''] (fst (Watch ''svc'' (NewRegistry sample_heap))) = Some r' \<and> Register 1 r' = None"
proof -
  let ?r = "fst (Watch ''svc'' (NewRegistry sample_heap))"
  have "mr_wf ?r"
    using Watch_effect(1) [OF mr_wf_New, of "''svc''" sample_heap ?r "snd (Watch ''svc'' (NewRegistry sample_heap))"] by simp
  moreover have "si_Service (mr_heap ?r 1) = ''svc''" "mr_watchers ?r ''svc'' \<noteq> []"
    "\<exists>r'. Registry_Close [''svc''] ?r = Some r'"
    by (simp_all add: Watch_def Let_def NewRegistry_def sample_heap_def NewServiceInstance_def
        Registry_Close_def close_chan_def make_chan_def)
  ultimately show ?thesis
    using closed_registry_panics [of ?r 1 "[''svc'']"] by auto
qed

end
