(* ===== verification/Interceptors.thy ===== *)
theory Interceptors
  imports Error_Map Circuit_Breaker Rate_Limiter
begin

text \<open>
  The interceptor chain and the interceptors of \<open>pkg/interceptor\<close>, and the circuit breaker's
  interceptor of \<open>pkg/circuitbreaker/breaker.go\<close>. An invoker acts on the state \<open>'s\<close> of the
  program and returns a value and an error, or panics. An interceptor that owns a component (a
  limiter, a breaker, the log) reads and writes it in that state through \<open>get\<close> and \<open>put\<close>.
\<close>

section \<open>Invokers and chains\<close>

datatype ('m, 'v) outcome = Ret "('m, 'v) iface" "go_error option" | Panic string

type_synonym ('c, 'm, 'v, 's) invoker = "'c \<Rightarrow> ('m, 'v) Request \<Rightarrow> 's \<Rightarrow> 's \<times> ('m, 'v) outcome"
type_synonym ('c, 'm, 'v, 's) interceptor =
  "'c \<Rightarrow> ('m, 'v) Request \<Rightarrow> ('c, 'm, 'v, 's) invoker \<Rightarrow> 's \<Rightarrow> 's \<times> ('m, 'v) outcome"

record ('c, 'm, 'v, 's) Chain =
  interceptors :: "('c, 'm, 'v, 's) interceptor list"

definition NewChain :: "('c, 'm, 'v, 's) interceptor list \<Rightarrow> ('c, 'm, 'v, 's) Chain" where
  "NewChain is = \<lparr>interceptors = is\<rparr>"

text \<open>The loop wraps the invoker from the last interceptor to the first.\<close>

definition buildChain :: "('c, 'm, 'v, 's) Chain \<Rightarrow> ('c, 'm, 'v, 's) invoker \<Rightarrow> ('c, 'm, 'v, 's) invoker" where
  "buildChain ic invoker = fold (\<lambda>i next. \<lambda>ctx req. i ctx req next) (rev (interceptors ic)) invoker"

definition Intercept :: "('c, 'm, 'v, 's) Chain \<Rightarrow> ('c, 'm, 'v, 's) interceptor" where
  "Intercept ic ctx req invoker =
     (if interceptors ic = [] then invoker ctx req else buildChain ic invoker ctx req)"

section \<open>Retry\<close>

definition isRetryable :: "go_error option \<Rightarrow> bool" where
  "isRetryable err = (case err of
      None \<Rightarrow> False
    | Some (ProtoError e) \<Rightarrow>
        e_Code e = ErrorCodeUnavailable \<or> e_Code e = ErrorCodeDeadlineExceeded \<or> e_Code e = ErrorCodeResourceExhausted
    | Some _ \<Rightarrow> True)"

text \<open>
  \<open>wait\<close> is the \<open>select\<close> between two attempts: it lets time pass and gives the context's error
  when the context is done first. The loop is over the attempts left.
\<close>

fun retry_loop ::
    "('c \<Rightarrow> duration \<Rightarrow> 's \<Rightarrow> 's \<times> go_error option) \<Rightarrow> duration \<Rightarrow> 'c \<Rightarrow> ('m, 'v) Request \<Rightarrow> ('c, 'm, 'v, 's) invoker
     \<Rightarrow> bool \<Rightarrow> go_error option \<Rightarrow> nat \<Rightarrow> 's \<Rightarrow> 's \<times> ('m, 'v) outcome" where
  "retry_loop wait interval ctx req invoker first lastErr 0 s = (s, Ret INil lastErr)"
| "retry_loop wait interval ctx req invoker first lastErr (Suc k) s =
     (case (if first then (s, None) else wait ctx interval s) of
        (s1, Some e) \<Rightarrow> (s1, Ret INil (Some e))
      | (s1, None) \<Rightarrow>
          (case invoker ctx req s1 of
             (s2, Panic m) \<Rightarrow> (s2, Panic m)
           | (s2, Ret result None) \<Rightarrow> (s2, Ret result None)
           | (s2, Ret result (Some e)) \<Rightarrow>
               if \<not> isRetryable (Some e) then (s2, Ret INil (Some e))
               else retry_loop wait interval ctx req invoker False (Some e) k s2))"

definition Retry ::
    "('c \<Rightarrow> duration \<Rightarrow> 's \<Rightarrow> 's \<times> go_error option) \<Rightarrow> int \<Rightarrow> duration \<Rightarrow> ('c, 'm, 'v, 's) interceptor" where
  "Retry wait maxRetries interval ctx req invoker s =
     retry_loop wait interval ctx req invoker True None (nat (maxRetries + 1)) s"

section \<open>Recovery, rate limiting and the circuit breaker\<close>

text \<open>\<open>stack\<close> is the text of \<open>debug.Stack()\<close>.\<close>

definition Recovery :: "string \<Rightarrow> ('c, 'm, 'v, 's) interceptor" where
  "Recovery stack ctx req invoker s =
     (case invoker ctx req s of
        (s', Panic r) \<Rightarrow> (s', Ret INil (Some (Errorf (''panic recovered: '' @ r @ ''\<newline>stack:\<newline>'' @ stack))))
      | (s', Ret resp err) \<Rightarrow> (s', Ret resp err))"

definition RateLimit ::
    "('s \<Rightarrow> 'l) \<Rightarrow> ('l \<Rightarrow> 's \<Rightarrow> 's) \<Rightarrow> (instant \<Rightarrow> int \<Rightarrow> 'l \<Rightarrow> ('l \<times> bool) option) \<Rightarrow> instant \<Rightarrow> ('c, 'm, 'v, 's) interceptor" where
  "RateLimit get put allowN now ctx req invoker s =
     (case allowN now 1 (get s) of
        None \<Rightarrow> (s, Panic ''integer divide by zero'')
      | Some (l, False) \<Rightarrow> (put l s, Ret INil (Some (Sentinel ErrRateLimitExceeded)))
      | Some (l, True) \<Rightarrow> invoker ctx req (put l s))"

text \<open>The breaker's own lock is free while the guarded invoker runs.\<close>

definition CircuitBreakerInterceptor ::
    "(rat \<Rightarrow> rat) \<Rightarrow> ('s \<Rightarrow> CircuitBreaker) \<Rightarrow> (CircuitBreaker \<Rightarrow> 's \<Rightarrow> 's) \<Rightarrow> instant \<Rightarrow> instant \<Rightarrow> instant
     \<Rightarrow> ('c, 'm, 'v, 's) interceptor" where
  "CircuitBreakerInterceptor rnd get put t0 tW tO ctx req invoker s =
     (case beforeCall t0 (get s) of
        (cb1, Some e) \<Rightarrow> (put cb1 s, Ret INil (Some e))
      | (cb1, None) \<Rightarrow>
          (case invoker ctx req (put cb1 s) of
             (s', Panic m) \<Rightarrow> (s', Panic m)
           | (s', Ret result err) \<Rightarrow>
               (case afterCall rnd tW tO err (get s') of
                  None \<Rightarrow> (s', Panic ''runtime error'')
                | Some cb2 \<Rightarrow> (put cb2 s', Ret result err))))"

section \<open>Logging and metrics\<close>

datatype log_level = LogInfo | LogError

record log_entry =
  le_level :: log_level
  le_msg :: string
  le_service :: string
  le_method :: string
  le_trace :: string
  le_duration :: duration
  le_error :: "go_error option"

definition Logging ::
    "('s \<Rightarrow> log_entry list) \<Rightarrow> (log_entry list \<Rightarrow> 's \<Rightarrow> 's) \<Rightarrow> ('c \<Rightarrow> string) \<Rightarrow> instant \<Rightarrow> instant \<Rightarrow> ('c, 'm, 'v, 's) interceptor" where
  "Logging get put TraceID start stop ctx req invoker s =
     (case invoker ctx req s of
        (s', Panic m) \<Rightarrow> (s', Panic m)
      | (s', Ret resp err) \<Rightarrow>
          (put (get s' @ [\<lparr>le_level = (if err \<noteq> None then LogError else LogInfo),
              le_msg = (if err \<noteq> None then ''rpc call failed'' else ''rpc call ok''),
              le_service = rq_Service req, le_method = rq_Method req, le_trace = TraceID ctx,
              le_duration = time_Sub stop start, le_error = err\<rparr>]) s', Ret resp err))"

record rpc_metrics =
  rpcCallsTotal :: "string \<times> string \<times> string \<Rightarrow> nat"
  rpcDuration :: "string \<times> string \<Rightarrow> duration list"

definition Metrics ::
    "('s \<Rightarrow> rpc_metrics) \<Rightarrow> (rpc_metrics \<Rightarrow> 's \<Rightarrow> 's) \<Rightarrow> instant \<Rightarrow> instant \<Rightarrow> ('c, 'm, 'v, 's) interceptor" where
  "Metrics get put start stop ctx req invoker s =
     (case invoker ctx req s of
        (s', Panic m) \<Rightarrow> (s', Panic m)
      | (s', Ret resp err) \<Rightarrow>
          (let status = (if err \<noteq> None then ''error'' else ''success'');
               k = (rq_Service req, rq_Method req, status);
               d = (rq_Service req, rq_Method req);
               mt = get s'
           in (put (mt\<lparr>rpcCallsTotal := (rpcCallsTotal mt)(k := rpcCallsTotal mt k + 1),
                       rpcDuration := (rpcDuration mt)(d := rpcDuration mt d @ [time_Sub stop start])\<rparr>) s',
               Ret resp err)))"

section \<open>Chains\<close>

lemma Intercept_foldr: "Intercept (NewChain is) ctx req invoker = foldr (\<lambda>i next. \<lambda>ctx req. i ctx req next) is invoker ctx req"
  by (simp add: Intercept_def NewChain_def buildChain_def foldr_conv_fold)

lemma Intercept_append:
  "Intercept (NewChain (is @ js)) ctx req invoker
     = Intercept (NewChain is) ctx req (\<lambda>ctx req. Intercept (NewChain js) ctx req invoker)"
  by (simp add: Intercept_foldr [abs_def])

lemma Intercept_Cons: "Intercept (NewChain (i # is)) ctx req invoker = i ctx req (\<lambda>ctx req. Intercept (NewChain is) ctx req invoker)"
  by (simp add: Intercept_foldr [abs_def])

lemma Intercept_Nil [simp]: "Intercept (NewChain []) ctx req invoker = invoker ctx req"
  by (simp add: Intercept_def NewChain_def)

text \<open>A recovery interceptor in front of a chain contains every panic behind it.\<close>

lemma Recovery_contains: "\<exists>s' resp err. Intercept (NewChain (Recovery stack # is)) ctx req invoker s = (s', Ret resp err)"
  by (auto simp: Intercept_Cons Recovery_def split: prod.splits outcome.splits)

section \<open>Rate limiting as a client of the limiter contract\<close>

context rate_limiter
begin

lemma RateLimit_decides:
  assumes "good now (get s)" and "\<And>l s. get (put l s) = l"
  shows "\<exists>l. good now l \<and> RateLimit get put allowN now ctx req invoker s =
    (if 1 \<le> avail now (get s) then invoker ctx req (put l s)
     else (put l s, Ret INil (Some (Sentinel ErrRateLimitExceeded))))"
  using allow_decides [OF assms(1), of 1] by (auto simp: RateLimit_def split: bool.splits)

end

section \<open>Scripted invokers\<close>

text \<open>An invoker whose outcomes are given in advance, with the number of times it was run.\<close>

definition scripted :: "('c, 'm, 'v, ('m, 'v) outcome list \<times> nat) invoker" where
  "scripted ctx req s = (case s of
      ([], n) \<Rightarrow> (([], n + 1), Ret INil None)
    | (r # rs, n) \<Rightarrow> ((rs, n + 1), r))"

lemma scripted_Cons [simp]: "scripted ctx req (r # rs, n) = ((rs, n + 1), r)"
  by (simp add: scripted_def)

definition retryable_outcome :: "('m, 'v) outcome \<Rightarrow> bool" where
  "retryable_outcome r = (case r of Ret _ e \<Rightarrow> isRetryable e | Panic _ \<Rightarrow> False)"

text \<open>What \<open>Retry\<close> makes of a final outcome: a value is dropped when there is an error.\<close>

definition final_outcome :: "('m, 'v) outcome \<Rightarrow> ('m, 'v) outcome" where
  "final_outcome r = (case r of Ret v (Some e) \<Rightarrow> Ret INil (Some e) | _ \<Rightarrow> r)"

lemma retryable_outcomeE:
  assumes "retryable_outcome r"
  obtains v e where "r = Ret v (Some e)" "isRetryable (Some e)"
  using assms by (auto simp: retryable_outcome_def isRetryable_def split: outcome.splits option.splits)

lemma retry_loop_final:
  assumes "\<forall>r \<in> set errs. retryable_outcome r" and "\<not> retryable_outcome r" and "length errs < k"
  shows "retry_loop (\<lambda>ctx d s. (s, None)) i ctx req scripted fst' last' k (errs @ r # rest, n)
    = ((rest, n + length errs + 1), final_outcome r)"
  using assms
proof (induction errs arbitrary: k n fst' last')
  case Nil
  then obtain k' where "k = Suc k'"
    by (cases k) auto
  then show ?case
  proof (cases r)
    case (Ret v e)
    then show ?thesis
      using \<open>k = Suc k'\<close> Nil.prems(2) by (cases e) (simp_all add: retryable_outcome_def final_outcome_def)
  qed (simp add: final_outcome_def)
next
  case (Cons x errs)
  obtain v e where "x = Ret v (Some e)" "isRetryable (Some e)"
    using Cons.prems(1) retryable_outcomeE [of x] by auto
  then show ?case
    using Cons.prems by (cases k) (auto simp: Cons.IH)
qed

lemma retry_loop_exhausted:
  assumes "\<forall>r \<in> set errs. retryable_outcome r"
  shows "retry_loop (\<lambda>ctx d s. (s, None)) i ctx req scripted fst' last' (length errs) (errs @ rest, n)
    = ((rest, n + length errs), if errs = [] then Ret INil last' else final_outcome (last errs))"
  using assms
proof (induction errs arbitrary: n fst' last')
  case (Cons x errs)
  obtain v e where "x = Ret v (Some e)" "isRetryable (Some e)"
    using Cons.prems retryable_outcomeE [of x] by auto
  then show ?case
    using Cons.prems by (auto simp: Cons.IH) (simp add: final_outcome_def)
qed simp

definition marking :: "nat \<Rightarrow> ('c, 'm, 'v, (bool \<times> nat) list) interceptor" where
  "marking n ctx req invoker s = (case invoker ctx req (s @ [(True, n)]) of (s', r) \<Rightarrow> (s' @ [(False, n)], r))"

section \<open>Properties of the interceptors\<close>


definition sample_request :: "(unit, unit) Request" where
  "sample_request = NewRequest 0 ''svc'' ''method'' INil"


text \<open>
  The client retries application errors: every error that the client's \<open>unmapError\<close> makes of an
  error response is retryable for \<open>Retry\<close>, whatever its code, so that not-found, invalid-argument and
  permission errors are repeated as well.
\<close>

theorem client_errors_all_retryable:
  "rs_Error resp = Some e \<Longrightarrow> e_Code e \<noteq> ErrorCodeOK \<Longrightarrow> isRetryable (client_unmapError resp)"
  by (simp add: client_unmapError_def isRetryable_def)

theorem client_errors_all_retryable_witness:
  "isRetryable (client_unmapError (NewErrorResponse 0 1 (Some (NewError ErrorCodePermissionDenied ''no''))))"
  using client_errors_all_retryable [of "NewErrorResponse 0 1 (Some (NewError ErrorCodePermissionDenied ''no''))" "NewError ErrorCodePermissionDenied ''no''"]
  by (simp add: NewErrorResponse_def NewError_def NewResponse_def code_defs)

text \<open>
  Interceptors nest in the order they were registered: each sees the call before the ones behind
  it and its result after them, around one run of the invoker.
\<close>

theorem chain_nests:
  "Intercept (NewChain (map marking ns)) ctx req (\<lambda>ctx req s. (s @ [(True, k)], r)) s
     = (s @ map (Pair True) ns @ [(True, k)] @ map (Pair False) (rev ns), r)"
proof (induction ns arbitrary: s)
  case (Cons n ns)
  show ?case
    unfolding list.map Intercept_Cons by (subst marking_def) (simp add: Cons.IH)
qed simp

end
