(* ===== verification/Payload_Codec.thy ===== *)
theory Payload_Codec
  imports Protocol_Header Protocol_Message
begin

text \<open>
  The codec package (\<open>pkg/codec\<close>): the registries of codecs and compressors (\<open>codec.go\<close>,
  \<open>compress.go\<close>), and the two built-in codecs (\<open>json.go\<close>, \<open>protobuf.go\<close>), which turn a request or
  response into a flat wire message whose payload is already bytes. \<open>encoding/json\<close>, the protobuf
  runtime, \<open>compress/gzip\<close> and the formatting of Go types are not part of the repository: they are
  the fields of the parameter \<open>lib\<close>.
\<close>

section \<open>Wire messages and the libraries\<close>

record wire_request =
  wq_ID :: u64
  wq_Service :: string
  wq_Method :: string
  wq_ServiceVersion :: string
  wq_Args :: bytes
  wq_Timeout :: int
  wq_IsStream :: bool
  wq_Metadata :: Metadata
  wq_CreatedAt :: int
  wq_ArgsCodec :: PayloadCodec

record wire_response =
  wr_ID :: u64
  wr_Data :: bytes
  wr_Error :: "Error option"
  wr_Metadata :: Metadata
  wr_ServerTime :: int
  wr_DataCodec :: PayloadCodec

text \<open>
  \<open>range_of\<close> is the order in which the runtime visits a map; \<open>type_name\<close> and \<open>codec_name\<close> are
  what \<open>%T\<close> of a value and \<open>%v\<close> of a payload codec print; \<open>gzip_Close\<close> is what the buffer holds
  once a writer that was given the data is closed.
\<close>

record ('m, 'v) lib =
  range_of :: "(string \<rightharpoonup> string) \<Rightarrow> string list"
  type_name :: "('m, 'v) iface \<Rightarrow> string"
  codec_name :: "PayloadCodec \<Rightarrow> string"
  json_value :: "('m, 'v) iface \<Rightarrow> bytes or_error"
  json_value_un :: "bytes \<Rightarrow> ('m, 'v) iface \<Rightarrow> ('m, 'v) iface or_error"
  proto_value :: "'m \<Rightarrow> bytes or_error"
  proto_value_un :: "bytes \<Rightarrow> 'm \<Rightarrow> 'm or_error"
  json_request :: "wire_request \<Rightarrow> bytes or_error"
  json_request_un :: "bytes \<Rightarrow> wire_request or_error"
  json_response :: "wire_response \<Rightarrow> bytes or_error"
  json_response_un :: "bytes \<Rightarrow> wire_response or_error"
  pb_request :: "wire_request \<Rightarrow> bytes or_error"
  pb_request_un :: "bytes \<Rightarrow> wire_request or_error"
  pb_response :: "wire_response \<Rightarrow> bytes or_error"
  pb_response_un :: "bytes \<Rightarrow> wire_response or_error"
  gzip_NewWriterLevel :: "int \<Rightarrow> go_error option"
  gzip_Write :: "int \<Rightarrow> bytes \<Rightarrow> go_error option"
  gzip_Close :: "int \<Rightarrow> bytes \<Rightarrow> bytes or_error"
  gzip_NewReader :: "bytes \<Rightarrow> go_error option"
  gzip_ReadAll :: "bytes \<Rightarrow> bytes or_error"

definition bind_err :: "'a or_error \<Rightarrow> ('a \<Rightarrow> 'b or_error) \<Rightarrow> 'b or_error" where
  "bind_err r f = (case r of Inl e \<Rightarrow> Inl e | Inr x \<Rightarrow> f x)"

definition wrap_err :: "string \<Rightarrow> 'a or_error \<Rightarrow> 'a or_error" where
  "wrap_err msg r = (case r of Inl e \<Rightarrow> Inl (Wrapped msg e '''') | Inr x \<Rightarrow> Inr x)"

section \<open>Payloads\<close>

text \<open>
  The four conversions share one shape; the labels of their messages are the argument: for a
  request \<open>(''ArgsCodec'', ''Args'', ''args'')\<close>, for a response \<open>(''DataCodec'', ''Data'', ''data'')\<close>.
\<close>

type_synonym labels = "string \<times> string \<times> string"

definition args_labels :: labels where
  "args_labels = (''ArgsCodec'', ''Args'', ''args'')"

definition data_labels :: labels where
  "data_labels = (''DataCodec'', ''Data'', ''data'')"

definition payload_given ::
    "('m, 'v) lib \<Rightarrow> labels \<Rightarrow> PayloadCodec \<Rightarrow> ('m, 'v) iface \<Rightarrow> (bytes \<times> PayloadCodec) or_error" where
  "payload_given lib lbl c v = (case lbl of (lc, lv, ll) \<Rightarrow>
     if c = PayloadCodecRaw then
       (case v of IBytes b \<Rightarrow> Inr (b, c)
        | _ \<Rightarrow> Inl (Errorf (lc @ '' is RAW but '' @ lv @ '' is not []byte (got '' @ type_name lib v @ '')'')))
     else if c = PayloadCodecJSON then
       (case v of IBytes b \<Rightarrow> Inr (b, c)
        | _ \<Rightarrow> bind_err (wrap_err (''marshal '' @ ll @ '' as JSON failed: '') (json_value lib v)) (\<lambda>b. Inr (b, c)))
     else if c = PayloadCodecProtobuf then
       (case v of IBytes b \<Rightarrow> Inr (b, c)
        | IProto msg \<Rightarrow> bind_err (wrap_err (''marshal '' @ ll @ '' as Protobuf failed: '') (proto_value lib msg)) (\<lambda>b. Inr (b, c))
        | _ \<Rightarrow> Inl (Errorf (lc @ '' is PROTOBUF but '' @ lv @ '' is not proto.Message or []byte (got '' @ type_name lib v @ '')'')))
     else Inl (Errorf (''unsupported '' @ lc @ '': '' @ codec_name lib c)))"

definition payload_inferred ::
    "('m, 'v) lib \<Rightarrow> labels \<Rightarrow> ('m, 'v) iface \<Rightarrow> (bytes \<times> PayloadCodec) or_error" where
  "payload_inferred lib lbl v = (case lbl of (lc, lv, ll) \<Rightarrow>
     (case v of
        IBytes b \<Rightarrow> Inr (b, PayloadCodecRaw)
      | IProto msg \<Rightarrow> bind_err (wrap_err (''marshal '' @ ll @ '' failed: '') (proto_value lib msg)) (\<lambda>b. Inr (b, PayloadCodecProtobuf))
      | _ \<Rightarrow> bind_err (wrap_err (''marshal '' @ ll @ '' failed: '') (json_value lib v)) (\<lambda>b. Inr (b, PayloadCodecJSON))))"

definition encode_payload ::
    "('m, 'v) lib \<Rightarrow> labels \<Rightarrow> PayloadCodec \<Rightarrow> ('m, 'v) iface \<Rightarrow> (bytes \<times> PayloadCodec) or_error" where
  "encode_payload lib lbl c v =
     (if v = INil then Inr ([], PayloadCodecUnknown)
      else if c \<noteq> PayloadCodecUnknown then payload_given lib lbl c v
      else payload_inferred lib lbl v)"

section \<open>Requests and responses to wire messages and back\<close>

definition request_to_wire :: "('m, 'v) lib \<Rightarrow> ('m, 'v) Request \<Rightarrow> wire_request or_error" where
  "request_to_wire lib req =
     bind_err (encode_payload lib args_labels (rq_ArgsCodec req) (rq_Args req)) (\<lambda>(argsData, argsCodec).
       Inr \<lparr>wq_ID = rq_ID req, wq_Service = rq_Service req, wq_Method = rq_Method req,
            wq_ServiceVersion = rq_ServiceVersion req, wq_Args = argsData, wq_Timeout = rq_Timeout req,
            wq_IsStream = rq_IsStream req,
            wq_Metadata = (if rq_Metadata req \<noteq> None
              then Metadata_ToMap (range_of lib (md_map (rq_Metadata req))) (rq_Metadata req) else None),
            wq_CreatedAt = rq_CreatedAt req, wq_ArgsCodec = argsCodec\<rparr>)"

definition wire_to_request :: "('m, 'v) lib \<Rightarrow> wire_request \<Rightarrow> ('m, 'v) Request \<Rightarrow> ('m, 'v) Request" where
  "wire_to_request lib w req =
     \<lparr>rq_ID = wq_ID w, rq_Service = wq_Service w, rq_Method = wq_Method w,
      rq_ServiceVersion = wq_ServiceVersion w,
      rq_Args = (if length (wq_Args w) > 0 then IBytes (wq_Args w) else rq_Args req),
      rq_Timeout = wq_Timeout w, rq_IsStream = wq_IsStream w,
      rq_Metadata = (if wq_Metadata w \<noteq> None
        then FromMap (range_of lib (md_map (wq_Metadata w))) (wq_Metadata w) else NewMetadata),
      rq_CreatedAt = wq_CreatedAt w, rq_ArgsCodec = wq_ArgsCodec w\<rparr>"

definition response_to_wire :: "('m, 'v) lib \<Rightarrow> ('m, 'v) Response \<Rightarrow> wire_response or_error" where
  "response_to_wire lib resp =
     bind_err (encode_payload lib data_labels (rs_DataCodec resp) (rs_Data resp)) (\<lambda>(dataBytes, dataCodec).
       Inr \<lparr>wr_ID = rs_ID resp, wr_Data = dataBytes, wr_Error = rs_Error resp,
            wr_Metadata = (if rs_Metadata resp \<noteq> None
              then Metadata_ToMap (range_of lib (md_map (rs_Metadata resp))) (rs_Metadata resp) else None),
            wr_ServerTime = rs_ServerTime resp, wr_DataCodec = dataCodec\<rparr>)"

text \<open>The JSON decoder always writes the error field, the protobuf decoder only when there is one.\<close>

definition wire_to_response ::
    "('m, 'v) lib \<Rightarrow> bool \<Rightarrow> wire_response \<Rightarrow> ('m, 'v) Response \<Rightarrow> ('m, 'v) Response" where
  "wire_to_response lib json w resp =
     \<lparr>rs_ID = wr_ID w,
      rs_Data = (if length (wr_Data w) > 0 then IBytes (wr_Data w) else rs_Data resp),
      rs_Error = (if json \<or> wr_Error w \<noteq> None then wr_Error w else rs_Error resp),
      rs_Metadata = (if wr_Metadata w \<noteq> None
        then FromMap (range_of lib (md_map (wr_Metadata w))) (wr_Metadata w) else NewMetadata),
      rs_ServerTime = wr_ServerTime w, rs_DataCodec = wr_DataCodec w\<rparr>"

section \<open>Codecs\<close>

text \<open>
  \<open>Encode\<close> and \<open>Decode\<close> take any value and treat the two message types specially. Decoding writes
  through the pointer it is given: the result is the value afterwards.
\<close>

datatype ('m, 'v) any =
    AnyRequest "('m, 'v) Request"
  | AnyResponse "('m, 'v) Response"
  | AnyValue "('m, 'v) iface"

record ('m, 'v) Codec =
  Encode :: "('m, 'v) any \<Rightarrow> bytes or_error"
  Decode :: "bytes \<Rightarrow> ('m, 'v) any \<Rightarrow> ('m, 'v) any or_error"
  Codec_Name :: string

definition EncodeReq :: "('m, 'v) Codec \<Rightarrow> ('m, 'v) Request \<Rightarrow> bytes or_error" where
  "EncodeReq c req = Encode c (AnyRequest req)"

definition EncodeResp :: "('m, 'v) Codec \<Rightarrow> ('m, 'v) Response \<Rightarrow> bytes or_error" where
  "EncodeResp c resp = Encode c (AnyResponse resp)"

definition DecodeReq :: "('m, 'v) Codec \<Rightarrow> bytes \<Rightarrow> ('m, 'v) Request \<Rightarrow> ('m, 'v) Request or_error" where
  "DecodeReq c data req = map_sum id (\<lambda>v. case v of AnyRequest x \<Rightarrow> x | _ \<Rightarrow> req) (Decode c data (AnyRequest req))"

definition DecodeResp :: "('m, 'v) Codec \<Rightarrow> bytes \<Rightarrow> ('m, 'v) Response \<Rightarrow> ('m, 'v) Response or_error" where
  "DecodeResp c data resp = map_sum id (\<lambda>v. case v of AnyResponse x \<Rightarrow> x | _ \<Rightarrow> resp) (Decode c data (AnyResponse resp))"

definition json_encodeRequest :: "('m, 'v) lib \<Rightarrow> ('m, 'v) Request \<Rightarrow> bytes or_error" where
  "json_encodeRequest lib req = bind_err (request_to_wire lib req) (json_request lib)"

definition json_decodeRequest :: "('m, 'v) lib \<Rightarrow> bytes \<Rightarrow> ('m, 'v) Request \<Rightarrow> ('m, 'v) Request or_error" where
  "json_decodeRequest lib data req = bind_err (json_request_un lib data) (\<lambda>w. Inr (wire_to_request lib w req))"

definition json_encodeResponse :: "('m, 'v) lib \<Rightarrow> ('m, 'v) Response \<Rightarrow> bytes or_error" where
  "json_encodeResponse lib resp = bind_err (response_to_wire lib resp) (json_response lib)"

definition json_decodeResponse :: "('m, 'v) lib \<Rightarrow> bytes \<Rightarrow> ('m, 'v) Response \<Rightarrow> ('m, 'v) Response or_error" where
  "json_decodeResponse lib data resp = bind_err (json_response_un lib data) (\<lambda>w. Inr (wire_to_response lib True w resp))"

fun json_Encode :: "('m, 'v) lib \<Rightarrow> ('m, 'v) any \<Rightarrow> bytes or_error" where
  "json_Encode lib (AnyRequest req) = json_encodeRequest lib req"
| "json_Encode lib (AnyResponse resp) = json_encodeResponse lib resp"
| "json_Encode lib (AnyValue v) = json_value lib v"

fun json_Decode :: "('m, 'v) lib \<Rightarrow> bytes \<Rightarrow> ('m, 'v) any \<Rightarrow> ('m, 'v) any or_error" where
  "json_Decode lib data (AnyRequest req) = map_sum id AnyRequest (json_decodeRequest lib data req)"
| "json_Decode lib data (AnyResponse resp) = map_sum id AnyResponse (json_decodeResponse lib data resp)"
| "json_Decode lib data (AnyValue v) = map_sum id AnyValue (json_value_un lib data v)"

definition NewJSONCodec :: "('m, 'v) lib \<Rightarrow> ('m, 'v) Codec" where
  "NewJSONCodec lib = \<lparr>Encode = json_Encode lib, Decode = json_Decode lib, Codec_Name = ''json''\<rparr>"

definition pb_encodeRequest :: "('m, 'v) lib \<Rightarrow> ('m, 'v) Request \<Rightarrow> bytes or_error" where
  "pb_encodeRequest lib req =
     bind_err (wrap_err ''convert request to proto failed: '' (request_to_wire lib req)) (pb_request lib)"

definition pb_decodeRequest :: "('m, 'v) lib \<Rightarrow> bytes \<Rightarrow> ('m, 'v) Request \<Rightarrow> ('m, 'v) Request or_error" where
  "pb_decodeRequest lib data req =
     bind_err (wrap_err ''unmarshal proto request failed: '' (pb_request_un lib data)) (\<lambda>w. Inr (wire_to_request lib w req))"

definition pb_encodeResponse :: "('m, 'v) lib \<Rightarrow> ('m, 'v) Response \<Rightarrow> bytes or_error" where
  "pb_encodeResponse lib resp =
     bind_err (wrap_err ''convert response to proto failed: '' (response_to_wire lib resp)) (pb_response lib)"

definition pb_decodeResponse :: "('m, 'v) lib \<Rightarrow> bytes \<Rightarrow> ('m, 'v) Response \<Rightarrow> ('m, 'v) Response or_error" where
  "pb_decodeResponse lib data resp =
     bind_err (wrap_err ''unmarshal proto response failed: '' (pb_response_un lib data)) (\<lambda>w. Inr (wire_to_response lib False w resp))"

fun pb_Encode :: "('m, 'v) lib \<Rightarrow> ('m, 'v) any \<Rightarrow> bytes or_error" where
  "pb_Encode lib (AnyRequest req) = pb_encodeRequest lib req"
| "pb_Encode lib (AnyResponse resp) = pb_encodeResponse lib resp"
| "pb_Encode lib (AnyValue v) =
     (case v of
        IProto msg \<Rightarrow> proto_value lib msg
      | _ \<Rightarrow> Inl (Errorf (''protobuf codec: unsupported type '' @ type_name lib v)))"

fun pb_Decode :: "('m, 'v) lib \<Rightarrow> bytes \<Rightarrow> ('m, 'v) any \<Rightarrow> ('m, 'v) any or_error" where
  "pb_Decode lib data (AnyRequest req) = map_sum id AnyRequest (pb_decodeRequest lib data req)"
| "pb_Decode lib data (AnyResponse resp) = map_sum id AnyResponse (pb_decodeResponse lib data resp)"
| "pb_Decode lib data (AnyValue v) =
     (case v of
        IProto msg \<Rightarrow> map_sum id (\<lambda>x. AnyValue (IProto x)) (proto_value_un lib data msg)
      | _ \<Rightarrow> Inl (Errorf (''protobuf codec: undupported type '' @ type_name lib v)))"

definition NewProtobufCodec :: "('m, 'v) lib \<Rightarrow> ('m, 'v) Codec" where
  "NewProtobufCodec lib = \<lparr>Encode = pb_Encode lib, Decode = pb_Decode lib, Codec_Name = ''protobuf''\<rparr>"

lemma map_sum_back [simp]:
  "map_sum id f (map_sum id g r) = map_sum id (f \<circ> g) r" "(\<And>x. h x = x) \<Longrightarrow> map_sum id h r = r"
  by (cases r; simp)+

lemma builtin_calls [simp]:
  "EncodeReq (NewJSONCodec lib) = json_encodeRequest lib" "EncodeResp (NewJSONCodec lib) = json_encodeResponse lib"
  "DecodeReq (NewJSONCodec lib) = json_decodeRequest lib" "DecodeResp (NewJSONCodec lib) = json_decodeResponse lib"
  "EncodeReq (NewProtobufCodec lib) = pb_encodeRequest lib" "EncodeResp (NewProtobufCodec lib) = pb_encodeResponse lib"
  "DecodeReq (NewProtobufCodec lib) = pb_decodeRequest lib" "DecodeResp (NewProtobufCodec lib) = pb_decodeResponse lib"
  by (simp_all add: fun_eq_iff NewJSONCodec_def NewProtobufCodec_def EncodeReq_def EncodeResp_def DecodeReq_def DecodeResp_def)

section \<open>The codec registry\<close>

type_synonym 'a registry = "byte \<rightharpoonup> 'a"

text \<open>A nil entry or a second registration panics.\<close>

definition codec_Register :: "byte \<Rightarrow> 'a option \<Rightarrow> 'a registry \<Rightarrow> 'a registry option" where
  "codec_Register typ codec reg =
     (case codec of
        None \<Rightarrow> None
      | Some c \<Rightarrow> if reg typ \<noteq> None then None else Some (reg(typ \<mapsto> c)))"

definition codec_Get :: "byte \<Rightarrow> 'a registry \<Rightarrow> 'a option" where
  "codec_Get typ reg = reg typ"

definition codec_GetOrDefault :: "byte \<Rightarrow> 'a registry \<Rightarrow> 'a option" where
  "codec_GetOrDefault typ reg =
     (case codec_Get typ reg of None \<Rightarrow> codec_Get CodecTypeJSON reg | Some c \<Rightarrow> Some c)"

definition codec_List :: "byte list \<Rightarrow> 'a registry \<Rightarrow> byte list" where
  "codec_List ks reg = filter (\<lambda>k. reg k \<noteq> None) ks"

text \<open>What the \<open>init\<close> functions of the package register.\<close>

definition init_codecs :: "('m, 'v) lib \<Rightarrow> ('m, 'v) Codec registry option" where
  "init_codecs lib = Option.bind (codec_Register CodecTypeJSON (Some (NewJSONCodec lib)) Map.empty)
     (codec_Register CodecTypeProtobuf (Some (NewProtobufCodec lib)))"

section \<open>Compressors\<close>

record Compressor =
  Compress :: "bytes \<Rightarrow> bytes or_error"
  Decompress :: "bytes \<Rightarrow> bytes or_error"
  Compressor_Name :: string

definition NewNoneCompressor :: Compressor where
  "NewNoneCompressor = \<lparr>Compress = Inr, Decompress = Inr, Compressor_Name = ''none''\<rparr>"

definition gzip_Compress :: "('m, 'v) lib \<Rightarrow> int \<Rightarrow> bytes \<Rightarrow> bytes or_error" where
  "gzip_Compress lib level data =
     (case gzip_NewWriterLevel lib level of
        Some e \<Rightarrow> Inl (Wrapped ''create gzip writer failed: '' e '''')
      | None \<Rightarrow>
          (case gzip_Write lib level data of
             Some e \<Rightarrow> Inl (Wrapped ''gzip write failed: '' e '''')
           | None \<Rightarrow> wrap_err ''gzip close failed: '' (gzip_Close lib level data)))"

definition gzip_Decompress :: "('m, 'v) lib \<Rightarrow> bytes \<Rightarrow> bytes or_error" where
  "gzip_Decompress lib data =
     (case gzip_NewReader lib data of
        Some e \<Rightarrow> Inl (Wrapped ''create gzip reader failed: '' e '''')
      | None \<Rightarrow> wrap_err ''gzip read failed: '' (gzip_ReadAll lib data))"

definition NewGzipCompressor :: "('m, 'v) lib \<Rightarrow> int \<Rightarrow> Compressor" where
  "NewGzipCompressor lib level =
     \<lparr>Compress = gzip_Compress lib level, Decompress = gzip_Decompress lib, Compressor_Name = ''gzip''\<rparr>"

definition RegisterCompressor :: "byte \<Rightarrow> Compressor option \<Rightarrow> Compressor registry \<Rightarrow> Compressor registry option" where
  "RegisterCompressor typ compressor reg =
     (case compressor of
        None \<Rightarrow> None
      | Some c \<Rightarrow> if reg typ \<noteq> None then None else Some (reg(typ \<mapsto> c)))"

definition GetCompressor :: "byte \<Rightarrow> Compressor registry \<Rightarrow> Compressor option" where
  "GetCompressor typ reg = reg typ"

definition GetCompressorOrNone :: "byte \<Rightarrow> Compressor registry \<Rightarrow> Compressor option" where
  "GetCompressorOrNone typ reg =
     (case GetCompressor typ reg of None \<Rightarrow> GetCompressor CompressTypeNone reg | Some c \<Rightarrow> Some c)"

text \<open>\<open>gzip.DefaultCompression\<close> is \<open>-1\<close>.\<close>

definition init_compressors :: "('m, 'v) lib \<Rightarrow> Compressor registry option" where
  "init_compressors lib = Option.bind (RegisterCompressor CompressTypeNone (Some NewNoneCompressor) Map.empty)
     (RegisterCompressor CompressTypeGzip (Some (NewGzipCompressor lib (-1))))"

section \<open>Compressed codecs\<close>

definition NewCompressedCodec :: "('m, 'v) Codec \<Rightarrow> Compressor \<Rightarrow> ('m, 'v) Codec" where
  "NewCompressedCodec c cp =
     \<lparr>Encode = (\<lambda>v. bind_err (Encode c v) (\<lambda>d. wrap_err ''compress failed: '' (Compress cp d))),
      Decode = (\<lambda>d v. bind_err (wrap_err ''decompress failed: '' (Decompress cp d)) (\<lambda>x. Decode c x v)),
      Codec_Name = Codec_Name c @ ''+'' @ Compressor_Name cp\<rparr>"

section \<open>What the receiver sees\<close>

text \<open>
  A payload arrives as bytes, or not at all when it is empty; the codec byte says how it was
  encoded; metadata arrives as a map, empty when there was none.
\<close>

definition zero_Request :: "('m, 'v) Request" where
  "zero_Request = \<lparr>rq_ID = 0, rq_Service = '''', rq_Method = '''', rq_ServiceVersion = '''', rq_Args = INil,
     rq_Timeout = 0, rq_IsStream = False, rq_Metadata = None, rq_CreatedAt = 0, rq_ArgsCodec = PayloadCodecUnknown\<rparr>"

definition zero_Response :: "('m, 'v) Response" where
  "zero_Response = \<lparr>rs_ID = 0, rs_Data = INil, rs_Error = None, rs_Metadata = None, rs_ServerTime = 0,
     rs_DataCodec = PayloadCodecUnknown\<rparr>"

definition payload_iface :: "bytes \<Rightarrow> ('m, 'v) iface" where
  "payload_iface b = (if b = [] then INil else IBytes b)"

definition received_request :: "bytes \<times> PayloadCodec \<Rightarrow> ('m, 'v) Request \<Rightarrow> ('m, 'v) Request" where
  "received_request p req = req\<lparr>rq_Args := payload_iface (fst p), rq_ArgsCodec := snd p,
     rq_Metadata := Some (md_map (rq_Metadata req))\<rparr>"

definition received_response :: "bytes \<times> PayloadCodec \<Rightarrow> ('m, 'v) Response \<Rightarrow> ('m, 'v) Response" where
  "received_response p resp = resp\<lparr>rs_Data := payload_iface (fst p), rs_DataCodec := snd p,
     rs_Metadata := Some (md_map (rs_Metadata resp))\<rparr>"

text \<open>
  What the serialisation libraries are relied on for: the wire message comes back, with an empty
  map read back as nil (\<open>omitempty\<close> in JSON, absent entries in protobuf).
\<close>

definition norm_md :: "Metadata \<Rightarrow> Metadata" where
  "norm_md m = (if dom (md_map m) = {} then None else m)"

definition json_request_faithful :: "('m, 'v) lib \<Rightarrow> wire_request \<Rightarrow> bool" where
  "json_request_faithful lib w \<longleftrightarrow>
     (\<forall>bs. json_request lib w = Inr bs \<longrightarrow> json_request_un lib bs = Inr (w\<lparr>wq_Metadata := norm_md (wq_Metadata w)\<rparr>))"

definition pb_request_faithful :: "('m, 'v) lib \<Rightarrow> wire_request \<Rightarrow> bool" where
  "pb_request_faithful lib w \<longleftrightarrow>
     (\<forall>bs. pb_request lib w = Inr bs \<longrightarrow> pb_request_un lib bs = Inr (w\<lparr>wq_Metadata := norm_md (wq_Metadata w)\<rparr>))"

definition json_response_faithful :: "('m, 'v) lib \<Rightarrow> wire_response \<Rightarrow> bool" where
  "json_response_faithful lib w \<longleftrightarrow>
     (\<forall>bs. json_response lib w = Inr bs \<longrightarrow> json_response_un lib bs = Inr (w\<lparr>wr_Metadata := norm_md (wr_Metadata w)\<rparr>))"

definition pb_response_faithful :: "('m, 'v) lib \<Rightarrow> wire_response \<Rightarrow> bool" where
  "pb_response_faithful lib w \<longleftrightarrow>
     (\<forall>bs. pb_response lib w = Inr bs \<longrightarrow> pb_response_un lib bs = Inr (w\<lparr>wr_Metadata := norm_md (wr_Metadata w)\<rparr>))"

text \<open>The runtime visits every entry of the metadata once.\<close>

definition visits :: "('m, 'v) lib \<Rightarrow> Metadata \<Rightarrow> bool" where
  "visits lib m \<longleftrightarrow> range_order (md_map m) (range_of lib (md_map m))"

lemma ToMap_visits: "visits lib m \<Longrightarrow> Metadata_ToMap (range_of lib (md_map m)) m = m"
  by (simp add: visits_def ToMap_eq)

lemma decoded_metadata:
  assumes "visits lib m"
  shows "(if norm_md m \<noteq> None then FromMap (range_of lib (md_map (norm_md m))) (norm_md m) else NewMetadata)
    = Some (md_map m)"
  using assms
  by (cases m) (auto simp: norm_md_def visits_def FromMap_eq NewMetadata_def md_map_def dom_def fun_eq_iff
      FromMap_def copy_into_eq split: option.splits)

lemma wire_to_request_received:
  assumes "visits lib (rq_Metadata req)" and "encode_payload lib args_labels (rq_ArgsCodec req) (rq_Args req) = Inr p"
    and "request_to_wire lib req = Inr w"
  shows "wire_to_request lib (w\<lparr>wq_Metadata := norm_md (wq_Metadata w)\<rparr>) zero_Request = received_request p req"
proof -
  obtain b c where p: "p = (b, c)"
    by (cases p)
  have w: "w = \<lparr>wq_ID = rq_ID req, wq_Service = rq_Service req, wq_Method = rq_Method req,
      wq_ServiceVersion = rq_ServiceVersion req, wq_Args = b, wq_Timeout = rq_Timeout req,
      wq_IsStream = rq_IsStream req, wq_Metadata = rq_Metadata req,
      wq_CreatedAt = rq_CreatedAt req, wq_ArgsCodec = c\<rparr>"
    using assms ToMap_visits [OF assms(1)] p by (auto simp: request_to_wire_def bind_err_def)
  show ?thesis
    using decoded_metadata [OF assms(1)] unfolding w p
    by (cases req; cases "norm_md (rq_Metadata req)")
      (simp_all add: wire_to_request_def received_request_def payload_iface_def zero_Request_def)
qed

lemma wire_to_response_received:
  assumes "visits lib (rs_Metadata resp)" and "encode_payload lib data_labels (rs_DataCodec resp) (rs_Data resp) = Inr p"
    and "response_to_wire lib resp = Inr w"
  shows "wire_to_response lib json (w\<lparr>wr_Metadata := norm_md (wr_Metadata w)\<rparr>) zero_Response = received_response p resp"
proof -
  obtain b c where p: "p = (b, c)"
    by (cases p)
  have w: "w = \<lparr>wr_ID = rs_ID resp, wr_Data = b, wr_Error = rs_Error resp, wr_Metadata = rs_Metadata resp,
      wr_ServerTime = rs_ServerTime resp, wr_DataCodec = c\<rparr>"
    using assms ToMap_visits [OF assms(1)] p by (auto simp: response_to_wire_def bind_err_def)
  show ?thesis
    using decoded_metadata [OF assms(1)] unfolding w p
    by (cases resp; cases "norm_md (rs_Metadata resp)")
      (simp_all add: wire_to_response_def received_response_def payload_iface_def zero_Response_def)
qed

section \<open>The contract of a codec\<close>

locale body_codec =
  fixes codec :: "('m, 'v) lib \<Rightarrow> ('m, 'v) Codec"
    and okq :: "('m, 'v) lib \<Rightarrow> wire_request \<Rightarrow> bool"
    and okr :: "('m, 'v) lib \<Rightarrow> wire_response \<Rightarrow> bool"
  assumes request_back: "visits lib (rq_Metadata req) \<Longrightarrow>
      encode_payload lib args_labels (rq_ArgsCodec req) (rq_Args req) = Inr p \<Longrightarrow>
      request_to_wire lib req = Inr w \<Longrightarrow> okq lib w \<Longrightarrow> EncodeReq (codec lib) req = Inr bs \<Longrightarrow>
      DecodeReq (codec lib) bs zero_Request = Inr (received_request p req)"
    and response_back: "visits lib (rs_Metadata resp) \<Longrightarrow>
      encode_payload lib data_labels (rs_DataCodec resp) (rs_Data resp) = Inr p \<Longrightarrow>
      response_to_wire lib resp = Inr w' \<Longrightarrow> okr lib w' \<Longrightarrow> EncodeResp (codec lib) resp = Inr bs \<Longrightarrow>
      DecodeResp (codec lib) bs zero_Response = Inr (received_response p resp)"
begin

text \<open>A compressed codec keeps the contract when the compressor undoes itself.\<close>

lemma compressed_request_back:
  assumes "visits lib (rq_Metadata req)" and "encode_payload lib args_labels (rq_ArgsCodec req) (rq_Args req) = Inr p"
    and "request_to_wire lib req = Inr w" and "okq lib w"
    and "EncodeReq (NewCompressedCodec (codec lib) cp) req = Inr bs"
    and "\<And>d x. Compress cp d = Inr x \<Longrightarrow> Decompress cp x = Inr d"
  shows "DecodeReq (NewCompressedCodec (codec lib) cp) bs zero_Request = Inr (received_request p req)"
  using assms request_back [OF assms(1-4)]
  by (auto simp: NewCompressedCodec_def EncodeReq_def DecodeReq_def bind_err_def wrap_err_def split: sum.splits)

end

interpretation json: body_codec NewJSONCodec json_request_faithful json_response_faithful
proof
  fix lib :: "('m, 'v) lib" and req p w bs
  assume "visits lib (rq_Metadata req)" "encode_payload lib args_labels (rq_ArgsCodec req) (rq_Args req) = Inr p"
    "request_to_wire lib req = Inr w" "json_request_faithful lib w" "EncodeReq (NewJSONCodec lib) req = Inr bs"
  then show "DecodeReq (NewJSONCodec lib) bs zero_Request = Inr (received_request p req)"
    using wire_to_request_received [of lib req p w]
    by (simp add: json_encodeRequest_def json_decodeRequest_def bind_err_def json_request_faithful_def)
next
  fix lib :: "('m, 'v) lib" and resp p w bs
  assume "visits lib (rs_Metadata resp)" "encode_payload lib data_labels (rs_DataCodec resp) (rs_Data resp) = Inr p"
    "response_to_wire lib resp = Inr w" "json_response_faithful lib w" "EncodeResp (NewJSONCodec lib) resp = Inr bs"
  then show "DecodeResp (NewJSONCodec lib) bs zero_Response = Inr (received_response p resp)"
    using wire_to_response_received [of lib resp p w]
    by (simp add: json_encodeResponse_def json_decodeResponse_def bind_err_def json_response_faithful_def)
qed

interpretation protobuf: body_codec NewProtobufCodec pb_request_faithful pb_response_faithful
proof
  fix lib :: "('m, 'v) lib" and req p w bs
  assume "visits lib (rq_Metadata req)" "encode_payload lib args_labels (rq_ArgsCodec req) (rq_Args req) = Inr p"
    "request_to_wire lib req = Inr w" "pb_request_faithful lib w" "EncodeReq (NewProtobufCodec lib) req = Inr bs"
  then show "DecodeReq (NewProtobufCodec lib) bs zero_Request = Inr (received_request p req)"
    using wire_to_request_received [of lib req p w]
    by (simp add: pb_encodeRequest_def pb_decodeRequest_def bind_err_def wrap_err_def pb_request_faithful_def)
next
  fix lib :: "('m, 'v) lib" and resp p w bs
  assume "visits lib (rs_Metadata resp)" "encode_payload lib data_labels (rs_DataCodec resp) (rs_Data resp) = Inr p"
    "response_to_wire lib resp = Inr w" "pb_response_faithful lib w" "EncodeResp (NewProtobufCodec lib) resp = Inr bs"
  then show "DecodeResp (NewProtobufCodec lib) bs zero_Response = Inr (received_response p resp)"
    using wire_to_response_received [of lib resp p w]
    by (simp add: pb_encodeResponse_def pb_decodeResponse_def bind_err_def wrap_err_def pb_response_faithful_def)
qed

lemma init_codecs_eq: "init_codecs lib = Some [CodecTypeJSON \<mapsto> NewJSONCodec lib, CodecTypeProtobuf \<mapsto> NewProtobufCodec lib]"
  by (simp add: init_codecs_def codec_Register_def CodecTypeJSON_def CodecTypeProtobuf_def)

lemma init_compressors_eq:
  "init_compressors lib = Some [CompressTypeNone \<mapsto> NewNoneCompressor, CompressTypeGzip \<mapsto> NewGzipCompressor lib (-1)]"
  by (simp add: init_compressors_def RegisterCompressor_def CompressTypeNone_def CompressTypeGzip_def)

section \<open>Properties of the codecs\<close>

text \<open>
  (C11) Requests and responses survive both codecs: what is decoded from the encoded bytes has the same
  ID, service, method, version, timeout, flags, times, error and metadata; the payload is the bytes
  it was encoded to, under the payload codec that was given or inferred for it.
\<close>

theorem message_roundtrip:
  assumes "visits lib (rq_Metadata req)" and "encode_payload lib args_labels (rq_ArgsCodec req) (rq_Args req) = Inr p"
    and "request_to_wire lib req = Inr w" and "json_request_faithful lib w" and "pb_request_faithful lib w"
    and "visits lib (rs_Metadata resp)" and "encode_payload lib data_labels (rs_DataCodec resp) (rs_Data resp) = Inr q"
    and "response_to_wire lib resp = Inr u" and "json_response_faithful lib u" and "pb_response_faithful lib u"
    and "c \<in> {NewJSONCodec lib, NewProtobufCodec lib}"
  shows "(\<forall>bs. EncodeReq c req = Inr bs \<longrightarrow> DecodeReq c bs zero_Request = Inr (received_request p req))
    \<and> (\<forall>bs. EncodeResp c resp = Inr bs \<longrightarrow> DecodeResp c bs zero_Response = Inr (received_response q resp))"
  using json.request_back [OF assms(1-4)] protobuf.request_back [OF assms(1-3,5)]
    json.response_back [OF assms(6-9)] protobuf.response_back [OF assms(6-8,10)] assms(11)
  by blast

definition sample_wire_request :: wire_request where
  "sample_wire_request = \<lparr>wq_ID = 7, wq_Service = ''svc'', wq_Method = ''m'', wq_ServiceVersion = '''', wq_Args = [1, 2],
     wq_Timeout = 0, wq_IsStream = False, wq_Metadata = None, wq_CreatedAt = 3, wq_ArgsCodec = PayloadCodecRaw\<rparr>"

definition sample_wire_response :: wire_response where
  "sample_wire_response = \<lparr>wr_ID = 7, wr_Data = [9], wr_Error = None, wr_Metadata = None, wr_ServerTime = 3,
     wr_DataCodec = PayloadCodecRaw\<rparr>"

text \<open>A library whose wire formats carry one message.\<close>

definition sample_lib :: "(unit, unit) lib" where
  "sample_lib = \<lparr>range_of = (\<lambda>_. []), type_name = (\<lambda>_. ''T''), codec_name = (\<lambda>_. ''C''), json_value = (\<lambda>_. Inr [0]),
     json_value_un = (\<lambda>_ v. Inr v), proto_value = (\<lambda>_. Inr [0]), proto_value_un = (\<lambda>_ v. Inr v), json_request = (\<lambda>_. Inr [1]), json_request_un = (\<lambda>_. Inr sample_wire_request),
     json_response = (\<lambda>_. Inr [2]), json_response_un = (\<lambda>_. Inr sample_wire_response),
     pb_request = (\<lambda>_. Inr [3]), pb_request_un = (\<lambda>_. Inr sample_wire_request),
     pb_response = (\<lambda>_. Inr [4]), pb_response_un = (\<lambda>_. Inr sample_wire_response),
     gzip_NewWriterLevel = (\<lambda>_. None), gzip_Write = (\<lambda>_ _. None), gzip_Close = (\<lambda>_ d. Inr (31 # d)),
     gzip_NewReader = (\<lambda>_. None), gzip_ReadAll = (\<lambda>d. Inr (tl d))\<rparr>"

definition sample_rq :: "(unit, unit) Request" where
  "sample_rq = (NewRequest 3 ''svc'' ''m'' (IBytes [1, 2]))\<lparr>rq_ID := 7\<rparr>"

definition sample_rs :: "(unit, unit) Response" where
  "sample_rs = (NewResponse 7)\<lparr>rs_Data := IBytes [9], rs_ServerTime := 3\<rparr>"

lemmas sample_defs = sample_wire_request_def sample_wire_response_def sample_lib_def sample_rq_def sample_rs_def
  NewRequest_def NewResponse_def NewMetadata_def

lemma sample_facts:
  "visits sample_lib (rq_Metadata sample_rq)" "visits sample_lib (rs_Metadata sample_rs)"
  "encode_payload sample_lib args_labels (rq_ArgsCodec sample_rq) (rq_Args sample_rq) = Inr ([1, 2], PayloadCodecRaw)"
  "encode_payload sample_lib data_labels (rs_DataCodec sample_rs) (rs_Data sample_rs) = Inr ([9], PayloadCodecRaw)"
  "request_to_wire sample_lib sample_rq = Inr (sample_wire_request\<lparr>wq_Metadata := Some Map.empty\<rparr>)"
  "response_to_wire sample_lib sample_rs = Inr (sample_wire_response\<lparr>wr_Metadata := Some Map.empty\<rparr>)"
  by (simp_all add: sample_defs visits_def md_map_def range_order_def encode_payload_def payload_inferred_def
      args_labels_def data_labels_def request_to_wire_def response_to_wire_def bind_err_def Metadata_ToMap_def copy_into_def)

theorem message_roundtrip_witness:
  "DecodeReq (NewProtobufCodec sample_lib) [3] zero_Request = Inr (received_request ([1, 2], PayloadCodecRaw) sample_rq)"
proof -
  have "EncodeReq (NewProtobufCodec sample_lib) sample_rq = Inr [3]"
    by (simp add: pb_encodeRequest_def sample_facts bind_err_def wrap_err_def) (simp add: sample_lib_def)
  then show ?thesis
    using message_roundtrip [OF sample_facts(1,3,5) _ _ sample_facts(2,4,6) _ _, of "NewProtobufCodec sample_lib"]
    by (simp add: json_request_faithful_def pb_request_faithful_def json_response_faithful_def pb_response_faithful_def
        sample_defs norm_md_def md_map_def)
qed

end
