(* ===== verification/Frame_Codec.thy ===== *)
theory Frame_Codec
  imports Payload_Codec
begin

text \<open>
  Framing on a byte stream (\<open>pkg/transport/tcp/codec.go\<close>): a header and a compressed body, with
  \<open>writeFull\<close> of \<open>pkg/transport/tcp/client.go\<close> and the length-prefixed stream codec of
  \<open>pkg/codec/protobuf.go\<close>. A reader is the list of the bytes that are still to come; reading
  returns what is left. Dereferencing a nil codec or compressor is the outcome \<open>RPanic\<close>.
\<close>

section \<open>Readers and writers\<close>

text \<open>\<open>io.ReadFull\<close>: on a short read the bytes there were are consumed.\<close>

definition ReadFull :: "nat \<Rightarrow> bytes \<Rightarrow> bytes or_error \<times> bytes" where
  "ReadFull n r =
     (if n \<le> length r then (Inr (take n r), drop n r)
      else (Inl (Sentinel (if r = [] then EOF else ErrUnexpectedEOF)), []))"

text \<open>
  A writer takes a buffer and says how many bytes it accepted. \<open>writeFull\<close> loops until all are
  accepted; \<open>b[n:]\<close> panics when the writer claims more than it was given.
\<close>

datatype write_outcome = WriteOk | WriteErr go_error | WritePanic

partial_function (option) writeFull ::
    "('w \<Rightarrow> bytes \<Rightarrow> 'w \<times> nat \<times> go_error option) \<Rightarrow> bytes \<Rightarrow> 'w \<Rightarrow> ('w \<times> write_outcome) option" where
  "writeFull Write b w =
     (if b = [] then Some (w, WriteOk)
      else (case Write w b of
              (w1, n, Some e) \<Rightarrow> Some (w1, WriteErr e)
            | (w1, n, None) \<Rightarrow> if n > length b then Some (w1, WritePanic) else writeFull Write (drop n b) w1))"

section \<open>The frame codec\<close>

record ('m, 'v) ProtocolCodec =
  pc_codec :: "('m, 'v) Codec option"
  pc_compressor :: "Compressor option"
  pc_codecType :: byte
  pc_compressType :: byte

definition NewProtocolCodec ::
    "('m, 'v) Codec registry \<Rightarrow> Compressor registry \<Rightarrow> byte \<Rightarrow> byte \<Rightarrow> ('m, 'v) ProtocolCodec" where
  "NewProtocolCodec codecs comps codecType compressorType =
     \<lparr>pc_codec = codec_GetOrDefault codecType codecs, pc_compressor = GetCompressorOrNone compressorType comps,
      pc_codecType = codecType, pc_compressType = compressorType\<rparr>"

datatype 'a result = Ok 'a | Err go_error | RPanic

fun res_bind :: "'a result \<Rightarrow> ('a \<Rightarrow> 'b result) \<Rightarrow> 'b result" where
  "res_bind (Ok x) f = f x"
| "res_bind (Err e) f = Err e"
| "res_bind RPanic f = RPanic"

text \<open>An error with its context, \<open>fmt.Errorf("...: %w", err)\<close>.\<close>

definition ctx_err :: "string \<Rightarrow> 'a or_error \<Rightarrow> 'a result" where
  "ctx_err msg r = (case r of Inl e \<Rightarrow> Err (Wrapped msg e '''') | Inr x \<Rightarrow> Ok x)"

definition ctx_res :: "string \<Rightarrow> 'a result \<Rightarrow> 'a result" where
  "ctx_res msg r = (case r of Err e \<Rightarrow> Err (Wrapped msg e '''') | _ \<Rightarrow> r)"

definition deref :: "'a option \<Rightarrow> 'a result" where
  "deref p = (case p of None \<Rightarrow> RPanic | Some x \<Rightarrow> Ok x)"

text \<open>Header and body in one buffer; the body length is cut to 32 bits.\<close>

definition frame :: "('m, 'v) ProtocolCodec \<Rightarrow> byte \<Rightarrow> u64 \<Rightarrow> bytes \<Rightarrow> bytes" where
  "frame pc msgType i body =
     (let header = (NewHeader msgType (pc_codecType pc) i (of_nat (length body)))\<lparr>h_Compress := pc_compressType pc\<rparr>
      in Header_Encode header @ body)"

definition EncodeRequest :: "('m, 'v) ProtocolCodec \<Rightarrow> ('m, 'v) Request \<Rightarrow> bytes result" where
  "EncodeRequest pc req =
     res_bind (deref (pc_codec pc)) (\<lambda>c.
     res_bind (ctx_err ''encode request error: '' (EncodeReq c req)) (\<lambda>bodyData.
     res_bind (deref (pc_compressor pc)) (\<lambda>cp.
     res_bind (ctx_err ''compress request error: '' (Compress cp bodyData)) (\<lambda>compressed.
       Ok (frame pc MsgTypeRequest (rq_ID req) compressed)))))"

definition EncodeResponse :: "('m, 'v) ProtocolCodec \<Rightarrow> ('m, 'v) Response \<Rightarrow> bytes result" where
  "EncodeResponse pc resp =
     res_bind (deref (pc_codec pc)) (\<lambda>c.
     res_bind (ctx_err ''encode response error: '' (EncodeResp c resp)) (\<lambda>bodyData.
     res_bind (deref (pc_compressor pc)) (\<lambda>cp.
     res_bind (ctx_err ''compress response error: '' (Compress cp bodyData)) (\<lambda>compressed.
       Ok (frame pc MsgTypeResponse (rs_ID resp) compressed)))))"

text \<open>The errors of \<open>Header.Decode\<close> as they are printed.\<close>

fun header_go_error :: "header_error \<Rightarrow> go_error" where
  "header_go_error (InvalidHeaderLength n) =
     Errorf (''invalid header length: '' @ fmt_d (int n) @ '', expected: '' @ fmt_d (int HeaderLength))"
| "header_go_error (InvalidMagic x) =
     Errorf (''invalid magic number: 0x'' @ fmt_X (unat x) @ '', expected: 0x'' @ fmt_X (unat ProtocolMagic))"
| "header_go_error (UnsupportedVersion v) = Errorf (''unsupported protocol version: '' @ fmt_d (uint v))"

definition getCompressorByType :: "byte \<Rightarrow> Compressor registry \<Rightarrow> Compressor option" where
  "getCompressorByType compressType comps =
     (case GetCompressor compressType comps of
        None \<Rightarrow> GetCompressor CompressTypeNone comps
      | Some c \<Rightarrow> Some c)"

definition DecodeFromReader :: "Compressor registry \<Rightarrow> bytes \<Rightarrow> (Header \<times> bytes) result \<times> bytes" where
  "DecodeFromReader comps r =
     (case ReadFull HeaderLength r of
        (Inl e, r1) \<Rightarrow> (Err (Wrapped ''read header error: '' e ''''), r1)
      | (Inr headerBytes, r1) \<Rightarrow>
          (case Header_Decode zero_Header headerBytes of
             (_, Some e) \<Rightarrow> (Err (Wrapped ''decode header error: '' (header_go_error e) ''''), r1)
           | (header, None) \<Rightarrow>
               (case ReadFull (unat (h_BodyLength header)) r1 of
                  (Inl e, r2) \<Rightarrow> (Err (Wrapped ''read body error: '' e ''''), r2)
                | (Inr bodyBytes, r2) \<Rightarrow>
                    (res_bind (deref (getCompressorByType (h_Compress header) comps)) (\<lambda>cp.
                     res_bind (ctx_err ''decompress body error: '' (Decompress cp bodyBytes)) (\<lambda>body.
                       Ok (header, body))), r2))))"

definition DecodeRequestWith :: "('m, 'v) Codec registry \<Rightarrow> byte \<Rightarrow> bytes \<Rightarrow> ('m, 'v) Request result" where
  "DecodeRequestWith codecs codecType data =
     res_bind (deref (codec_GetOrDefault codecType codecs)) (\<lambda>c.
       ctx_err ''decode request error: '' (DecodeReq c data zero_Request))"

definition DecodeResponseWith :: "('m, 'v) Codec registry \<Rightarrow> byte \<Rightarrow> bytes \<Rightarrow> ('m, 'v) Response result" where
  "DecodeResponseWith codecs codecType data =
     res_bind (deref (codec_GetOrDefault codecType codecs)) (\<lambda>c.
       ctx_err ''decode response error: '' (DecodeResp c data zero_Response))"

definition DecodeRequest :: "('m, 'v) Codec registry \<Rightarrow> ('m, 'v) ProtocolCodec \<Rightarrow> bytes \<Rightarrow> ('m, 'v) Request result" where
  "DecodeRequest codecs pc data = DecodeRequestWith codecs (pc_codecType pc) data"

definition DecodeResponse :: "('m, 'v) Codec registry \<Rightarrow> ('m, 'v) ProtocolCodec \<Rightarrow> bytes \<Rightarrow> ('m, 'v) Response result" where
  "DecodeResponse codecs pc data = DecodeResponseWith codecs (pc_codecType pc) data"

definition WriteFrame ::
    "string \<Rightarrow> ('w \<Rightarrow> bytes \<Rightarrow> 'w \<times> nat \<times> go_error option) \<Rightarrow> bytes result \<Rightarrow> 'w \<Rightarrow> ('w \<times> unit result) option" where
  "WriteFrame what Write data w =
     (case data of
        Err e \<Rightarrow> Some (w, Err (Wrapped (''encode '' @ what @ '' error: '') e ''''))
      | RPanic \<Rightarrow> Some (w, RPanic)
      | Ok bs \<Rightarrow>
          map_option (\<lambda>(w1, r). (w1, case r of
              WriteOk \<Rightarrow> Ok ()
            | WriteErr e \<Rightarrow> Err (Wrapped (''write '' @ what @ '' error: '') e '''')
            | WritePanic \<Rightarrow> RPanic)) (writeFull Write bs w))"

definition WriteRequest where
  "WriteRequest pc Write req w = WriteFrame ''request'' Write (EncodeRequest pc req) w"

definition WriteResponse where
  "WriteResponse pc Write resp w = WriteFrame ''response'' Write (EncodeResponse pc resp) w"

definition ReadRequest ::
    "('m, 'v) Codec registry \<Rightarrow> Compressor registry \<Rightarrow> bytes \<Rightarrow> (Header \<times> ('m, 'v) Request) result \<times> bytes" where
  "ReadRequest codecs comps r =
     (case DecodeFromReader comps r of
        (res, r1) \<Rightarrow>
          (res_bind (ctx_res ''decode request error: '' res) (\<lambda>(header, bodyData).
             if h_MsgType header \<noteq> MsgTypeRequest
             then Err (Errorf (''message type error, expected '' @ MessageType_String MsgTypeRequest
               @ '', got '' @ MessageType_String (h_MsgType header)))
             else res_bind (ctx_res ''decode request error: '' (DecodeRequestWith codecs (h_Codec header) bodyData)) (\<lambda>req.
               Ok (header, req))), r1))"

definition ReadResponse ::
    "('m, 'v) Codec registry \<Rightarrow> Compressor registry \<Rightarrow> bytes \<Rightarrow> (Header \<times> ('m, 'v) Response) result \<times> bytes" where
  "ReadResponse codecs comps r =
     (case DecodeFromReader comps r of
        (res, r1) \<Rightarrow>
          (res_bind (ctx_res ''decode response error: '' res) (\<lambda>(header, bodyData).
             if h_MsgType header \<noteq> MsgTypeResponse
             then Err (Errorf (''message type error, expected '' @ MessageType_String MsgTypeResponse
               @ '', got '' @ MessageType_String (h_MsgType header)))
             else res_bind (ctx_res ''decode response error: '' (DecodeResponseWith codecs (h_Codec header) bodyData)) (\<lambda>resp.
               Ok (header, resp))), r1))"

section \<open>The length-prefixed stream codec\<close>

definition pb_EncodeToWriter ::
    "('m, 'v) lib \<Rightarrow> ('w \<Rightarrow> bytes \<Rightarrow> 'w \<times> go_error option) \<Rightarrow> ('m, 'v) any \<Rightarrow> 'w \<Rightarrow> 'w \<times> go_error option" where
  "pb_EncodeToWriter lib Write v w =
     (case pb_Encode lib v of
        Inl e \<Rightarrow> (w, Some (Wrapped ''encode failed: '' e ''''))
      | Inr data \<Rightarrow>
          (case Write w (PutUint32 (of_nat (length data))) of
             (w1, Some e) \<Rightarrow> (w1, Some (Wrapped ''write length failed: '' e ''''))
           | (w1, None) \<Rightarrow>
               (case Write w1 data of
                  (w2, Some e) \<Rightarrow> (w2, Some (Wrapped ''write data failed: '' e ''''))
                | (w2, None) \<Rightarrow> (w2, None))))"

definition pb_DecodeFromReader ::
    "('m, 'v) lib \<Rightarrow> bytes \<Rightarrow> ('m, 'v) any \<Rightarrow> ('m, 'v) any or_error \<times> bytes" where
  "pb_DecodeFromReader lib r v =
     (case ReadFull 4 r of
        (Inl e, r1) \<Rightarrow> (Inl (Wrapped ''read length failed: '' e ''''), r1)
      | (Inr lengthBuf, r1) \<Rightarrow>
          (let len = be32 lengthBuf in
           if unat len > 100 * 1024 * 1024
           then (Inl (Errorf (''message too large: '' @ fmt_d (uint len) @ '' bytes'')), r1)
           else (case ReadFull (unat len) r1 of
                   (Inl e, r2) \<Rightarrow> (Inl (Wrapped ''read data failed: '' e ''''), r2)
                 | (Inr data, r2) \<Rightarrow> (pb_Decode lib data v, r2))))"

section \<open>Writing\<close>

lemma writeFull_chunks:
  assumes "\<And>w b. b \<noteq> [] \<Longrightarrow> 0 < k w b \<and> k w b \<le> length b"
  shows "writeFull (\<lambda>w b. (w @ take (k w b) b, k w b, None)) b w = Some (w @ b, WriteOk)"
proof (induction b arbitrary: w rule: length_induct)
  case (1 b)
  show ?case
  proof (cases "b = []")
    case True
    then show ?thesis
      by (simp add: writeFull.simps)
  next
    case False
    then have "length (drop (k w b) b) < length b" "\<not> k w b > length b"
      using assms [of b w] by auto
    then show ?thesis
      using 1 False by (subst writeFull.simps) simp
  qed
qed

section \<open>Reading a frame back\<close>

lemma ReadFull_append [simp]: "length xs = n \<Longrightarrow> ReadFull n (xs @ r) = (Inr xs, r)"
  by (simp add: ReadFull_def)

lemma DecodeFromReader_frame:
  assumes "length body < 2 ^ 32" and "getCompressorByType (pc_compressType pc) comps = Some cp"
    and "Decompress cp body = Inr d"
  shows "DecodeFromReader comps (frame pc t i body @ rest)
    = (Ok ((NewHeader t (pc_codecType pc) i (of_nat (length body)))\<lparr>h_Compress := pc_compressType pc\<rparr>, d), rest)"
proof -
  let ?h = "(NewHeader t (pc_codecType pc) i (of_nat (length body)))\<lparr>h_Compress := pc_compressType pc\<rparr>"
  have len: "unat (of_nat (length body) :: u32) = length body"
    using assms(1) by (simp add: unat_of_nat take_bit_nat_eq_self)
  have "ReadFull HeaderLength (frame pc t i body @ rest) = (Inr (Header_Encode ?h), body @ rest)"
    by (simp add: frame_def Let_def)
  moreover have "Header_Decode zero_Header (Header_Encode ?h) = (?h, None)"
    using Header_Decode_Encode [of ?h zero_Header "[]"] by simp
  moreover have "ReadFull (unat (h_BodyLength ?h)) (body @ rest) = (Inr body, rest)"
    using len by (simp add: NewHeader_def)
  ultimately show ?thesis
    using assms(2,3)
    by (simp add: DecodeFromReader_def deref_def ctx_err_def)
qed

lemma EncodeRequest_Ok:
  assumes "EncodeRequest pc req = Ok bs"
  obtains c cp body x where "pc_codec pc = Some c" "EncodeReq c req = Inr body" "pc_compressor pc = Some cp"
    "Compress cp body = Inr x" "bs = frame pc MsgTypeRequest (rq_ID req) x"
  using assms
  by (auto simp: EncodeRequest_def deref_def ctx_err_def split: option.splits sum.splits)

lemma EncodeResponse_Ok:
  assumes "EncodeResponse pc resp = Ok bs"
  obtains c cp body x where "pc_codec pc = Some c" "EncodeResp c resp = Inr body" "pc_compressor pc = Some cp"
    "Compress cp body = Inr x" "bs = frame pc MsgTypeResponse (rs_ID resp) x"
  using assms
  by (auto simp: EncodeResponse_def deref_def ctx_err_def split: option.splits sum.splits)

lemma length_frame: "length (frame pc t i body) = HeaderLength + length body"
  by (simp add: frame_def Let_def)

text \<open>The receiver looks up the same compressor as the sender, whatever the type byte.\<close>

lemma same_compressor: "getCompressorByType z comps = GetCompressorOrNone z comps"
  by (simp add: getCompressorByType_def GetCompressorOrNone_def)

context body_codec
begin

lemma frame_request_back:
  assumes msg: "visits lib (rq_Metadata req)" "encode_payload lib args_labels (rq_ArgsCodec req) (rq_Args req) = Inr p"
      "request_to_wire lib req = Inr w" "okq lib w"
    and reg: "codec_GetOrDefault ct codecs = Some (codec lib)"
    and comp: "\<And>cp d x. GetCompressorOrNone zt comps = Some cp \<Longrightarrow> Compress cp d = Inr x \<Longrightarrow> Decompress cp x = Inr d"
    and enc: "EncodeRequest (NewProtocolCodec codecs comps ct zt) req = Ok bs" and len: "length bs < 2 ^ 32"
  shows "\<exists>h. ReadRequest codecs comps (bs @ rest) = (Ok (h, received_request p req), rest)
    \<and> h_RequestID h = rq_ID req \<and> h_Codec h = ct \<and> h_Compress h = zt"
proof -
  let ?pc = "NewProtocolCodec codecs comps ct zt"
  obtain c cp body x where e: "pc_codec ?pc = Some c" "EncodeReq c req = Inr body" "pc_compressor ?pc = Some cp"
    "Compress cp body = Inr x" "bs = frame ?pc MsgTypeRequest (rq_ID req) x"
    by (rule EncodeRequest_Ok [OF enc])
  have c: "c = codec lib" "GetCompressorOrNone zt comps = Some cp"
    using e(1,3) reg by (simp_all add: NewProtocolCodec_def)
  have dec: "DecodeReq (codec lib) body zero_Request = Inr (received_request p req)"
    using request_back [OF msg] e(2) c(1) by simp
  have len': "length x < 2 ^ 32"
    using len e(5) by (simp add: length_frame)
  have "DecodeFromReader comps (bs @ rest)
    = (Ok ((NewHeader MsgTypeRequest ct (rq_ID req) (of_nat (length x)))\<lparr>h_Compress := zt\<rparr>, body), rest)"
    using DecodeFromReader_frame [OF len', of ?pc comps cp body] comp [OF c(2) e(4)] c(2) e(5)
    by (simp add: same_compressor NewProtocolCodec_def)
  then show ?thesis
    using dec reg by (simp add: ReadRequest_def ctx_res_def DecodeRequestWith_def deref_def ctx_err_def NewHeader_def)
qed

lemma frame_response_back:
  assumes msg: "visits lib (rs_Metadata resp)" "encode_payload lib data_labels (rs_DataCodec resp) (rs_Data resp) = Inr p"
      "response_to_wire lib resp = Inr w" "okr lib w"
    and reg: "codec_GetOrDefault ct codecs = Some (codec lib)"
    and comp: "\<And>cp d x. GetCompressorOrNone zt comps = Some cp \<Longrightarrow> Compress cp d = Inr x \<Longrightarrow> Decompress cp x = Inr d"
    and enc: "EncodeResponse (NewProtocolCodec codecs comps ct zt) resp = Ok bs" and len: "length bs < 2 ^ 32"
  shows "\<exists>h. ReadResponse codecs comps (bs @ rest) = (Ok (h, received_response p resp), rest)
    \<and> h_RequestID h = rs_ID resp \<and> h_Codec h = ct \<and> h_Compress h = zt"
proof -
  let ?pc = "NewProtocolCodec codecs comps ct zt"
  obtain c cp body x where e: "pc_codec ?pc = Some c" "EncodeResp c resp = Inr body" "pc_compressor ?pc = Some cp"
    "Compress cp body = Inr x" "bs = frame ?pc MsgTypeResponse (rs_ID resp) x"
    by (rule EncodeResponse_Ok [OF enc])
  have c: "c = codec lib" "GetCompressorOrNone zt comps = Some cp"
    using e(1,3) reg by (simp_all add: NewProtocolCodec_def)
  have dec: "DecodeResp (codec lib) body zero_Response = Inr (received_response p resp)"
    using response_back [OF msg] e(2) c(1) by simp
  have len': "length x < 2 ^ 32"
    using len e(5) by (simp add: length_frame)
  have "DecodeFromReader comps (bs @ rest)
    = (Ok ((NewHeader MsgTypeResponse ct (rs_ID resp) (of_nat (length x)))\<lparr>h_Compress := zt\<rparr>, body), rest)"
    using DecodeFromReader_frame [OF len', of ?pc comps cp body] comp [OF c(2) e(4)] c(2) e(5)
    by (simp add: same_compressor NewProtocolCodec_def)
  then show ?thesis
    using dec reg by (simp add: ReadResponse_def ctx_res_def DecodeResponseWith_def deref_def ctx_err_def NewHeader_def)
qed

end

section \<open>Properties of the framing\<close>

text \<open>A message the libraries carry faithfully, with the payload it is encoded to.\<close>

definition request_ok :: "('m, 'v) lib \<Rightarrow> ('m, 'v) Request \<Rightarrow> bytes \<times> PayloadCodec \<Rightarrow> bool" where
  "request_ok lib req p \<longleftrightarrow> visits lib (rq_Metadata req)
     \<and> encode_payload lib args_labels (rq_ArgsCodec req) (rq_Args req) = Inr p
     \<and> (\<exists>w. request_to_wire lib req = Inr w \<and> json_request_faithful lib w \<and> pb_request_faithful lib w)"

definition response_ok :: "('m, 'v) lib \<Rightarrow> ('m, 'v) Response \<Rightarrow> bytes \<times> PayloadCodec \<Rightarrow> bool" where
  "response_ok lib resp p \<longleftrightarrow> visits lib (rs_Metadata resp)
     \<and> encode_payload lib data_labels (rs_DataCodec resp) (rs_Data resp) = Inr p
     \<and> (\<exists>w. response_to_wire lib resp = Inr w \<and> json_response_faithful lib w \<and> pb_response_faithful lib w)"

definition gzip_inverts :: "('m, 'v) lib \<Rightarrow> bool" where
  "gzip_inverts lib \<longleftrightarrow>
     (\<forall>d x. gzip_Close lib (-1) d = Inr x \<longrightarrow> gzip_NewReader lib x = None \<and> gzip_ReadAll lib x = Inr d)"

lemma builtin_codec:
  assumes "init_codecs lib = Some codecs"
  shows "codec_GetOrDefault ct codecs \<in> {Some (NewJSONCodec lib), Some (NewProtobufCodec lib)}"
  using assms unfolding init_codecs_eq by (auto simp: codec_GetOrDefault_def codec_Get_def split: if_splits)

lemma builtin_compressor:
  assumes "init_compressors lib = Some comps" and "gzip_inverts lib"
    and "GetCompressorOrNone zt comps = Some cp" and "Compress cp d = Inr x"
  shows "Decompress cp x = Inr d"
  using assms unfolding init_compressors_eq
  by (auto simp: GetCompressorOrNone_def GetCompressor_def NewNoneCompressor_def NewGzipCompressor_def
      gzip_inverts_def gzip_Compress_def gzip_Decompress_def wrap_err_def split: if_splits option.splits sum.splits)

lemma read_request_back:
  assumes "init_codecs lib = Some codecs" and "init_compressors lib = Some comps" and "gzip_inverts lib"
    and "request_ok lib req p" and "EncodeRequest (NewProtocolCodec codecs comps ct zt) req = Ok bs" and "length bs < 2 ^ 32"
  shows "\<exists>h. ReadRequest codecs comps (bs @ rest) = (Ok (h, received_request p req), rest)
    \<and> h_RequestID h = rq_ID req \<and> h_Codec h = ct \<and> h_Compress h = zt"
proof -
  obtain w where w: "visits lib (rq_Metadata req)" "encode_payload lib args_labels (rq_ArgsCodec req) (rq_Args req) = Inr p"
    "request_to_wire lib req = Inr w" "json_request_faithful lib w" "pb_request_faithful lib w"
    using assms(4) by (auto simp: request_ok_def)
  note comp = builtin_compressor [OF assms(2,3)]
  show ?thesis
  proof (cases "codec_GetOrDefault ct codecs = Some (NewJSONCodec lib)")
    case True
    show ?thesis
      by (rule json.frame_request_back [OF w(1-4) True _ assms(5,6)]) (rule comp)
  next
    case False
    then have pb: "codec_GetOrDefault ct codecs = Some (NewProtobufCodec lib)"
      using builtin_codec [OF assms(1), of ct] by blast
    show ?thesis
      by (rule protobuf.frame_request_back [OF w(1-3,5) pb _ assms(5,6)]) (rule comp)
  qed
qed

lemma read_response_back:
  assumes "init_codecs lib = Some codecs" and "init_compressors lib = Some comps" and "gzip_inverts lib"
    and "response_ok lib resp p" and "EncodeResponse (NewProtocolCodec codecs comps ct zt) resp = Ok bs" and "length bs < 2 ^ 32"
  shows "\<exists>h. ReadResponse codecs comps (bs @ rest) = (Ok (h, received_response p resp), rest)
    \<and> h_RequestID h = rs_ID resp \<and> h_Codec h = ct \<and> h_Compress h = zt"
proof -
  obtain w where w: "visits lib (rs_Metadata resp)" "encode_payload lib data_labels (rs_DataCodec resp) (rs_Data resp) = Inr p"
    "response_to_wire lib resp = Inr w" "json_response_faithful lib w" "pb_response_faithful lib w"
    using assms(4) by (auto simp: response_ok_def)
  note comp = builtin_compressor [OF assms(2,3)]
  show ?thesis
  proof (cases "codec_GetOrDefault ct codecs = Some (NewJSONCodec lib)")
    case True
    show ?thesis
      by (rule json.frame_response_back [OF w(1-4) True _ assms(5,6)]) (rule comp)
  next
    case False
    then have pb: "codec_GetOrDefault ct codecs = Some (NewProtobufCodec lib)"
      using builtin_codec [OF assms(1), of ct] by blast
    show ?thesis
      by (rule protobuf.frame_response_back [OF w(1-3,5) pb _ assms(5,6)]) (rule comp)
  qed
qed

text \<open>Reading \<open>n\<close> requests from a stream.\<close>

primrec read_requests ::
    "('m, 'v) Codec registry \<Rightarrow> Compressor registry \<Rightarrow> nat \<Rightarrow> bytes \<Rightarrow> (Header \<times> ('m, 'v) Request) result list \<times> bytes" where
  "read_requests codecs comps 0 r = ([], r)"
| "read_requests codecs comps (Suc n) r =
     (case ReadRequest codecs comps r of (x, r1) \<Rightarrow> (case read_requests codecs comps n r1 of (xs, r2) \<Rightarrow> (x # xs, r2)))"

text \<open>
  (C10) Framing is transparent for a stream of requests: whatever codec and compression byte each
  request was framed with, known or not, reading the concatenated frames gives the requests in order,
  each with the header that was sent for it, and leaves exactly what followed them.
\<close>

theorem request_stream_roundtrip:
  assumes "init_codecs lib = Some codecs" and "init_compressors lib = Some comps" and "gzip_inverts lib"
    and "\<forall>(req, p, ct, zt, bs) \<in> set ms. request_ok lib req p
      \<and> EncodeRequest (NewProtocolCodec codecs comps ct zt) req = Ok bs \<and> length bs < 2 ^ 32"
  shows "\<exists>hs. read_requests codecs comps (length ms) (concat (map (\<lambda>(_, _, _, _, bs). bs) ms) @ rest)
      = (map (\<lambda>(h, req, p, _). Ok (h, received_request p req)) (zip hs ms), rest)
    \<and> list_all2 (\<lambda>h (req, _, ct, zt, _). h_RequestID h = rq_ID req \<and> h_Codec h = ct \<and> h_Compress h = zt) hs ms"
  using assms(4)
proof (induction ms)
  case (Cons m ms)
  obtain req p ct zt bs where m: "m = (req, p, ct, zt, bs)"
    by (cases m) auto
  let ?tail = "concat (map (\<lambda>(_, _, _, _, bs). bs) ms) @ rest"
  obtain h where h: "ReadRequest codecs comps (bs @ ?tail) = (Ok (h, received_request p req), ?tail)"
    "h_RequestID h = rq_ID req" "h_Codec h = ct" "h_Compress h = zt"
    using read_request_back [OF assms(1-3), of req p ct zt bs ?tail] Cons.prems m by auto
  obtain hs where "read_requests codecs comps (length ms) ?tail
      = (map (\<lambda>(h, req, p, _). Ok (h, received_request p req)) (zip hs ms), rest)"
    "list_all2 (\<lambda>h (req, _, ct, zt, _). h_RequestID h = rq_ID req \<and> h_Codec h = ct \<and> h_Compress h = zt) hs ms"
    using Cons by auto
  then show ?case
    using h m by (intro exI [of _ "h # hs"]) simp
qed simp

lemma sample_request_ok: "request_ok sample_lib sample_rq ([1, 2], PayloadCodecRaw)"
  using sample_facts(1,3,5)
  by (auto simp: request_ok_def json_request_faithful_def pb_request_faithful_def sample_defs norm_md_def md_map_def)

lemma sample_response_ok: "response_ok sample_lib sample_rs ([9], PayloadCodecRaw)"
  using sample_facts(2,4,6)
  by (auto simp: response_ok_def json_response_faithful_def pb_response_faithful_def sample_defs norm_md_def md_map_def)

definition sample_codecs :: "(unit, unit) Codec registry" where
  "sample_codecs = [CodecTypeJSON \<mapsto> NewJSONCodec sample_lib, CodecTypeProtobuf \<mapsto> NewProtobufCodec sample_lib]"

definition sample_comps :: "Compressor registry" where
  "sample_comps = [CompressTypeNone \<mapsto> NewNoneCompressor, CompressTypeGzip \<mapsto> NewGzipCompressor sample_lib (-1)]"

lemmas sample_codec_defs = NewProtocolCodec_def sample_codecs_def sample_comps_def codec_GetOrDefault_def codec_Get_def
  GetCompressorOrNone_def GetCompressor_def CodecTypeJSON_def CodecTypeProtobuf_def CompressTypeNone_def CompressTypeGzip_def

lemma sample_encode:
  "EncodeRequest (NewProtocolCodec sample_codecs sample_comps 1 1) sample_rq
     = Ok (frame (NewProtocolCodec sample_codecs sample_comps 1 1) MsgTypeRequest 7 [31, 3])"
  "EncodeResponse (NewProtocolCodec sample_codecs sample_comps 0 9) sample_rs
     = Ok (frame (NewProtocolCodec sample_codecs sample_comps 0 9) MsgTypeResponse 7 [2])"
proof -
  have "EncodeReq (NewProtobufCodec sample_lib) sample_rq = Inr [3]" "EncodeResp (NewJSONCodec sample_lib) sample_rs = Inr [2]"
    by (simp_all add: pb_encodeRequest_def json_encodeResponse_def sample_facts bind_err_def wrap_err_def) (simp_all add: sample_lib_def)
  moreover have "Compress (NewGzipCompressor sample_lib (-1)) [3] = Inr [31, 3]"
    by (simp add: NewGzipCompressor_def gzip_Compress_def wrap_err_def sample_lib_def)
  moreover have "rq_ID sample_rq = 7" "rs_ID sample_rs = 7"
    by (simp_all add: sample_defs)
  ultimately show
    "EncodeRequest (NewProtocolCodec sample_codecs sample_comps 1 1) sample_rq
     = Ok (frame (NewProtocolCodec sample_codecs sample_comps 1 1) MsgTypeRequest 7 [31, 3])"
    "EncodeResponse (NewProtocolCodec sample_codecs sample_comps 0 9) sample_rs
     = Ok (frame (NewProtocolCodec sample_codecs sample_comps 0 9) MsgTypeResponse 7 [2])"
    by (simp_all add: EncodeRequest_def EncodeResponse_def sample_codec_defs deref_def ctx_err_def NewNoneCompressor_def)
qed

theorem request_stream_roundtrip_witness:
  "\<exists>hs. read_requests sample_codecs sample_comps 2
       (frame (NewProtocolCodec sample_codecs sample_comps 1 1) MsgTypeRequest 7 [31, 3]
        @ frame (NewProtocolCodec sample_codecs sample_comps 1 1) MsgTypeRequest 7 [31, 3] @ [255])
     = (map (\<lambda>h. Ok (h, received_request ([1, 2], PayloadCodecRaw) sample_rq)) hs, [255])"
proof -
  let ?f = "frame (NewProtocolCodec sample_codecs sample_comps 1 1) MsgTypeRequest 7 [31, 3]"
  let ?m = "(sample_rq, ([1, 2] :: bytes, PayloadCodecRaw), 1 :: byte, 1 :: byte, ?f)"
  have lib: "init_codecs sample_lib = Some sample_codecs" "init_compressors sample_lib = Some sample_comps"
    "gzip_inverts sample_lib"
    by (simp_all add: init_codecs_eq init_compressors_eq sample_codecs_def sample_comps_def)
      (simp add: gzip_inverts_def sample_lib_def)
  have "\<forall>(req, p, ct, zt, bs) \<in> set [?m, ?m]. request_ok sample_lib req p
      \<and> EncodeRequest (NewProtocolCodec sample_codecs sample_comps ct zt) req = Ok bs \<and> length bs < 2 ^ 32"
    using sample_encode(1) sample_request_ok by (simp add: length_frame HeaderLength_def)
  from request_stream_roundtrip [OF lib this, of "[255]"]
  obtain hs where hs: "read_requests sample_codecs sample_comps (length [?m, ?m]) (?f @ ?f @ [255])
      = (map (\<lambda>(h, req, p, _). Ok (h, received_request p req)) (zip hs [?m, ?m]), [255])" and "length hs = length [?m, ?m]"
    by (auto simp del: read_requests.simps list.size dest: list_all2_lengthD)
  then obtain h1 h2 where "hs = [h1, h2]"
    by (auto simp: length_Suc_conv)
  with hs show ?thesis
    by (intro exI [of _ hs]) (simp add: numeral_2_eq_2 del: read_requests.simps)
qed

text \<open>
  A writer that keeps to \<open>io.Writer\<close>: \<open>acc\<close> is what it has accepted so far, and it accepts \<open>n\<close> bytes of
  the buffer, at least one when it reports no error.
\<close>

definition honest_writer :: "('w \<Rightarrow> bytes \<Rightarrow> 'w \<times> nat \<times> go_error option) \<Rightarrow> ('w \<Rightarrow> bytes) \<Rightarrow> bool" where
  "honest_writer Write acc \<longleftrightarrow>
     (\<forall>w b. case Write w b of (w1, n, e) \<Rightarrow>
        acc w1 = acc w @ take n b \<and> n \<le> length b \<and> (e = None \<and> b \<noteq> [] \<longrightarrow> 0 < n))"

lemma honest_writerD:
  assumes "honest_writer Write acc" and "Write w b = (w1, n, e)"
  shows "acc w1 = acc w @ take n b" "n \<le> length b" "e = None \<Longrightarrow> b \<noteq> [] \<Longrightarrow> 0 < n"
  using assms unfolding honest_writer_def by (metis (mono_tags, lifting) case_prod_conv)+

lemma writeFull_spins:
  assumes "writeFull Write b w = Some y" and "Write = (\<lambda>w b. (w, 0, None))"
  shows "b = []"
  using assms
  by (induction rule: writeFull.raw_induct [rotated 1, consumes 1]) (auto split: if_splits)

text \<open>
  (C37) \<open>writeFull\<close> returns for every writer that makes progress, after any sequence of short writes:
  on success exactly the data has been delivered, on an error a proper or full prefix of it, and it
  never panics. A writer that accepts nothing without an error is called forever.
\<close>

theorem writeFull_delivers:
  "(\<forall>acc. honest_writer Write acc \<longrightarrow>
      (\<exists>w' r. writeFull Write b w = Some (w', r)
        \<and> (case r of WriteOk \<Rightarrow> acc w' = acc w @ b
           | WriteErr e \<Rightarrow> \<exists>m \<le> length b. acc w' = acc w @ take m b
           | WritePanic \<Rightarrow> False)))
   \<and> (b \<noteq> [] \<longrightarrow> writeFull (\<lambda>w b. (w, 0, None)) b w = None)"
proof (intro conjI allI impI)
  fix acc
  assume honest: "honest_writer Write acc"
  show "\<exists>w' r. writeFull Write b w = Some (w', r)
        \<and> (case r of WriteOk \<Rightarrow> acc w' = acc w @ b
           | WriteErr e \<Rightarrow> \<exists>m \<le> length b. acc w' = acc w @ take m b
           | WritePanic \<Rightarrow> False)"
  proof (induction b arbitrary: w rule: length_induct)
    case (1 b)
    obtain w1 n e where W: "Write w b = (w1, n, e)"
      by (metis prod_cases3)
    note h = honest_writerD [OF honest W]
    show ?case
    proof (cases "b = [] \<or> e \<noteq> None")
      case True
      then show ?thesis
        using W h by (subst writeFull.simps) (auto split: option.splits)
    next
      case False
      then have "length (drop n b) < length b"
        using h by auto
      then obtain w' r where rec: "writeFull Write (drop n b) w1 = Some (w', r)"
        "case r of WriteOk \<Rightarrow> acc w' = acc w1 @ drop n b
           | WriteErr e \<Rightarrow> \<exists>m \<le> length (drop n b). acc w' = acc w1 @ take m (drop n b) | WritePanic \<Rightarrow> False"
        using 1 by blast
      have step: "writeFull Write b w = writeFull Write (drop n b) w1"
        using False W h(2) by (subst writeFull.simps) auto
      show ?thesis
      proof (cases r)
        case (WriteErr e')
        then obtain m where "m \<le> length b - n" "acc w' = acc w @ take (n + m) b"
          using rec h(1) by (auto simp: take_add)
        then show ?thesis
          using rec(1) step WriteErr h(2) by (auto intro!: exI [of _ "n + m"])
      qed (use rec step h(1) in auto)
    qed
  qed
next
  assume "b \<noteq> []"
  show "writeFull (\<lambda>w b. (w, 0, None)) b w = None"
  proof (rule ccontr)
    assume "writeFull (\<lambda>w b. (w, 0, None)) b w \<noteq> None"
    then obtain y where "writeFull (\<lambda>w b. (w, 0, None)) b w = Some y"
      by (elim not_None_eq [THEN iffD1, THEN exE])
    from writeFull_spins [OF this refl] show False
      using \<open>b \<noteq> []\<close> by contradiction
  qed
qed

theorem writeFull_delivers_witness:
  "\<exists>w' r. writeFull (\<lambda>w b. (w @ take 2 b, min 2 (length b), None)) [1, 2, 3] [9] = Some (w', r)
     \<and> (case r of WriteOk \<Rightarrow> w' = [9, 1, 2, 3] | WriteErr e \<Rightarrow> \<exists>m \<le> 3. w' = [9] @ take m [1, 2, 3] | WritePanic \<Rightarrow> False)"
proof -
  have "honest_writer (\<lambda>w b. (w @ take 2 b, min 2 (length b), None)) id"
    by (auto simp: honest_writer_def min_def)
  from writeFull_delivers [THEN conjunct1, rule_format, OF this, of "[1, 2, 3]" "[9]"] show ?thesis
    by (simp add: numeral_3_eq_3 cong: write_outcome.case_cong)
qed

end
