(* ===== verification/Transport_Options.thy ===== *)
theory Transport_Options
  imports RPC_Prelude
begin

text \<open>
  The transport options (\<open>pkg/transport/options.go\<close>) and the text of a \<open>time.Duration\<close>. A functional
  option is a function on the options record; a constructor applies its options from left to right.
\<close>

section \<open>Durations as text\<close>

definition Minute :: duration where
  "Minute = 60 * Second"

definition Hour :: duration where
  "Hour = 60 * Minute"

text \<open>The first \<open>prec\<close> decimals of \<open>v\<close>, without trailing zeros, and with the point if any is left.\<close>

primrec frac_digits :: "nat \<Rightarrow> nat \<Rightarrow> string" where
  "frac_digits 0 v = []"
| "frac_digits (Suc prec) v = frac_digits prec (v div 10) @ [digit_char (v mod 10)]"

lemma frac_digits_numeral [simp]:
  "frac_digits (numeral k) v = frac_digits (pred_numeral k) (v div 10) @ [digit_char (v mod 10)]"
  by (simp only: numeral_eq_Suc [of k] frac_digits.simps)

definition fmtFrac :: "nat \<Rightarrow> nat \<Rightarrow> string" where
  "fmtFrac v prec =
     (let ds = rev (dropWhile (\<lambda>c. c = CHR ''0'') (rev (frac_digits prec v)))
      in if ds = [] then [] else CHR ''.'' # ds)"

definition Duration_String :: "duration \<Rightarrow> string" where
  "Duration_String d =
     (let u = nat (abs d); sign = (if d < 0 then ''-'' else []) in
      if u = 0 then ''0s''
      else if u < nat Microsecond then sign @ nat_base 10 u @ ''ns''
      else if u < nat Millisecond then sign @ nat_base 10 (u div 1000) @ fmtFrac u 3 @ [CHR 0xC2, CHR 0xB5, CHR ''s'']
      else if u < nat Second then sign @ nat_base 10 (u div 1000000) @ fmtFrac u 6 @ ''ms''
      else
        let secs = u div 1000000000; tail = nat_base 10 (secs mod 60) @ fmtFrac u 9 @ ''s'' in
        if secs < 60 then sign @ tail
        else if secs < 3600 then sign @ nat_base 10 (secs div 60) @ ''m'' @ tail
        else sign @ nat_base 10 (secs div 3600) @ ''h'' @ nat_base 10 (secs div 60 mod 60) @ ''m'' @ tail)"

section \<open>Functional options\<close>

definition apply_options :: "('o \<Rightarrow> 'o) list \<Rightarrow> 'o \<Rightarrow> 'o" where
  "apply_options options opts = fold (\<lambda>f. f) options opts"

lemma apply_options_simps [simp]:
  "apply_options [] d = d" "apply_options (f # fs) d = apply_options fs (f d)"
  "apply_options (fs @ gs) d = apply_options gs (apply_options fs d)"
  by (simp_all add: apply_options_def)

section \<open>Client options\<close>

record ClientOptions =
  tco_DialTimeout :: duration
  tco_KeepAlive :: bool
  tco_KeepAlivePeriod :: duration
  tco_ReadTimeout :: duration
  tco_WriteTimeout :: duration
  tco_MaxIdleConnDuration :: duration
  tco_ReadBufferSize :: int
  tco_WriteBufferSize :: int
  tco_MaxRetries :: int
  tco_RetryInterval :: duration

definition DefaultClientOptions :: ClientOptions where
  "DefaultClientOptions =
     \<lparr>tco_DialTimeout = 5 * Second, tco_KeepAlive = True, tco_KeepAlivePeriod = 30 * Second,
      tco_ReadTimeout = 10 * Second, tco_WriteTimeout = 10 * Second, tco_MaxIdleConnDuration = 90 * Second,
      tco_ReadBufferSize = 4 * 1024, tco_WriteBufferSize = 4 * 1024,
      tco_MaxRetries = 3, tco_RetryInterval = 100 * Millisecond\<rparr>"

type_synonym ClientOption = "ClientOptions \<Rightarrow> ClientOptions"

definition WithDialTimeout :: "duration \<Rightarrow> ClientOption" where
  "WithDialTimeout timeout opts = opts\<lparr>tco_DialTimeout := timeout\<rparr>"

definition WithReadTimeout :: "duration \<Rightarrow> ClientOption" where
  "WithReadTimeout timeout opts = opts\<lparr>tco_ReadTimeout := timeout\<rparr>"

definition WithWriteTimeout :: "duration \<Rightarrow> ClientOption" where
  "WithWriteTimeout timeout opts = opts\<lparr>tco_WriteTimeout := timeout\<rparr>"

definition WithKeepAlive :: "bool \<Rightarrow> duration \<Rightarrow> ClientOption" where
  "WithKeepAlive keepAlive period opts = opts\<lparr>tco_KeepAlive := keepAlive, tco_KeepAlivePeriod := period\<rparr>"

definition WithTransportRetry :: "int \<Rightarrow> duration \<Rightarrow> ClientOption" where
  "WithTransportRetry maxRetries interval opts = opts\<lparr>tco_MaxRetries := maxRetries, tco_RetryInterval := interval\<rparr>"

definition WithBufferSize :: "int \<Rightarrow> int \<Rightarrow> ClientOption" where
  "WithBufferSize readSize writeSize opts = opts\<lparr>tco_ReadBufferSize := readSize, tco_WriteBufferSize := writeSize\<rparr>"

section \<open>Server options\<close>

record ServerOptions =
  tso_ReadTimeout :: duration
  tso_WriteTimeout :: duration
  tso_HandlerTimeout :: duration
  tso_MaxConcurrentRequests :: int
  tso_WorkerPoolSize :: int
  tso_ReadBufferSize :: int
  tso_WriteBufferSize :: int
  tso_MaxRequestBodySize :: int
  tso_MaxConnections :: int

definition DefaultServerOptions :: ServerOptions where
  "DefaultServerOptions =
     \<lparr>tso_ReadTimeout = 10 * Second, tso_WriteTimeout = 10 * Second, tso_HandlerTimeout = 0,
      tso_MaxConcurrentRequests = 0, tso_WorkerPoolSize = 8, tso_ReadBufferSize = 4 * 1024,
      tso_WriteBufferSize = 4 * 1024, tso_MaxRequestBodySize = 10 * 1024 * 1024, tso_MaxConnections = 10000\<rparr>"

type_synonym ServerOption = "ServerOptions \<Rightarrow> ServerOptions"

definition WithServerTimeout :: "duration \<Rightarrow> duration \<Rightarrow> ServerOption" where
  "WithServerTimeout rd wr opts = opts\<lparr>tso_ReadTimeout := rd, tso_WriteTimeout := wr\<rparr>"

definition WithHandlerTimeout :: "duration \<Rightarrow> ServerOption" where
  "WithHandlerTimeout timeout opts = opts\<lparr>tso_HandlerTimeout := timeout\<rparr>"

definition WithMaxConcurrentRequests :: "int \<Rightarrow> ServerOption" where
  "WithMaxConcurrentRequests n opts = opts\<lparr>tso_MaxConcurrentRequests := n\<rparr>"

definition WithWorkerPool :: "int \<Rightarrow> ServerOption" where
  "WithWorkerPool n opts = opts\<lparr>tso_WorkerPoolSize := n\<rparr>"

definition WithServerBufferSize :: "int \<Rightarrow> int \<Rightarrow> ServerOption" where
  "WithServerBufferSize readSize writeSize opts = opts\<lparr>tso_ReadBufferSize := readSize, tso_WriteBufferSize := writeSize\<rparr>"

definition WithMaxRequestBodySize :: "int \<Rightarrow> ServerOption" where
  "WithMaxRequestBodySize n opts = opts\<lparr>tso_MaxRequestBodySize := n\<rparr>"

end
