(* ===== verification/Goroutines.thy ===== *)
theory Goroutines
  imports RPC_Prelude "HOL-Library.Multiset"
begin

text \<open>
  Sums over a list of goroutines, of which one takes a step: what the components that run
  concurrently use to account for the resources their goroutines hold.
\<close>

definition total_of :: "('p \<Rightarrow> 'a::comm_monoid_add) \<Rightarrow> 'p list \<Rightarrow> 'a" where
  "total_of f ps = sum_list (map f ps)"

lemma total_of_simps [simp]:
  "total_of f [] = 0" "total_of f (p # ps) = f p + total_of f ps" "total_of f (ps @ qs) = total_of f ps + total_of f qs"
  by (simp_all add: total_of_def)

lemma total_of_update: "g < length ps \<Longrightarrow> total_of f (ps[g := p]) + f (ps ! g) = total_of f ps + f p"
  by (induction ps arbitrary: g) (auto simp: ac_simps split: nat.splits)

lemma total_of_cong: "(\<And>p. p \<in> set ps \<Longrightarrow> f p = g p) \<Longrightarrow> total_of f ps = total_of g ps"
  by (induction ps) auto

lemma total_of_0: "(\<And>p. p \<in> set ps \<Longrightarrow> f p = 0) \<Longrightarrow> total_of f ps = 0"
  by (induction ps) auto

lemma total_of_member:
  fixes f :: "'p \<Rightarrow> 'a multiset"
  shows "k \<in># total_of f ps \<longleftrightarrow> (\<exists>p \<in> set ps. k \<in># f p)"
  by (induction ps) auto

lemma total_of_nth_le:
  fixes f :: "'p \<Rightarrow> 'a multiset"
  shows "g < length ps \<Longrightarrow> f (ps ! g) \<subseteq># total_of f ps"
proof (induction ps arbitrary: g)
  case (Cons p ps)
  then show ?case
    by (cases g) (auto intro: subset_mset.add_increasing)
qed simp

text \<open>The step of one goroutine that may start others.\<close>

lemma total_of_step:
  assumes "g < length ps"
  shows "total_of f (ps[g := p] @ qs) + f (ps ! g) = total_of f ps + (f p + total_of f qs)"
  using total_of_update [OF assms, of f p] by (simp add: ac_simps)

lemma set_step: "x \<in> set (ps[g := p] @ qs) \<Longrightarrow> x = p \<or> x \<in> set ps \<or> x \<in> set qs"
  using set_update_subset_insert [of ps g p] by auto

end
