(* ===== verification/TCP_Client.thy ===== *)
theory TCP_Client
  imports Frame_Codec Transport_Options Goroutines
begin

text \<open>
  The multiplexing TCP client (\<open>pkg/transport/tcp/client.go\<close>). The client struct and the objects it
  points to (pending calls, close channels) are one record; a pointer is an index into its lists.
  The methods are cut at their atomic sections (a lock held, an atomic add, a channel operation), and
  a goroutine is a program counter between two sections, so that every interleaving is a run.
\<close>

section \<open>State\<close>

text \<open>\<open>pd_id\<close> is not a field of the Go struct: it records under which ID the call was registered.\<close>

record pendingCall =
  pd_id :: u64
  pd_done :: bool
  pd_respBody :: bytes
  pd_respCodec :: byte
  pd_err :: "go_error option"

text \<open>
  \<open>tc_chans\<close> says of every close channel made so far whether it is closed. \<open>tc_received\<close>, the frames
  the read loops have taken off their connections, is kept for the statements below.
\<close>

record ('m, 'v) tcp_Client =
  tc_address :: string
  tc_opts :: ClientOptions
  tc_Codec :: "('m, 'v) ProtocolCodec"
  tc_conn :: "nat option"
  tc_connected :: bool
  tc_nextID :: u64
  tc_pending :: "(u64 \<rightharpoonup> nat) option"
  tc_closeCh :: "nat option"
  tc_closeOnce :: bool
  tc_calls :: "pendingCall list"
  tc_chans :: "bool list"
  tc_received :: "(u64 \<times> bytes \<times> byte) list"

definition tcp_NewClient ::
    "('m, 'v) Codec registry \<Rightarrow> Compressor registry \<Rightarrow> string \<Rightarrow> byte \<Rightarrow> byte \<Rightarrow> ClientOption list \<Rightarrow> ('m, 'v) tcp_Client" where
  "tcp_NewClient codecs comps address codecType compressType options =
     \<lparr>tc_address = address, tc_opts = apply_options options DefaultClientOptions,
      tc_Codec = NewProtocolCodec codecs comps codecType compressType,
      tc_conn = None, tc_connected = False, tc_nextID = 0, tc_pending = None, tc_closeCh = None, tc_closeOnce = False,
      tc_calls = [], tc_chans = [], tc_received = []\<rparr>"

section \<open>Dialling\<close>

text \<open>
  What the network does: the result of \<open>DialContext\<close> for a timeout, a keep-alive period and an address,
  whether the connection is a \<open>*net.TCPConn\<close>, the results of its socket options, and the printed remote
  address of a connection.
\<close>

record net_env =
  ne_Dial :: "duration \<Rightarrow> duration \<Rightarrow> string \<Rightarrow> nat or_error"
  ne_isTCP :: "nat \<Rightarrow> bool"
  ne_SetKeepAlive :: "nat \<Rightarrow> go_error option"
  ne_SetKeepAlivePeriod :: "nat \<Rightarrow> duration \<Rightarrow> go_error option"
  ne_SetNoDelay :: "nat \<Rightarrow> go_error option"
  ne_RemoteAddr :: "nat \<Rightarrow> string"

definition setup_socket :: "net_env \<Rightarrow> ClientOptions \<Rightarrow> nat \<Rightarrow> go_error option" where
  "setup_socket env opts conn =
     (if \<not> ne_isTCP env conn then None
      else case (if tco_KeepAlive opts then ne_SetKeepAlive env conn else None) of
        Some e \<Rightarrow> Some (Wrapped ''set keep-alive failed: '' e [])
      | None \<Rightarrow>
          (case (if tco_KeepAlive opts then ne_SetKeepAlivePeriod env conn (tco_KeepAlivePeriod opts) else None) of
             Some e \<Rightarrow> Some (Wrapped ''set keep-alive period failed: '' e [])
           | None \<Rightarrow>
               (case ne_SetNoDelay env conn of
                  Some e \<Rightarrow> Some (Wrapped ''set no delay failed: '' e [])
                | None \<Rightarrow> None)))"

text \<open>On success the result names the connection the new read loop reads from.\<close>

definition tcp_Dial :: "net_env \<Rightarrow> string \<Rightarrow> ('m, 'v) tcp_Client \<Rightarrow> ('m, 'v) tcp_Client \<times> nat or_error" where
  "tcp_Dial env address c =
     (if tc_connected c
      then (c, Inl (Errorf (''already connected to: '' @ (case tc_conn c of None \<Rightarrow> [] | Some k \<Rightarrow> ne_RemoteAddr env k))))
      else let addr = (if address = [] then tc_address c else address) in
        case ne_Dial env (tco_DialTimeout (tc_opts c)) (tco_KeepAlivePeriod (tc_opts c)) addr of
          Inl e \<Rightarrow> (c, Inl (Wrapped (''dial tcp '' @ addr @ '' failed: '') e []))
        | Inr conn \<Rightarrow>
            (case setup_socket env (tc_opts c) conn of
               Some e \<Rightarrow> (c, Inl e)
             | None \<Rightarrow>
                 (c\<lparr>tc_conn := Some conn, tc_connected := True, tc_address := addr, tc_pending := Some Map.empty,
                    tc_closeCh := Some (length (tc_chans c)), tc_chans := tc_chans c @ [False]\<rparr>, Inr conn)))"

section \<open>The sections of a request\<close>

definition nextRequestID :: "('m, 'v) tcp_Client \<Rightarrow> ('m, 'v) tcp_Client \<times> u64" where
  "nextRequestID c = (c\<lparr>tc_nextID := tc_nextID c + 1\<rparr>, tc_nextID c + 1)"

text \<open>Writing to the nil map of a client that was never dialled panics.\<close>

definition new_pendingCall :: "u64 \<Rightarrow> pendingCall" where
  "new_pendingCall i = \<lparr>pd_id = i, pd_done = False, pd_respBody = [], pd_respCodec = 0, pd_err = None\<rparr>"

definition register_call :: "u64 \<Rightarrow> ('m, 'v) tcp_Client \<Rightarrow> (('m, 'v) tcp_Client \<times> nat) option" where
  "register_call i c =
     map_option (\<lambda>m. (c\<lparr>tc_calls := tc_calls c @ [new_pendingCall i], tc_pending := Some (m(i \<mapsto> length (tc_calls c)))\<rparr>,
       length (tc_calls c))) (tc_pending c)"

definition delete_call :: "u64 \<Rightarrow> ('m, 'v) tcp_Client \<Rightarrow> ('m, 'v) tcp_Client" where
  "delete_call i c = c\<lparr>tc_pending := map_option (\<lambda>m. m(i := None)) (tc_pending c)\<rparr>"

text \<open>
  The request is encoded before the connection is touched; writing to the nil connection of a closed
  client panics. \<open>None\<close> is a writer that never comes back.
\<close>

definition write_call ::
    "(nat \<Rightarrow> 'w \<Rightarrow> bytes \<Rightarrow> 'w \<times> nat \<times> go_error option) \<Rightarrow> ('m, 'v) Request \<Rightarrow> ('m, 'v) tcp_Client \<Rightarrow> 'w
     \<Rightarrow> ('w \<times> unit result) option" where
  "write_call Write req c w =
     (case tc_conn c of
        Some k \<Rightarrow> WriteRequest (tc_Codec c) (Write k) req w
      | None \<Rightarrow> WriteFrame ''request'' (\<lambda>w b. (w, Suc (length b), None)) (EncodeRequest (tc_Codec c) req) w)"

definition finish_call ::
    "('m, 'v) Codec registry \<Rightarrow> nat \<Rightarrow> ('m, 'v) tcp_Client \<Rightarrow> ('m, 'v) Response result" where
  "finish_call codecs call c =
     (let p = tc_calls c ! call in
      case pd_err p of
        Some e \<Rightarrow> Err e
      | None \<Rightarrow> DecodeResponseWith codecs (pd_respCodec p) (pd_respBody p))"

section \<open>The read loop\<close>

text \<open>A frame is matched with the call that waits for its ID, which is then no longer pending.\<close>

definition match_frame :: "u64 \<Rightarrow> ('m, 'v) tcp_Client \<Rightarrow> ('m, 'v) tcp_Client \<times> nat option" where
  "match_frame i c = (delete_call i c, Option.bind (tc_pending c) (\<lambda>m. m i))"

text \<open>\<open>close(call.done)\<close> panics when it is closed already.\<close>

definition deliver :: "nat \<Rightarrow> bytes \<Rightarrow> byte \<Rightarrow> ('m, 'v) tcp_Client \<Rightarrow> ('m, 'v) tcp_Client option" where
  "deliver call body codec c =
     (let p = tc_calls c ! call in
      if pd_done p then None
      else Some (c\<lparr>tc_calls := (tc_calls c)[call := p\<lparr>pd_respBody := body, pd_respCodec := codec, pd_done := True\<rparr>]\<rparr>))"

section \<open>Closing\<close>

text \<open>The three sections of \<open>closeWithError\<close>; the first panics on a nil or closed channel.\<close>

definition close_once :: "('m, 'v) tcp_Client \<Rightarrow> ('m, 'v) tcp_Client option" where
  "close_once c =
     (case tc_closeCh c of
        None \<Rightarrow> None
      | Some h \<Rightarrow> if tc_chans c ! h then None
          else Some (c\<lparr>tc_closeOnce := True, tc_chans := (tc_chans c)[h := True]\<rparr>))"

definition close_connected :: "('m, 'v) tcp_Client \<Rightarrow> ('m, 'v) tcp_Client" where
  "close_connected c = c\<lparr>tc_connected := False\<rparr>"

definition fail_call :: "go_error \<Rightarrow> pendingCall \<Rightarrow> pendingCall" where
  "fail_call e p = p\<lparr>pd_err := Some e, pd_done := True\<rparr>"

text \<open>\<open>ids\<close> is the order in which the loop visits the pending calls.\<close>

primrec drain_calls :: "(u64 \<rightharpoonup> nat) \<Rightarrow> go_error \<Rightarrow> u64 list \<Rightarrow> pendingCall list \<Rightarrow> pendingCall list option" where
  "drain_calls m e [] ps = Some ps"
| "drain_calls m e (i # ids) ps =
     (case m i of
        None \<Rightarrow> drain_calls m e ids ps
      | Some k \<Rightarrow> if pd_done (ps ! k) then None else drain_calls m e ids (ps[k := fail_call e (ps ! k)]))"

definition close_drain :: "u64 list \<Rightarrow> go_error \<Rightarrow> ('m, 'v) tcp_Client \<Rightarrow> ('m, 'v) tcp_Client option" where
  "close_drain ids e c =
     (case tc_pending c of
        None \<Rightarrow> Some c
      | Some m \<Rightarrow> map_option (\<lambda>ps. c\<lparr>tc_calls := ps, tc_pending := Some (m |` (- set ids))\<rparr>) (drain_calls m e ids (tc_calls c)))"

definition close_begin :: "('m, 'v) tcp_Client \<Rightarrow> (('m, 'v) tcp_Client \<times> nat option) option" where
  "close_begin c =
     (if \<not> tc_connected c then None
      else Some (c\<lparr>tc_conn := None, tc_connected := False\<rparr>, tc_conn c))"

definition IsConnected :: "('m, 'v) tcp_Client \<Rightarrow> bool" where
  "IsConnected c = tc_connected c"

definition RemoteAddr :: "net_env \<Rightarrow> ('m, 'v) tcp_Client \<Rightarrow> string option" where
  "RemoteAddr env c = map_option (ne_RemoteAddr env) (tc_conn c)"

section \<open>Goroutines\<close>

text \<open>
  Where a goroutine stands: in \<open>SendRequest\<close> (with its request ID and call), in a read loop (with its
  connection, or about to hand a body to a call), in \<open>closeWithError\<close>, or returned. \<open>GPanic\<close> is a
  panicking goroutine.
\<close>

datatype ('m, 'v) goroutine =
    GIdle
  | GReg u64 "('m, 'v) Request"
  | GWrite u64 nat "('m, 'v) Request"
  | GSelect u64 nat "nat option"
  | GAbort u64 go_error
  | GRet u64 "('m, 'v) Response result"
  | RRead nat
  | RDeliver nat nat "u64 \<times> bytes \<times> byte"
  | KOnce
  | KConnected
  | KDrain
  | GExit
  | GPanic

text \<open>
  What the environment decides in a step: which request is sent, that the context is done, which frame
  the peer sends, that a read fails, the order of a map, the network at a dial.
\<close>

datatype ('m, 'v) choice =
    CCall "('m, 'v) Request"
  | CGo
  | CCtxDone go_error
  | CFrame u64 bytes byte
  | CReadErr
  | COrder "u64 list"
  | CDial net_env string
  | CClose

definition closed_err :: go_error where
  "closed_err = Errorf ''connection closed''"

text \<open>
  One section of one goroutine: the new client, the world of the connections, and the goroutines it
  leaves (itself, and after a dial the read loop). \<open>None\<close>: the section is blocked.
\<close>

definition tcp_step1 ::
    "('m, 'v) Codec registry \<Rightarrow> (nat \<Rightarrow> 'w \<Rightarrow> bytes \<Rightarrow> 'w \<times> nat \<times> go_error option) \<Rightarrow> ('m, 'v) choice
     \<Rightarrow> ('m, 'v) goroutine \<Rightarrow> ('m, 'v) tcp_Client \<Rightarrow> 'w
     \<Rightarrow> (('m, 'v) tcp_Client \<times> 'w \<times> ('m, 'v) goroutine \<times> ('m, 'v) goroutine list) option" where
  "tcp_step1 codecs Write ch p c w =
     (case p of
        GIdle \<Rightarrow>
          (case ch of
             CCall req \<Rightarrow> (case nextRequestID c of (c', i) \<Rightarrow> Some (c', w, GReg i (req\<lparr>rq_ID := i\<rparr>), []))
           | CDial env address \<Rightarrow>
               (case tcp_Dial env address c of
                  (c', Inl e) \<Rightarrow> Some (c', w, GIdle, [])
                | (c', Inr conn) \<Rightarrow> Some (c', w, GIdle, [RRead conn]))
           | CClose \<Rightarrow>
               (case close_begin c of
                  None \<Rightarrow> Some (c, w, GIdle, [])
                | Some (c', _) \<Rightarrow> Some (c', w, KOnce, []))
           | _ \<Rightarrow> None)
      | GReg i req \<Rightarrow>
          (case register_call i c of
             None \<Rightarrow> Some (c, w, GPanic, [])
           | Some (c', call) \<Rightarrow> Some (c', w, GWrite i call req, []))
      | GWrite i call req \<Rightarrow>
          (case write_call Write req c w of
             None \<Rightarrow> None
           | Some (w', Ok _) \<Rightarrow> Some (c, w', GSelect i call (tc_closeCh c), [])
           | Some (w', Err e) \<Rightarrow> Some (c, w', GAbort i (Wrapped ''write request failed: '' e []), [])
           | Some (w', RPanic) \<Rightarrow> Some (c, w', GPanic, []))
      | GSelect i call h \<Rightarrow>
          (case ch of
             CGo \<Rightarrow> if pd_done (tc_calls c ! call) then Some (c, w, GRet i (finish_call codecs call c), []) else None
           | CCtxDone e \<Rightarrow> Some (c, w, GAbort i e, [])
           | CClose \<Rightarrow> if h \<noteq> None \<and> tc_chans c ! the h then Some (c, w, GRet i (Err closed_err), []) else None
           | _ \<Rightarrow> None)
      | GAbort i e \<Rightarrow> Some (delete_call i c, w, GRet i (Err e), [])
      | GRet i r \<Rightarrow> Some (c, w, GIdle, [])
      | RRead k \<Rightarrow>
          (case ch of
             CFrame i body z \<Rightarrow>
               (case match_frame i c of (c', call) \<Rightarrow>
                  Some (c'\<lparr>tc_received := tc_received c' @ [(i, body, z)]\<rparr>, w,
                    case call of None \<Rightarrow> RRead k | Some n \<Rightarrow> RDeliver k n (i, body, z), []))
           | CReadErr \<Rightarrow> Some (c, w, KOnce, [])
           | _ \<Rightarrow> None)
      | RDeliver k call f \<Rightarrow>
          (case deliver call (fst (snd f)) (snd (snd f)) c of
             None \<Rightarrow> Some (c, w, GPanic, [])
           | Some c' \<Rightarrow> Some (c', w, RRead k, []))
      | KOnce \<Rightarrow>
          if tc_closeOnce c then Some (c, w, GExit, [])
          else (case close_once c of
             None \<Rightarrow> Some (c, w, GPanic, [])
           | Some c' \<Rightarrow> Some (c', w, KConnected, []))
      | KConnected \<Rightarrow> Some (close_connected c, w, KDrain, [])
      | KDrain \<Rightarrow>
          (case ch of
             COrder ids \<Rightarrow>
               if case tc_pending c of None \<Rightarrow> True | Some m \<Rightarrow> range_order m ids
               then (case close_drain ids closed_err c of
                  None \<Rightarrow> Some (c, w, GPanic, [])
                | Some c' \<Rightarrow> Some (c', w, GExit, []))
               else None
           | _ \<Rightarrow> None)
      | _ \<Rightarrow> None)"

record ('m, 'v, 'w) tcp_sys =
  ts_client :: "('m, 'v) tcp_Client"
  ts_world :: 'w
  ts_procs :: "('m, 'v) goroutine list"

definition tcp_exec ::
    "('m, 'v) Codec registry \<Rightarrow> (nat \<Rightarrow> 'w \<Rightarrow> bytes \<Rightarrow> 'w \<times> nat \<times> go_error option) \<Rightarrow> nat \<times> ('m, 'v) choice
     \<Rightarrow> ('m, 'v, 'w) tcp_sys \<Rightarrow> ('m, 'v, 'w) tcp_sys option" where
  "tcp_exec codecs Write a s =
     (case a of (g, ch) \<Rightarrow>
        if g < length (ts_procs s)
        then map_option (\<lambda>(c, w, p, ps). \<lparr>ts_client = c, ts_world = w, ts_procs = (ts_procs s)[g := p] @ ps\<rparr>)
          (tcp_step1 codecs Write ch (ts_procs s ! g) (ts_client s) (ts_world s))
        else None)"

definition tcp_stp where
  "tcp_stp codecs Write s t \<longleftrightarrow> (\<exists>a. tcp_exec codecs Write a s = Some t)"

text \<open>A fresh client and any number of goroutines that may call it.\<close>

definition tcp_init :: "('m, 'v, 'w) tcp_sys \<Rightarrow> bool" where
  "tcp_init s \<longleftrightarrow> tc_calls (ts_client s) = [] \<and> tc_chans (ts_client s) = [] \<and> tc_received (ts_client s) = []
     \<and> tc_pending (ts_client s) = None \<and> tc_closeCh (ts_client s) = None \<and> set (ts_procs s) \<subseteq> {GIdle}"

section \<open>The invariant\<close>

type_synonym wire_frame = "u64 \<times> bytes \<times> byte"

text \<open>The frame a call was answered with, the frame and the call a read loop is about to match.\<close>

definition answer_of :: "pendingCall \<Rightarrow> wire_frame multiset" where
  "answer_of p = (if pd_done p \<and> pd_err p = None then {#(pd_id p, pd_respBody p, pd_respCodec p)#} else {#})"

definition frame_held :: "('m, 'v) goroutine \<Rightarrow> wire_frame multiset" where
  "frame_held p = (case p of RDeliver k call f \<Rightarrow> {#f#} | _ \<Rightarrow> {#})"

definition call_held :: "('m, 'v) goroutine \<Rightarrow> nat multiset" where
  "call_held p = (case p of RDeliver k call f \<Rightarrow> {#call#} | _ \<Rightarrow> {#})"

definition open_call :: "pendingCall list \<Rightarrow> u64 \<Rightarrow> nat \<Rightarrow> bool" where
  "open_call calls i k \<longleftrightarrow> k < length calls \<and> pd_id (calls ! k) = i \<and> \<not> pd_done (calls ! k) \<and> pd_err (calls ! k) = None"

definition proc_ok :: "('m, 'v) Codec registry \<Rightarrow> pendingCall list \<Rightarrow> wire_frame list \<Rightarrow> ('m, 'v) goroutine \<Rightarrow> bool" where
  "proc_ok codecs calls rcvd p =
     (case p of
        GWrite i k req \<Rightarrow> k < length calls \<and> pd_id (calls ! k) = i
      | GSelect i k h \<Rightarrow> k < length calls \<and> pd_id (calls ! k) = i
      | RDeliver n k f \<Rightarrow> open_call calls (fst f) k
      | GRet i r \<Rightarrow> \<forall>resp. r = Ok resp \<longrightarrow> (\<exists>body z. (i, body, z) \<in> set rcvd \<and> DecodeResponseWith codecs z body = Ok resp)
      | _ \<Rightarrow> True)"

definition tcp_inv :: "('m, 'v) Codec registry \<Rightarrow> ('m, 'v, 'w) tcp_sys \<Rightarrow> bool" where
  "tcp_inv codecs s \<longleftrightarrow> (let c = ts_client s; ps = ts_procs s in
     (\<forall>m i k. tc_pending c = Some m \<longrightarrow> m i = Some k \<longrightarrow> open_call (tc_calls c) i k \<and> k \<notin># total_of call_held ps)
     \<and> (\<forall>p \<in> set ps. proc_ok codecs (tc_calls c) (tc_received c) p)
     \<and> (\<forall>k. count (total_of call_held ps) k \<le> 1)
     \<and> total_of answer_of (tc_calls c) + total_of frame_held ps \<subseteq># mset (tc_received c))"

lemma tcp_invI:
  assumes "\<And>m i k. tc_pending c = Some m \<Longrightarrow> m i = Some k \<Longrightarrow> open_call (tc_calls c) i k"
    and "\<And>m i k. tc_pending c = Some m \<Longrightarrow> m i = Some k \<Longrightarrow> k \<notin># total_of call_held ps"
    and "\<And>p. p \<in> set ps \<Longrightarrow> proc_ok codecs (tc_calls c) (tc_received c) p"
    and "\<And>k. count (total_of call_held ps) k \<le> 1"
    and "total_of answer_of (tc_calls c) + total_of frame_held ps \<subseteq># mset (tc_received c)"
  shows "tcp_inv codecs \<lparr>ts_client = c, ts_world = w, ts_procs = ps\<rparr>"
  using assms by (simp add: tcp_inv_def)

lemma tcp_invD:
  assumes "tcp_inv codecs s"
  shows "tc_pending (ts_client s) = Some m \<Longrightarrow> m i = Some k \<Longrightarrow> open_call (tc_calls (ts_client s)) i k"
    and "tc_pending (ts_client s) = Some m \<Longrightarrow> m i = Some k \<Longrightarrow> k \<notin># total_of call_held (ts_procs s)"
    and "p \<in> set (ts_procs s) \<Longrightarrow> proc_ok codecs (tc_calls (ts_client s)) (tc_received (ts_client s)) p"
    and "count (total_of call_held (ts_procs s)) k \<le> 1"
    and "total_of answer_of (tc_calls (ts_client s)) + total_of frame_held (ts_procs s) \<subseteq># mset (tc_received (ts_client s))"
  using assms unfolding tcp_inv_def Let_def by blast+

text \<open>A step that leaves the calls alone and neither takes up nor hands over a call.\<close>

lemma tcp_inv_quiet:
  assumes inv: "tcp_inv codecs s" and g: "g < length (ts_procs s)"
    and "tc_calls c' = tc_calls (ts_client s)" "tc_received c' = tc_received (ts_client s)"
    and sub: "\<forall>m' i k. tc_pending c' = Some m' \<longrightarrow> m' i = Some k \<longrightarrow> (\<exists>m. tc_pending (ts_client s) = Some m \<and> m i = Some k)"
    and none: "call_held (ts_procs s ! g) = {#}" "call_held p' = {#}" "frame_held p' = {#}" "total_of call_held qs = {#}"
      "total_of frame_held qs = {#}"
    and ok: "proc_ok codecs (tc_calls c') (tc_received c') p'" "\<forall>q \<in> set qs. proc_ok codecs (tc_calls c') (tc_received c') q"
  shows "tcp_inv codecs \<lparr>ts_client = c', ts_world = w', ts_procs = (ts_procs s)[g := p'] @ qs\<rparr>"
proof -
  have "frame_held (ts_procs s ! g) = {#}"
    using none(1) by (auto simp: frame_held_def call_held_def split: goroutine.splits)
  then have "total_of call_held ((ts_procs s)[g := p'] @ qs) = total_of call_held (ts_procs s)"
    "total_of frame_held ((ts_procs s)[g := p'] @ qs) = total_of frame_held (ts_procs s)"
    using total_of_step [OF g, of call_held p' qs] total_of_step [OF g, of frame_held p' qs] none by simp_all
  note same = this assms(3,4)
  show ?thesis
  proof (rule tcp_invI)
    show "open_call (tc_calls c') i k" "k \<notin># total_of call_held ((ts_procs s)[g := p'] @ qs)"
      if "tc_pending c' = Some m" "m i = Some k" for m i k
      using sub [rule_format, OF that] tcp_invD(1,2) [OF inv] unfolding same by auto
    show "proc_ok codecs (tc_calls c') (tc_received c') p" if "p \<in> set ((ts_procs s)[g := p'] @ qs)" for p
      using set_step [OF that] ok tcp_invD(3) [OF inv] same by auto
  qed (use tcp_invD(4,5) [OF inv] in \<open>simp_all only: same\<close>)
qed

lemma proc_ok_append:
  "proc_ok codecs calls rcvd p \<Longrightarrow> proc_ok codecs (calls @ cs) (rcvd @ fs) p"
  by (cases p) (auto simp: proc_ok_def open_call_def nth_append, blast+)

text \<open>Registering a call.\<close>

lemma tcp_inv_register:
  assumes inv: "tcp_inv codecs s" and g: "g < length (ts_procs s)" and p: "ts_procs s ! g = GReg i req"
    and r: "register_call i (ts_client s) = Some (c', call)"
  shows "tcp_inv codecs \<lparr>ts_client = c', ts_world = w', ts_procs = (ts_procs s)[g := GWrite i call req] @ []\<rparr>"
proof -
  let ?calls = "tc_calls (ts_client s)" and ?ps = "(ts_procs s)[g := GWrite i call req] @ []"
  obtain m where m: "tc_pending (ts_client s) = Some m" and call: "call = length ?calls"
    and c': "tc_calls c' = ?calls @ [new_pendingCall i]" "tc_pending c' = Some (m(i \<mapsto> length ?calls))"
      "tc_received c' = tc_received (ts_client s)"
    using r by (auto simp: register_call_def)
  have same: "total_of call_held ?ps = total_of call_held (ts_procs s)" "total_of frame_held ?ps = total_of frame_held (ts_procs s)"
    using total_of_step [OF g, of call_held "GWrite i call req" "[]"] total_of_step [OF g, of frame_held "GWrite i call req" "[]"] p
    by (simp_all add: call_held_def frame_held_def)
  have fresh: "length ?calls \<notin># total_of call_held (ts_procs s)"
    using tcp_invD(3) [OF inv] unfolding total_of_member
    by (fastforce simp: call_held_def proc_ok_def open_call_def split: goroutine.splits)
  have "answer_of (new_pendingCall i) = {#}"
    by (simp add: answer_of_def new_pendingCall_def)
  then have ans: "total_of answer_of (tc_calls c') = total_of answer_of ?calls"
    using c'(1) by simp
  show ?thesis
  proof (rule tcp_invI)
    show "open_call (tc_calls c') j k" "k \<notin># total_of call_held ?ps" if "tc_pending c' = Some m'" "m' j = Some k" for m' j k
      using that c' tcp_invD(1,2) [OF inv m, of j k] fresh same(1)
      by (auto simp: open_call_def new_pendingCall_def nth_append split: if_splits)
    show "proc_ok codecs (tc_calls c') (tc_received c') q" if "q \<in> set ?ps" for q
      using set_step [OF that] proc_ok_append [OF tcp_invD(3) [OF inv], of q "[new_pendingCall i]" "[]"] c' call
      by (auto simp: proc_ok_def new_pendingCall_def)
  qed (use tcp_invD(4,5) [OF inv] in \<open>simp_all only: same ans c'(3)\<close>)
qed

text \<open>Taking a frame off the connection.\<close>

lemma tcp_inv_frame:
  assumes inv: "tcp_inv codecs s" and g: "g < length (ts_procs s)" and p: "ts_procs s ! g = RRead n"
    and r: "match_frame i (ts_client s) = (c', call)"
  shows "tcp_inv codecs \<lparr>ts_client = c'\<lparr>tc_received := tc_received c' @ [(i, body, z)]\<rparr>, ts_world = w',
    ts_procs = (ts_procs s)[g := case call of None \<Rightarrow> RRead n | Some k \<Rightarrow> RDeliver n k (i, body, z)] @ []\<rparr>"
proof -
  let ?calls = "tc_calls (ts_client s)" and ?rcvd = "tc_received (ts_client s)" and ?f = "(i, body, z)"
  let ?p = "case call of None \<Rightarrow> RRead n | Some k \<Rightarrow> RDeliver n k ?f"
  let ?ps = "(ts_procs s)[g := ?p] @ []"
  have c': "tc_calls c' = ?calls" "tc_received c' = ?rcvd"
    "tc_pending c' = map_option (\<lambda>m. m(i := None)) (tc_pending (ts_client s))"
    and call: "call = Option.bind (tc_pending (ts_client s)) (\<lambda>m. m i)"
    using r by (auto simp: match_frame_def delete_call_def)
  have held: "total_of call_held ?ps = total_of call_held (ts_procs s) + (case call of None \<Rightarrow> {#} | Some k \<Rightarrow> {#k#})"
    "total_of frame_held ?ps = total_of frame_held (ts_procs s) + (case call of None \<Rightarrow> {#} | Some k \<Rightarrow> {#?f#})"
    using total_of_step [OF g, of call_held ?p "[]"] total_of_step [OF g, of frame_held ?p "[]"] p
    by (auto simp: call_held_def frame_held_def split: option.splits)
  have mine: "open_call ?calls i k \<and> k \<notin># total_of call_held (ts_procs s)" if "call = Some k" for k
    using that call tcp_invD(1,2) [OF inv] by (cases "tc_pending (ts_client s)") auto
  show ?thesis
  proof (rule tcp_invI)
    show "open_call (tc_calls (c'\<lparr>tc_received := tc_received c' @ [?f]\<rparr>)) j k" "k \<notin># total_of call_held ?ps"
      if m': "tc_pending (c'\<lparr>tc_received := tc_received c' @ [?f]\<rparr>) = Some m'" "m' j = Some k" for m' j k
    proof -
      obtain m where m: "tc_pending (ts_client s) = Some m" "m j = Some k" "j \<noteq> i"
        using m' c' by (auto split: if_splits)
      note old = tcp_invD(1,2) [OF inv m(1,2)]
      show "open_call (tc_calls (c'\<lparr>tc_received := tc_received c' @ [?f]\<rparr>)) j k"
        using old c' by simp
      show "k \<notin># total_of call_held ?ps"
        using old mine m(3) unfolding held by (cases call) (auto simp: open_call_def)
    qed
    show "proc_ok codecs (tc_calls (c'\<lparr>tc_received := tc_received c' @ [?f]\<rparr>)) (tc_received (c'\<lparr>tc_received := tc_received c' @ [?f]\<rparr>)) q"
      if "q \<in> set ?ps" for q
      using set_step [OF that] proc_ok_append [OF tcp_invD(3) [OF inv], of q "[]" "[?f]"] c' mine
      by (cases call) (auto simp: proc_ok_def)
    show "count (total_of call_held ?ps) k \<le> 1" for k
      using tcp_invD(4) [OF inv, of k] mine unfolding held by (cases call) (auto simp: not_in_iff)
    show "total_of answer_of (tc_calls (c'\<lparr>tc_received := tc_received c' @ [?f]\<rparr>)) + total_of frame_held ?ps
      \<subseteq># mset (tc_received (c'\<lparr>tc_received := tc_received c' @ [?f]\<rparr>))"
      using tcp_invD(5) [OF inv] c' unfolding held
      by (cases call) (auto simp: subset_mset.le_iff_add intro: subset_mset.order_trans)
  qed
qed

text \<open>Handing a body to a call.\<close>

lemma tcp_inv_deliver:
  assumes inv: "tcp_inv codecs s" and g: "g < length (ts_procs s)" and p: "ts_procs s ! g = RDeliver n call f"
  shows "\<exists>c'. deliver call (fst (snd f)) (snd (snd f)) (ts_client s) = Some c'
    \<and> tcp_inv codecs \<lparr>ts_client = c', ts_world = w', ts_procs = (ts_procs s)[g := RRead n] @ []\<rparr>"
proof -
  let ?calls = "tc_calls (ts_client s)" and ?ps = "(ts_procs s)[g := RRead n] @ []"
  obtain i body z where f: "f = (i, body, z)"
    by (cases f)
  let ?q = "(?calls ! call)\<lparr>pd_respBody := body, pd_respCodec := z, pd_done := True\<rparr>"
  let ?c = "(ts_client s)\<lparr>tc_calls := ?calls[call := ?q]\<rparr>"
  have mine: "open_call ?calls i call"
    using tcp_invD(3) [OF inv, of "RDeliver n call f"] nth_mem [OF g] p f by (simp add: proc_ok_def)
  have held: "total_of call_held (ts_procs s) = add_mset call (total_of call_held ?ps)"
    "total_of frame_held (ts_procs s) = add_mset f (total_of frame_held ?ps)"
    using total_of_step [OF g, of call_held "RRead n" "[]"] total_of_step [OF g, of frame_held "RRead n" "[]"] p
    by (simp_all add: call_held_def frame_held_def)
  have free: "call \<notin># total_of call_held ?ps"
    using tcp_invD(4) [OF inv, of call] unfolding held by (simp add: not_in_iff)
  have ans: "total_of answer_of (tc_calls ?c) = add_mset f (total_of answer_of ?calls)"
    using total_of_update [of call ?calls answer_of ?q] mine by (simp add: answer_of_def open_call_def f)
  have other: "open_call (tc_calls ?c) j k" if "open_call ?calls j k" "k \<noteq> call" for j k
    using that by (simp add: open_call_def)
  have ids: "pd_id (?calls[call := ?q] ! k) = pd_id (?calls ! k)" for k
    using mine by (cases "k = call") (simp_all add: open_call_def)
  have "tcp_inv codecs \<lparr>ts_client = ?c, ts_world = w', ts_procs = ?ps\<rparr>"
  proof (rule tcp_invI)
    show "open_call (tc_calls ?c) j k" "k \<notin># total_of call_held ?ps" if "tc_pending ?c = Some m" "m j = Some k" for m j k
      using tcp_invD(1,2) [OF inv, of m j k] that other unfolding held by auto
    show "proc_ok codecs (tc_calls ?c) (tc_received ?c) q" if "q \<in> set ?ps" for q
    proof (cases q)
      case (RDeliver n' k f')
      then have "k \<in># total_of call_held ?ps" "q \<in> set (ts_procs s)"
        using that set_update_subset_insert [of "ts_procs s" g "RRead n"] unfolding total_of_member
        by (force simp: call_held_def)+
      then show ?thesis
        using RDeliver tcp_invD(3) [OF inv, of q] other free by (auto simp: proc_ok_def)
    qed (use set_step [OF that] tcp_invD(3) [OF inv, of q] in \<open>auto simp: proc_ok_def ids\<close>)
    show "count (total_of call_held ?ps) k \<le> 1" for k
      using tcp_invD(4) [OF inv, of k] unfolding held by (simp split: if_splits)
    show "total_of answer_of (tc_calls ?c) + total_of frame_held ?ps \<subseteq># mset (tc_received ?c)"
      using tcp_invD(5) [OF inv] unfolding held ans by simp
  qed
  then show ?thesis
    using mine f by (simp add: deliver_def open_call_def)
qed

text \<open>Failing the calls that are still pending.\<close>

lemma drain_calls_spec:
  assumes "distinct ids" and "\<forall>i \<in> set ids. \<forall>k. m i = Some k \<longrightarrow> k < length ps \<and> \<not> pd_done (ps ! k)"
    and "\<forall>i j k. m i = Some k \<and> m j = Some k \<longrightarrow> i = j"
  shows "\<exists>ps'. drain_calls m e ids ps = Some ps' \<and> length ps' = length ps
    \<and> (\<forall>k < length ps. ps' ! k = (if \<exists>i \<in> set ids. m i = Some k then fail_call e (ps ! k) else ps ! k))"
  using assms(1,2)
proof (induction ids arbitrary: ps)
  case (Cons i ids)
  show ?case
  proof (cases "m i")
    case None
    then show ?thesis
      using Cons by auto
  next
    case (Some k)
    let ?ps = "ps[k := fail_call e (ps ! k)]"
    have "k' \<noteq> k" if "j \<in> set ids" "m j = Some k'" for j k'
      using that assms(3) Some Cons.prems(1) by auto
    then have "\<forall>j \<in> set ids. \<forall>k'. m j = Some k' \<longrightarrow> k' < length ?ps \<and> \<not> pd_done (?ps ! k')"
      using Cons.prems(2) by (metis length_list_update list.set_intros(2) nth_list_update_neq)
    then have "\<exists>ps'. drain_calls m e ids ?ps = Some ps' \<and> length ps' = length ?ps
      \<and> (\<forall>k' < length ?ps. ps' ! k' = (if \<exists>i \<in> set ids. m i = Some k' then fail_call e (?ps ! k') else ?ps ! k'))"
      using Cons.prems(1) by (intro Cons.IH) simp_all
    moreover have "\<not> (\<exists>j \<in> set ids. m j = Some k)"
      using assms(3) Some Cons.prems(1) by auto
    ultimately show ?thesis
      using Some Cons.prems(2) by (auto simp: nth_list_update)
  qed
qed simp

lemma drain_pending:
  assumes inv: "tcp_inv codecs s" and m: "tc_pending (ts_client s) = Some m" and ord: "range_order m ids"
  shows "\<exists>ps. drain_calls m e ids (tc_calls (ts_client s)) = Some ps \<and> length ps = length (tc_calls (ts_client s))
    \<and> (\<forall>k < length (tc_calls (ts_client s)). ps ! k =
         (if \<exists>i \<in> set ids. m i = Some k then fail_call e (tc_calls (ts_client s) ! k) else tc_calls (ts_client s) ! k))"
proof (rule drain_calls_spec)
  note opn = tcp_invD(1) [OF inv m]
  show "distinct ids"
    using ord by (simp add: range_order_def)
  show "\<forall>i \<in> set ids. \<forall>k. m i = Some k \<longrightarrow> k < length (tc_calls (ts_client s)) \<and> \<not> pd_done (tc_calls (ts_client s) ! k)"
    using opn by (simp add: open_call_def)
  show "\<forall>i j k. m i = Some k \<and> m j = Some k \<longrightarrow> i = j"
    using opn by (auto simp: open_call_def)
qed

lemma tcp_inv_drain:
  assumes inv: "tcp_inv codecs s" and g: "g < length (ts_procs s)" and p: "ts_procs s ! g = KDrain"
    and ord: "\<And>m. tc_pending (ts_client s) = Some m \<Longrightarrow> range_order m ids"
  shows "\<exists>c'. close_drain ids e (ts_client s) = Some c'
    \<and> tcp_inv codecs \<lparr>ts_client = c', ts_world = w', ts_procs = (ts_procs s)[g := GExit] @ []\<rparr>"
proof (cases "tc_pending (ts_client s)")
  case None
  then show ?thesis
    using p by (intro exI [of _ "ts_client s"] conjI tcp_inv_quiet [OF inv g])
      (simp_all add: close_drain_def call_held_def frame_held_def proc_ok_def)
next
  case (Some m)
  let ?calls = "tc_calls (ts_client s)" and ?ps = "(ts_procs s)[g := GExit] @ []"
  have m: "open_call ?calls i k" "k \<notin># total_of call_held (ts_procs s)" if "m i = Some k" for i k
    using tcp_invD(1,2) [OF inv Some that] by simp_all
  have dom: "set ids = dom m"
    using ord [OF Some] by (simp add: range_order_def)
  obtain ps where ps: "drain_calls m e ids ?calls = Some ps" "length ps = length ?calls"
    "\<forall>k < length ?calls. ps ! k = (if \<exists>i \<in> set ids. m i = Some k then fail_call e (?calls ! k) else ?calls ! k)"
    using drain_pending [OF inv Some ord [OF Some], of e] by blast
  let ?c = "(ts_client s)\<lparr>tc_calls := ps, tc_pending := Some (m |` (- set ids))\<rparr>"
  have same: "total_of call_held ?ps = total_of call_held (ts_procs s)" "total_of frame_held ?ps = total_of frame_held (ts_procs s)"
    using total_of_step [OF g, of call_held GExit "[]"] total_of_step [OF g, of frame_held GExit "[]"] p
    by (simp_all add: call_held_def frame_held_def)
  have "map answer_of ps = map answer_of ?calls"
    using ps(2,3) m by (auto simp: list_eq_iff_nth_eq answer_of_def fail_call_def open_call_def)
  then have ans: "total_of answer_of ps = total_of answer_of ?calls"
    by (simp add: total_of_def)
  have ids: "pd_id (ps ! k) = pd_id (?calls ! k)" if "k < length ?calls" for k
    using ps(3) that by (simp add: fail_call_def)
  have "tcp_inv codecs \<lparr>ts_client = ?c, ts_world = w', ts_procs = ?ps\<rparr>"
  proof (rule tcp_invI)
    show "open_call (tc_calls ?c) i k" "k \<notin># total_of call_held ?ps" if "tc_pending ?c = Some m'" "m' i = Some k" for m' i k
      using that dom by (auto simp: restrict_map_def split: if_splits)
    show "proc_ok codecs (tc_calls ?c) (tc_received ?c) q" if "q \<in> set ?ps" for q
    proof (cases q)
      case (RDeliver n k f)
      then have "k \<in># total_of call_held ?ps" "q \<in> set (ts_procs s)"
        using that set_update_subset_insert [of "ts_procs s" g GExit] unfolding total_of_member
        by (force simp: call_held_def)+
      then show ?thesis
        using RDeliver tcp_invD(3) [OF inv, of q] ps(2,3) m(2) unfolding same by (auto simp: proc_ok_def open_call_def)
    qed (use set_step [OF that] tcp_invD(3) [OF inv, of q] ps(2) ids in \<open>auto simp: proc_ok_def\<close>)
  qed (use tcp_invD(4,5) [OF inv] in \<open>simp_all add: same [simplified] ans\<close>)
  then show ?thesis
    using Some ps(1) by (simp add: close_drain_def)
qed

lemma tcp_finish_ok:
  assumes inv: "tcp_inv codecs s" and "pd_done (tc_calls (ts_client s) ! call)" and k: "call < length (tc_calls (ts_client s))"
    and "finish_call codecs call (ts_client s) = Ok resp"
  shows "\<exists>body z. (pd_id (tc_calls (ts_client s) ! call), body, z) \<in> set (tc_received (ts_client s))
    \<and> DecodeResponseWith codecs z body = Ok resp"
proof -
  let ?p = "tc_calls (ts_client s) ! call"
  have r: "pd_err ?p = None" "DecodeResponseWith codecs (pd_respCodec ?p) (pd_respBody ?p) = Ok resp"
    using assms(4) by (auto simp: finish_call_def Let_def split: option.splits)
  then have "(pd_id ?p, pd_respBody ?p, pd_respCodec ?p) \<in># answer_of ?p"
    using assms(2) by (simp add: answer_of_def)
  then have "(pd_id ?p, pd_respBody ?p, pd_respCodec ?p) \<in># mset (tc_received (ts_client s))"
    using total_of_nth_le [OF k, of answer_of] tcp_invD(5) [OF inv]
    by (meson mset_subset_eqD mset_subset_eq_add_left subset_mset.order_trans)
  then show ?thesis
    using r(2) by auto
qed

lemma tcp_idle_step:
  assumes "tcp_step1 codecs Write ch GIdle c w = Some (c', w', p', qs)"
  shows "tc_calls c' = tc_calls c" "tc_received c' = tc_received c"
    "tc_pending c' = tc_pending c \<or> tc_pending c' = Some Map.empty"
    "(\<exists>i req. p' = GReg i req) \<or> p' = GIdle \<or> p' = KOnce" "qs = [] \<or> (\<exists>k. qs = [RRead k])"
proof -
  have "tc_calls c' = tc_calls c \<and> tc_received c' = tc_received c
      \<and> (tc_pending c' = tc_pending c \<or> tc_pending c' = Some Map.empty)
      \<and> ((\<exists>i req. p' = GReg i req) \<or> p' = GIdle \<or> p' = KOnce) \<and> (qs = [] \<or> (\<exists>k. qs = [RRead k]))"
  proof (cases ch)
    case (CDial env address)
    then show ?thesis
      using assms by (auto simp: tcp_step1_def tcp_Dial_def Let_def split: if_splits sum.splits option.splits)
  qed (use assms in \<open>auto simp: tcp_step1_def nextRequestID_def close_begin_def split: if_splits option.splits\<close>)
  then show "tc_calls c' = tc_calls c" "tc_received c' = tc_received c"
    "tc_pending c' = tc_pending c \<or> tc_pending c' = Some Map.empty"
    "(\<exists>i req. p' = GReg i req) \<or> p' = GIdle \<or> p' = KOnce" "qs = [] \<or> (\<exists>k. qs = [RRead k])"
    by simp_all
qed

lemma tcp_inv_step:
  assumes "tcp_exec codecs Write a s = Some t" and inv: "tcp_inv codecs s"
  shows "tcp_inv codecs t"
proof -
  obtain g ch c' w' p' qs where g: "g < length (ts_procs s)"
    and st: "tcp_step1 codecs Write ch (ts_procs s ! g) (ts_client s) (ts_world s) = Some (c', w', p', qs)"
    and t: "t = \<lparr>ts_client = c', ts_world = w', ts_procs = (ts_procs s)[g := p'] @ qs\<rparr>"
    using assms(1) by (auto simp: tcp_exec_def split: prod.splits if_splits)
  note quiet = tcp_inv_quiet [OF inv g]
  note held = call_held_def frame_held_def proc_ok_def
  have here: "proc_ok codecs (tc_calls (ts_client s)) (tc_received (ts_client s)) (ts_procs s ! g)"
    by (rule tcp_invD(3) [OF inv nth_mem [OF g]])
  show ?thesis
  proof (cases "ts_procs s ! g")
    case GIdle
    then have *: "tc_calls c' = tc_calls (ts_client s)" "tc_received c' = tc_received (ts_client s)"
      "tc_pending c' = tc_pending (ts_client s) \<or> tc_pending c' = Some Map.empty"
      "(\<exists>i req. p' = GReg i req) \<or> p' = GIdle \<or> p' = KOnce" "qs = [] \<or> (\<exists>k. qs = [RRead k])"
      using tcp_idle_step [of codecs Write ch "ts_client s" "ts_world s"] st by simp_all
    have sub: "\<forall>m' i k. tc_pending c' = Some m' \<longrightarrow> m' i = Some k \<longrightarrow> (\<exists>m. tc_pending (ts_client s) = Some m \<and> m i = Some k)"
      using *(3) by (cases "tc_pending (ts_client s)") auto
    show ?thesis
      unfolding t using GIdle *(4,5) by (intro quiet [OF *(1,2) sub]) (auto simp: held)
  next
    case (GReg i req)
    show ?thesis
    proof (cases "register_call i (ts_client s)")
      case None
      then show ?thesis
        using st GReg unfolding t by (intro quiet) (auto simp: tcp_step1_def held)
    next
      case (Some r)
      obtain c1 call where r: "register_call i (ts_client s) = Some (c1, call)"
        using Some by (cases r) auto
      then show ?thesis
        using st GReg tcp_inv_register [OF inv g GReg r, of w'] unfolding t by (simp add: tcp_step1_def)
    qed
  next
    case (GWrite i call req)
    then show ?thesis
      using st here unfolding t
      by (intro quiet) (auto simp: tcp_step1_def held split: option.splits result.splits)
  next
    case (GSelect i call h)
    then have "p' = GRet i (finish_call codecs call (ts_client s)) \<and> pd_done (tc_calls (ts_client s) ! call)
        \<or> p' = GRet i (Err closed_err) \<or> (\<exists>e. p' = GAbort i e)" and rest: "c' = ts_client s" "qs = []"
      using st by (auto simp: tcp_step1_def split: choice.splits if_splits)
    moreover have "proc_ok codecs (tc_calls (ts_client s)) (tc_received (ts_client s)) (GRet i (finish_call codecs call (ts_client s)))"
      if "pd_done (tc_calls (ts_client s) ! call)"
      using tcp_finish_ok [OF inv that] here GSelect by (simp add: proc_ok_def)
    ultimately show ?thesis
      using GSelect unfolding t rest by (intro quiet) (auto simp: held)
  next
    case (RRead k)
    show ?thesis
    proof (cases "\<exists>i body z. ch = CFrame i body z")
      case True
      then obtain i body z c1 call where f: "ch = CFrame i body z" "match_frame i (ts_client s) = (c1, call)"
        by (metis surj_pair)
      then show ?thesis
        using st RRead tcp_inv_frame [OF inv g RRead f(2), of body z w'] unfolding t by (simp add: tcp_step1_def)
    next
      case False
      then show ?thesis
        using st RRead unfolding t by (intro quiet) (auto simp: tcp_step1_def held split: choice.splits)
    qed
  next
    case (RDeliver n call f)
    then show ?thesis
      using st tcp_inv_deliver [OF inv g RDeliver, of w'] unfolding t by (auto simp: tcp_step1_def)
  next
    case KOnce
    then show ?thesis
      using st unfolding t by (intro quiet) (auto simp: tcp_step1_def close_once_def held split: if_splits option.splits)
  next
    case KConnected
    then show ?thesis
      using st unfolding t by (intro quiet) (auto simp: tcp_step1_def close_connected_def held)
  next
    case KDrain
    then obtain ids where "ch = COrder ids" "\<And>m. tc_pending (ts_client s) = Some m \<Longrightarrow> range_order m ids"
      using st by (auto simp: tcp_step1_def split: choice.splits if_splits option.splits)
    then show ?thesis
      using st KDrain tcp_inv_drain [OF inv g KDrain, of ids closed_err w'] unfolding t
      by (auto simp: tcp_step1_def split: if_splits)
  next
    case (GAbort i e)
    then show ?thesis
      using st unfolding t by (intro quiet) (auto simp: tcp_step1_def delete_call_def held split: if_splits)
  next
    case (GRet i r)
    then show ?thesis
      using st unfolding t by (intro quiet) (auto simp: tcp_step1_def held)
  qed (use st in \<open>simp_all add: tcp_step1_def\<close>)
qed

interpretation tcp: invariant_system tcp_init "tcp_stp codecs Write" "tcp_inv codecs"
  for codecs :: "('m, 'v) Codec registry" and Write :: "nat \<Rightarrow> 'w \<Rightarrow> bytes \<Rightarrow> 'w \<times> nat \<times> go_error option"
proof
  fix s :: "('m, 'v, 'w) tcp_sys"
  assume init: "tcp_init s"
  then have "f GIdle = {#} \<Longrightarrow> total_of f (ts_procs s) = {#}" for f :: "('m, 'v) goroutine \<Rightarrow> 'x multiset"
    by (intro total_of_0) (auto simp: tcp_init_def)
  from this [of call_held] this [of frame_held] show "tcp_inv codecs s"
    using init by (auto simp: tcp_init_def tcp_inv_def Let_def proc_ok_def call_held_def frame_held_def)
qed (auto simp: tcp_stp_def intro: tcp_inv_step)

section \<open>Runs\<close>

fun tcp_run ::
    "('m, 'v) Codec registry \<Rightarrow> (nat \<Rightarrow> 'w \<Rightarrow> bytes \<Rightarrow> 'w \<times> nat \<times> go_error option) \<Rightarrow> (nat \<times> ('m, 'v) choice) list
     \<Rightarrow> ('m, 'v, 'w) tcp_sys \<Rightarrow> ('m, 'v, 'w) tcp_sys option" where
  "tcp_run codecs Write [] s = Some s"
| "tcp_run codecs Write (a # as) s = Option.bind (tcp_exec codecs Write a s) (tcp_run codecs Write as)"

lemma tcp_run_reach:
  "reach tcp_init (tcp_stp codecs Write) s \<Longrightarrow> tcp_run codecs Write as s = Some t \<Longrightarrow> reach tcp_init (tcp_stp codecs Write) t"
proof (induction as arbitrary: s)
  case (Cons a as)
  then obtain s1 where "tcp_exec codecs Write a s = Some s1" "tcp_run codecs Write as s1 = Some t"
    by (auto simp: bind_eq_Some_conv)
  then show ?case
    using Cons by (blast intro: reach_step tcp_stp_def [THEN iffD2])
qed simp

section \<open>Properties of the client\<close>

text \<open>
  (C1) Whatever goroutines send, cancel, dial and close, and whatever frames the peer sends, in every
  interleaving: a request that returns a response returns the decoding of a frame that arrived with
  its own request ID, every frame answers at most one call, and handing over a response or failing
  the pending calls never closes a call twice.
\<close>

theorem mux_matches_responses:
  assumes "reach tcp_init (tcp_stp codecs Write) s"
  shows "(\<forall>i resp. GRet i (Ok resp) \<in> set (ts_procs s) \<longrightarrow>
        (\<exists>body z. (i, body, z) \<in> set (tc_received (ts_client s)) \<and> DecodeResponseWith codecs z body = Ok resp))
    \<and> total_of answer_of (tc_calls (ts_client s)) \<subseteq># mset (tc_received (ts_client s))
    \<and> (\<forall>n call f. RDeliver n call f \<in> set (ts_procs s) \<longrightarrow> deliver call (fst (snd f)) (snd (snd f)) (ts_client s) \<noteq> None)
    \<and> (\<forall>m ids e. tc_pending (ts_client s) = Some m \<longrightarrow> range_order m ids \<longrightarrow> close_drain ids e (ts_client s) \<noteq> None)"
proof -
  note inv = tcp.reach_inv [OF assms]
  have "close_drain ids e (ts_client s) \<noteq> None" if "tc_pending (ts_client s) = Some m" "range_order m ids" for m ids e
    using drain_pending [OF inv that, of e] that(1) by (auto simp: close_drain_def)
  moreover have "deliver call (fst (snd f)) (snd (snd f)) (ts_client s) \<noteq> None"
    if "RDeliver n call f \<in> set (ts_procs s)" for n call f
    using tcp_invD(3) [OF inv that] by (simp add: proc_ok_def open_call_def deliver_def Let_def)
  moreover have "\<exists>body z. (i, body, z) \<in> set (tc_received (ts_client s)) \<and> DecodeResponseWith codecs z body = Ok resp"
    if "GRet i (Ok resp) \<in> set (ts_procs s)" for i resp
    using tcp_invD(3) [OF inv that] by (simp add: proc_ok_def)
  moreover have "total_of answer_of (tc_calls (ts_client s)) \<subseteq># mset (tc_received (ts_client s))"
    using tcp_invD(5) [OF inv] by (meson mset_subset_eq_add_left subset_mset.order_trans)
  ultimately show ?thesis
    by blast
qed

text \<open>A network on which every dial succeeds and every write is taken whole.\<close>

definition sample_net :: net_env where
  "sample_net = \<lparr>ne_Dial = \<lambda>_ _ _. Inr 0, ne_isTCP = \<lambda>_. True, ne_SetKeepAlive = \<lambda>_. None,
     ne_SetKeepAlivePeriod = \<lambda>_ _. None, ne_SetNoDelay = \<lambda>_. None, ne_RemoteAddr = \<lambda>_. ''a''\<rparr>"

definition sample_Write :: "nat \<Rightarrow> bytes \<Rightarrow> bytes \<Rightarrow> bytes \<times> nat \<times> go_error option" where
  "sample_Write k w b = (w @ b, length b, None)"

definition sample_sys :: "nat \<Rightarrow> (unit, unit, bytes) tcp_sys" where
  "sample_sys n = \<lparr>ts_client = tcp_NewClient sample_codecs sample_comps ''a'' 0 0 [], ts_world = [], ts_procs = replicate n GIdle\<rparr>"

lemma sample_sys_init: "tcp_init (sample_sys n)"
  by (auto simp: tcp_init_def sample_sys_def tcp_NewClient_def)

lemma writeFull_all: "writeFull (sample_Write k) b w = Some (w @ b, WriteOk)"
proof (cases "b = []")
  case False
  then show ?thesis
    by (subst writeFull.simps, subst writeFull.simps) (simp add: sample_Write_def)
qed (simp add: writeFull.simps)

lemma sample_encode_id:
  "EncodeRequest (NewProtocolCodec sample_codecs sample_comps 0 0) (sample_rq\<lparr>rq_ID := i\<rparr>)
     = Ok (frame (NewProtocolCodec sample_codecs sample_comps 0 0) MsgTypeRequest i [1])"
proof -
  have "EncodeReq (NewJSONCodec sample_lib) (sample_rq\<lparr>rq_ID := i\<rparr>) = Inr [1]"
    by (simp add: json_encodeRequest_def request_to_wire_def sample_facts bind_err_def) (simp add: sample_lib_def)
  then show ?thesis
    by (simp add: EncodeRequest_def sample_codec_defs deref_def ctx_err_def NewNoneCompressor_def)
qed

lemma sample_write_call:
  assumes "tc_Codec c = NewProtocolCodec sample_codecs sample_comps 0 0" and "tc_conn c = Some k"
  shows "write_call sample_Write (sample_rq\<lparr>rq_ID := i\<rparr>) c w
    = Some (w @ frame (NewProtocolCodec sample_codecs sample_comps 0 0) MsgTypeRequest i [1], Ok ())"
  using assms by (simp add: write_call_def WriteRequest_def WriteFrame_def sample_encode_id writeFull_all)

lemmas sample_run_simps = tcp_exec_def tcp_step1_def tcp_Dial_def setup_socket_def sample_net_def nextRequestID_def
  register_call_def match_frame_def deliver_def delete_call_def new_pendingCall_def close_begin_def close_once_def
  close_connected_def close_drain_def sample_write_call

definition answered_run :: "(nat \<times> (unit, unit) choice) list" where
  "answered_run = [(0, CDial sample_net []), (0, CCall sample_rq), (0, CGo), (0, CGo), (1, CFrame 1 [2] 0), (1, CGo), (0, CGo)]"

lemma answered_run_ends:
  "\<exists>s. tcp_run sample_codecs sample_Write answered_run (sample_sys 1) = Some s
     \<and> ts_procs s = [GRet 1 (DecodeResponseWith sample_codecs 0 [2]), RRead 0] \<and> tc_received (ts_client s) = [(1, [2], 0)]"
  by (simp add: answered_run_def sample_sys_def tcp_NewClient_def sample_run_simps DefaultClientOptions_def
      finish_call_def Let_def)

theorem mux_matches_responses_witness:
  "\<exists>s. reach tcp_init (tcp_stp sample_codecs sample_Write) s \<and> ts_procs s = [GRet 1 (DecodeResponseWith sample_codecs 0 [2]), RRead 0]
     \<and> (\<exists>resp. DecodeResponseWith sample_codecs 0 [2] = Ok resp)
     \<and> (\<forall>i resp. GRet i (Ok resp) \<in> set (ts_procs s) \<longrightarrow>
        (\<exists>body z. (i, body, z) \<in> set (tc_received (ts_client s)) \<and> DecodeResponseWith sample_codecs z body = Ok resp))"
proof -
  obtain s where s: "tcp_run sample_codecs sample_Write answered_run (sample_sys 1) = Some s"
    "ts_procs s = [GRet 1 (DecodeResponseWith sample_codecs 0 [2]), RRead 0]"
    using answered_run_ends by blast
  have "reach tcp_init (tcp_stp sample_codecs sample_Write) s"
    by (rule tcp_run_reach [OF _ s(1)]) (rule reach_init, rule sample_sys_init)
  moreover have "\<exists>resp. DecodeResponseWith sample_codecs 0 [2] = Ok resp"
    by (simp add: DecodeResponseWith_def sample_codec_defs deref_def ctx_err_def json_decodeResponse_def bind_err_def)
      (simp add: sample_lib_def)
  ultimately show ?thesis
    using mux_matches_responses [of sample_codecs sample_Write s] s(2) by blast
qed

text \<open>
  A client that is closed and dialled again no longer notices that its connection is lost: the
  close-once guard of the first connection is spent, so when the read loop of the second one ends,
  the request that waits on it is left with no step to take but the end of its context, and the
  client still says that it is connected.
\<close>

theorem redialled_client_hangs:
  "\<exists>s. tcp_run sample_codecs sample_Write
      [(0, CDial sample_net []), (0, CClose), (0, CGo), (0, CGo), (0, COrder []), (2, CReadErr), (2, CGo),
       (1, CDial sample_net []), (1, CCall sample_rq), (1, CGo), (1, CGo), (3, CReadErr), (3, CGo)] (sample_sys 2) = Some s
    \<and> ts_procs s = [GExit, GSelect 1 0 (Some 1), GExit, GExit] \<and> IsConnected (ts_client s)
    \<and> (\<forall>g ch. tcp_exec sample_codecs sample_Write (g, ch) s \<noteq> None \<longleftrightarrow> g = 1 \<and> (\<exists>e. ch = CCtxDone e))"
proof -
  let ?as = "[(0, CDial sample_net []), (0, CClose), (0, CGo), (0, CGo), (0, COrder []), (2, CReadErr), (2, CGo),
       (1, CDial sample_net []), (1, CCall sample_rq), (1, CGo), (1, CGo), (3, CReadErr), (3, CGo)]"
  have "\<exists>s. tcp_run sample_codecs sample_Write ?as (sample_sys 2) = Some s
    \<and> ts_procs s = [GExit, GSelect 1 0 (Some 1), GExit, GExit] \<and> IsConnected (ts_client s)
    \<and> \<not> pd_done (tc_calls (ts_client s) ! 0) \<and> \<not> tc_chans (ts_client s) ! 1"
    by (simp add: sample_sys_def tcp_NewClient_def sample_run_simps DefaultClientOptions_def numeral_2_eq_2
        range_order_def IsConnected_def Let_def)
  then obtain s where s: "tcp_run sample_codecs sample_Write ?as (sample_sys 2) = Some s"
    "ts_procs s = [GExit, GSelect 1 0 (Some 1), GExit, GExit]" "IsConnected (ts_client s)"
    "\<not> pd_done (tc_calls (ts_client s) ! 0)" "\<not> tc_chans (ts_client s) ! 1"
    by blast
  have "tcp_exec sample_codecs sample_Write (g, ch) s \<noteq> None \<longleftrightarrow> g = 1 \<and> (\<exists>e. ch = CCtxDone e)" for g ch
    using s(2,4,5)
    by (auto simp: tcp_exec_def tcp_step1_def nth_Cons split: if_splits nat.splits choice.splits)
  then show ?thesis
    using s(1-3) by blast
qed

end
