(* ===== verification/Pool_Options.thy ===== *)
theory Pool_Options
  imports TCP_Client
begin

text \<open>
  Configuration of the connection pool (first part of \<open>pkg/pool/pool.go\<close>): the pool options, the
  factories that make connections, and the validator. The values of interface type in the options
  (factory, validator, logger) are references, here numbers, whose behaviour is an argument of the
  functions that call them.
\<close>

section \<open>Options\<close>

record PoolOptions =
  pl_MaxSize :: int
  pl_MinSize :: int
  pl_MaxIdleTime :: duration
  pl_MaxLifetime :: duration
  pl_CleanupInterval :: duration
  pl_CodecType :: CodecType
  pl_CompressType :: CompressType
  pl_DialTimeout :: duration
  pl_KeepAlive :: bool
  pl_KeepAlivePeriod :: duration
  pl_EnableHealthCheck :: bool
  pl_HealthCheckInterval :: duration
  pl_ConnectionFactory :: "nat option"
  pl_Validator :: "nat option"
  pl_WaitTimeout :: duration
  pl_Logger :: "nat option"

definition DefaultPoolOptions :: PoolOptions where
  "DefaultPoolOptions =
     \<lparr>pl_MaxSize = 100, pl_MinSize = 10, pl_MaxIdleTime = 90 * Second, pl_MaxLifetime = 30 * Minute,
      pl_CleanupInterval = 30 * Second, pl_CodecType = CodecTypeJSON, pl_CompressType = CompressTypeNone,
      pl_DialTimeout = 5 * Second, pl_KeepAlive = True, pl_KeepAlivePeriod = 30 * Second,
      pl_EnableHealthCheck = True, pl_HealthCheckInterval = 60 * Second, pl_ConnectionFactory = None,
      pl_Validator = None, pl_WaitTimeout = 5 * Second, pl_Logger = None\<rparr>"

type_synonym PoolOption = "PoolOptions \<Rightarrow> PoolOptions"

definition WithPoolSize :: "int \<Rightarrow> int \<Rightarrow> PoolOption" where
  "WithPoolSize mx mn opts = opts\<lparr>pl_MaxSize := mx, pl_MinSize := mn\<rparr>"

definition WithIdleTimeout :: "duration \<Rightarrow> PoolOption" where
  "WithIdleTimeout timeout opts = opts\<lparr>pl_MaxIdleTime := timeout\<rparr>"

definition WithMaxLifetime :: "duration \<Rightarrow> PoolOption" where
  "WithMaxLifetime lifetime opts = opts\<lparr>pl_MaxLifetime := lifetime\<rparr>"

definition WithCleanupInterval :: "duration \<Rightarrow> PoolOption" where
  "WithCleanupInterval interval opts = opts\<lparr>pl_CleanupInterval := interval\<rparr>"

definition WithPoolCodec :: "CodecType \<Rightarrow> CompressType \<Rightarrow> PoolOption" where
  "WithPoolCodec codecType compressType opts = opts\<lparr>pl_CodecType := codecType, pl_CompressType := compressType\<rparr>"

definition WithHealthCheck :: "bool \<Rightarrow> duration \<Rightarrow> PoolOption" where
  "WithHealthCheck enable interval opts = opts\<lparr>pl_EnableHealthCheck := enable, pl_HealthCheckInterval := interval\<rparr>"

definition WithConnectionFactory :: "nat option \<Rightarrow> PoolOption" where
  "WithConnectionFactory factory opts = opts\<lparr>pl_ConnectionFactory := factory\<rparr>"

definition WithPoolValidator :: "nat option \<Rightarrow> PoolOption" where
  "WithPoolValidator validator opts = opts\<lparr>pl_Validator := validator\<rparr>"

definition WithWaitTimeout :: "duration \<Rightarrow> PoolOption" where
  "WithWaitTimeout timeout opts = opts\<lparr>pl_WaitTimeout := timeout\<rparr>"

definition WithPoolLogger :: "nat option \<Rightarrow> PoolOption" where
  "WithPoolLogger l opts = opts\<lparr>pl_Logger := l\<rparr>"

section \<open>Connection factories\<close>

text \<open>
  A factory has a state of its own (\<open>'f\<close>; the mock counts its calls) and makes connections of type
  \<open>'c\<close>; the default one makes TCP clients.
\<close>

record ('f, 'c) ConnectionFactory =
  Create :: "string \<Rightarrow> 'f \<Rightarrow> 'f \<times> 'c or_error"
  Factory_Validate :: "go_error option"

record DefaultConnectionFactory =
  df_codecType :: CodecType
  df_compressType :: CompressType
  df_dialTimeout :: duration
  df_keepAlive :: bool
  df_keepAlivePeriod :: duration
  df_clientOptions :: "ClientOption list"

definition NewDefaultConnectionFactory :: "CodecType \<Rightarrow> CompressType \<Rightarrow> duration \<Rightarrow> DefaultConnectionFactory" where
  "NewDefaultConnectionFactory codecType compressType dialTimeout =
     \<lparr>df_codecType = codecType, df_compressType = compressType, df_dialTimeout = dialTimeout,
      df_keepAlive = True, df_keepAlivePeriod = 30 * Second, df_clientOptions = []\<rparr>"

definition default_Create ::
    "('m, 'v) Codec registry \<Rightarrow> Compressor registry \<Rightarrow> net_env \<Rightarrow> DefaultConnectionFactory \<Rightarrow> string
     \<Rightarrow> ('m, 'v) tcp_Client or_error" where
  "default_Create codecs comps env f address =
     (let final = df_clientOptions f
            @ [WithDialTimeout (df_dialTimeout f), WithKeepAlive (df_keepAlive f) (df_keepAlivePeriod f)];
          client = tcp_NewClient codecs comps address (df_codecType f) (df_compressType f) final
      in case tcp_Dial env [] client of
           (_, Inl e) \<Rightarrow> Inl (Wrapped ''dial failed: '' e [])
         | (client', Inr _) \<Rightarrow> Inr client')"

definition default_Validate :: "DefaultConnectionFactory \<Rightarrow> go_error option" where
  "default_Validate f = (if df_dialTimeout f \<le> 0 then Some (Errorf ''dialTimeout must be > 0'') else None)"

definition SetClientOptions :: "ClientOption list \<Rightarrow> DefaultConnectionFactory \<Rightarrow> DefaultConnectionFactory" where
  "SetClientOptions opts f = f\<lparr>df_clientOptions := opts\<rparr>"

definition default_factory ::
    "('m, 'v) Codec registry \<Rightarrow> Compressor registry \<Rightarrow> ('f \<Rightarrow> 'f \<times> net_env) \<Rightarrow> DefaultConnectionFactory
     \<Rightarrow> ('f, ('m, 'v) tcp_Client) ConnectionFactory" where
  "default_factory codecs comps net f =
     \<lparr>Create = (\<lambda>address w. case net w of (w', env) \<Rightarrow> (w', default_Create codecs comps env f address)),
      Factory_Validate = default_Validate f\<rparr>"

text \<open>
  The retrying factory: \<open>n\<close> is how many attempts are left, and \<open>sleep\<close> is what \<open>time.Sleep\<close> does
  to the state. With a negative budget the loop body never runs and the error wraps nil, which
  \<open>%w\<close> prints as \<open>%!w(<nil>)\<close>.
\<close>

fun retry_Create_loop ::
    "('f, 'c) ConnectionFactory \<Rightarrow> ('f \<Rightarrow> 'f) \<Rightarrow> string \<Rightarrow> int \<Rightarrow> nat \<Rightarrow> go_error option \<Rightarrow> 'f \<Rightarrow> 'f \<times> 'c or_error" where
  "retry_Create_loop base sleep address maxRetries 0 lastErr w =
     (w, Inl (case lastErr of
        None \<Rightarrow> Errorf (''create connection failed after '' @ fmt_d maxRetries @ '' retries: %!w(<nil>)'')
      | Some e \<Rightarrow> Wrapped (''create connection failed after '' @ fmt_d maxRetries @ '' retries: '') e []))"
| "retry_Create_loop base sleep address maxRetries (Suc n) lastErr w =
     (case Create base address w of
        (w1, Inr client) \<Rightarrow> (w1, Inr client)
      | (w1, Inl e) \<Rightarrow> retry_Create_loop base sleep address maxRetries n (Some e) (if n > 0 then sleep w1 else w1))"

definition retry_Validate :: "('f, 'c) ConnectionFactory option \<Rightarrow> go_error option" where
  "retry_Validate baseFactory =
     (case baseFactory of None \<Rightarrow> Some (Errorf ''baseFactory is nil'') | Some base \<Rightarrow> Factory_Validate base)"

text \<open>Creating with a nil base factory would panic; the pool validates its factory first.\<close>

definition NewRetryConnectionFactory ::
    "('f, 'c) ConnectionFactory option \<Rightarrow> int \<Rightarrow> (duration \<Rightarrow> 'f \<Rightarrow> 'f) \<Rightarrow> duration \<Rightarrow> ('f, 'c) ConnectionFactory option" where
  "NewRetryConnectionFactory baseFactory maxRetries sleep retryInterval =
     map_option (\<lambda>base.
       \<lparr>Create = (\<lambda>address. retry_Create_loop base (sleep retryInterval) address maxRetries (nat (maxRetries + 1)) None),
        Factory_Validate = retry_Validate baseFactory\<rparr>) baseFactory"

text \<open>The mock counts its calls.\<close>

definition NewMockConnectionFactory :: "(string \<Rightarrow> 'c or_error) option \<Rightarrow> (nat, 'c) ConnectionFactory" where
  "NewMockConnectionFactory createFunc =
     \<lparr>Create = (\<lambda>address callCount. (Suc callCount,
        case createFunc of Some f \<Rightarrow> f address | None \<Rightarrow> Inl (Errorf ''mock: no Client''))),
      Factory_Validate = None\<rparr>"

section \<open>Validation\<close>

text \<open>The error, if any, and the warnings logged before it.\<close>

definition DefaultPoolValidator_Validate :: "PoolOptions \<Rightarrow> string list \<times> go_error option" where
  "DefaultPoolValidator_Validate opts =
     (let warn1 = (if pl_MinSize opts > pl_MaxSize opts sdiv 2 then [''pool config: MinSize > MaxSize/2, may waste resources''] else []);
          warn2 = warn1 @ (if pl_CleanupInterval opts < 5 * Second
            then [''pool config: CleanupInterval is very short, may impact performance''] else [])
      in
      if pl_MaxSize opts \<le> 0 then ([], Some (Errorf (''MaxSize must be > 0, got '' @ fmt_d (pl_MaxSize opts))))
      else if pl_MinSize opts < 0 then ([], Some (Errorf (''MinSize must be >= 0, got '' @ fmt_d (pl_MinSize opts))))
      else if pl_MinSize opts > pl_MaxSize opts then
        ([], Some (Errorf (''MinSize ('' @ fmt_d (pl_MinSize opts) @ '') must be <= MaxSize ('' @ fmt_d (pl_MaxSize opts) @ '')'')))
      else if pl_MaxIdleTime opts \<le> 0 then
        (warn1, Some (Errorf (''MaxIdleTime must be > 0, got '' @ Duration_String (pl_MaxIdleTime opts))))
      else if pl_MaxLifetime opts < 0 then
        (warn1, Some (Errorf (''MaxLifetime must be >= 0 (0 means unlimited), got '' @ Duration_String (pl_MaxLifetime opts))))
      else if pl_MaxLifetime opts > 0 \<and> pl_MaxLifetime opts < pl_MaxIdleTime opts then
        (warn1, Some (Errorf (''MaxLifetime ('' @ Duration_String (pl_MaxLifetime opts) @ '') should be >= MaxIdleTime (''
          @ Duration_String (pl_MaxIdleTime opts) @ '')'')))
      else if pl_CleanupInterval opts \<le> 0 then
        (warn1, Some (Errorf (''CleanupInterval must be > 0, got '' @ Duration_String (pl_CleanupInterval opts))))
      else if pl_CleanupInterval opts > pl_MaxIdleTime opts then
        (warn1, Some (Errorf (''CleanupInterval ('' @ Duration_String (pl_CleanupInterval opts) @ '') should be <= MaxIdleTime (''
          @ Duration_String (pl_MaxIdleTime opts) @ '')'')))
      else if pl_DialTimeout opts \<le> 0 then
        (warn2, Some (Errorf (''DialTimeout must be > 0, got '' @ Duration_String (pl_DialTimeout opts))))
      else if pl_KeepAlive opts \<and> pl_KeepAlivePeriod opts \<le> 0 then
        (warn2, Some (Errorf (''KeepAlivePeriod must be > 0 when KeepAlive is enabled, got '' @ Duration_String (pl_KeepAlivePeriod opts))))
      else if pl_EnableHealthCheck opts \<and> pl_HealthCheckInterval opts \<le> 0 then
        (warn2, Some (Errorf (''HealthCheckInterval must be > 0 when health check is enabled, got ''
          @ Duration_String (pl_HealthCheckInterval opts))))
      else if pl_WaitTimeout opts < 0 then
        (warn2, Some (Errorf (''WaitTimeout must be >= 0 (0 means wait forever), got '' @ Duration_String (pl_WaitTimeout opts))))
      else if pl_CodecType opts \<notin> {CodecTypeJSON, CodecTypeProtobuf, CodecTypeMsgPack} then
        (warn2, Some (Errorf (''unsupported CodecType: '' @ CodecType_String (pl_CodecType opts))))
      else (warn2, None))"

text \<open>What the pool relies on once the validator has passed.\<close>

lemma validated_sizes:
  assumes "snd (DefaultPoolValidator_Validate opts) = None"
  shows "0 < pl_MaxSize opts" "0 \<le> pl_MinSize opts" "pl_MinSize opts \<le> pl_MaxSize opts"
    "0 < pl_MaxIdleTime opts" "0 < pl_CleanupInterval opts" "0 < pl_DialTimeout opts"
  using assms by (auto simp: DefaultPoolValidator_Validate_def Let_def split: if_splits)

lemma default_options_valid: "snd (DefaultPoolValidator_Validate DefaultPoolOptions) = None"
  by (simp add: DefaultPoolValidator_Validate_def DefaultPoolOptions_def Let_def Second_def Minute_def
      CodecTypeJSON_def CodecTypeProtobuf_def CodecTypeMsgPack_def)

end
