(* ===== verification/Conn_Pool.thy ===== *)
theory Conn_Pool
  imports Pool_Options
begin

text \<open>
  The connection pool (second part of \<open>pkg/pool/pool.go\<close>). A pooled connection is a number into the
  list of all connections the pool has made; the channel \<open>pool\<close> holds the idle ones. As for the TCP
  client, the methods are cut at their locks and channel operations and run by any number of
  goroutines, among them the two background routines.
\<close>

section \<open>Pooled connections\<close>

text \<open>Of the TCP client the pool only asks whether it is connected; closing it disconnects it.\<close>

record PooledConnection =
  pn_createdAt :: instant
  pn_lastUsed :: instant
  pn_useCount :: int
  pn_closed :: bool
  pn_connected :: bool

definition newPooledConnection :: "instant \<Rightarrow> bool \<Rightarrow> PooledConnection" where
  "newPooledConnection now connected =
     \<lparr>pn_createdAt = now, pn_lastUsed = now, pn_useCount = 0, pn_closed = False, pn_connected = connected\<rparr>"

text \<open>The part of \<open>SendRequest\<close> before the request goes to the client.\<close>

definition pn_SendRequest :: "instant \<Rightarrow> PooledConnection \<Rightarrow> PooledConnection \<times> go_error option" where
  "pn_SendRequest now pc =
     (if pn_closed pc then (pc, Some (Errorf ''connection is closed''))
      else (pc\<lparr>pn_lastUsed := now, pn_useCount := wrap64 (pn_useCount pc + 1)\<rparr>, None))"

definition IsHealthy :: "PooledConnection \<Rightarrow> bool" where
  "IsHealthy pc = (if pn_closed pc then False else if \<not> pn_connected pc then False else True)"

definition IsExpired :: "instant \<Rightarrow> duration \<Rightarrow> duration \<Rightarrow> PooledConnection \<Rightarrow> bool" where
  "IsExpired now maxIdleTime maxLifetime pc =
     (if time_Sub now (pn_lastUsed pc) > maxIdleTime then True
      else if maxLifetime > 0 \<and> time_Sub now (pn_createdAt pc) > maxLifetime then True
      else False)"

definition pn_Close :: "PooledConnection \<Rightarrow> PooledConnection" where
  "pn_Close pc = (if pn_closed pc then pc else pc\<lparr>pn_closed := True, pn_connected := False\<rparr>)"

definition LastUsed :: "PooledConnection \<Rightarrow> instant" where
  "LastUsed pc = pn_lastUsed pc"

record ConnectionStats =
  ct_CreatedAt :: instant
  ct_LastUsed :: instant
  ct_UseCount :: int
  ct_Age :: duration
  ct_IdleTime :: duration

definition pn_Stats :: "instant \<Rightarrow> instant \<Rightarrow> PooledConnection \<Rightarrow> ConnectionStats" where
  "pn_Stats now1 now2 pc =
     \<lparr>ct_CreatedAt = pn_createdAt pc, ct_LastUsed = pn_lastUsed pc, ct_UseCount = pn_useCount pc,
      ct_Age = time_Sub now1 (pn_createdAt pc), ct_IdleTime = time_Sub now2 (pn_lastUsed pc)\<rparr>"

section \<open>The pool\<close>

text \<open>
  \<open>cp_locked\<close> says that \<open>mu\<close> is held across several sections, which only the refill at the end of
  \<open>cleanup\<close> does. \<open>cp_gone\<close>, the connections a caller closed without giving them back, is kept for
  the statements.
\<close>

record ConnectionPool =
  cp_address :: string
  cp_opts :: PoolOptions
  cp_pool :: "nat chan"
  cp_currentSize :: int
  cp_closed :: bool
  cp_stopCleanup :: bool
  cp_getCount :: int
  cp_putCount :: int
  cp_createCount :: int
  cp_closeCount :: int
  cp_locked :: bool
  cp_conns :: "PooledConnection list"
  cp_gone :: nat

text \<open>
  The environment of the constructor: the factories and validators behind the references of the
  options, the default factory, the clock, and whether a client is connected.
\<close>

record ('f, 'c) pool_env =
  pe_factory :: "nat \<Rightarrow> ('f, 'c) ConnectionFactory"
  pe_default :: "DefaultConnectionFactory \<Rightarrow> ('f, 'c) ConnectionFactory"
  pe_validator :: "nat \<Rightarrow> PoolOptions \<Rightarrow> go_error option"
  pe_now :: "'f \<Rightarrow> instant"
  pe_connected :: "'c \<Rightarrow> bool"

definition createConnection ::
    "('f, 'c) pool_env \<Rightarrow> ('f, 'c) ConnectionFactory \<Rightarrow> string \<Rightarrow> 'f \<Rightarrow> 'f \<times> PooledConnection or_error" where
  "createConnection env factory address w =
     (case Create factory address w of
        (w1, Inl e) \<Rightarrow> (w1, Inl (Wrapped ''factory create failed: '' e []))
      | (w1, Inr client) \<Rightarrow> (w1, Inr (newPooledConnection (pe_now env w1) (pe_connected env client))))"

text \<open>A new connection, and putting it into the channel; \<open>None\<close> when the channel is full.\<close>

definition add_conn :: "PooledConnection \<Rightarrow> ConnectionPool \<Rightarrow> ConnectionPool \<times> nat" where
  "add_conn pc p = (p\<lparr>cp_conns := cp_conns p @ [pc]\<rparr>, length (cp_conns p))"

definition pool_send :: "nat \<Rightarrow> ConnectionPool \<Rightarrow> ConnectionPool \<times> send_result" where
  "pool_send c p = (case try_send (cp_pool p) c of (ch, r) \<Rightarrow> (p\<lparr>cp_pool := ch\<rparr>, r))"

definition pool_recv :: "ConnectionPool \<Rightarrow> ConnectionPool \<times> nat recv_result" where
  "pool_recv p = (case try_recv (cp_pool p) of (ch, r) \<Rightarrow> (p\<lparr>cp_pool := ch\<rparr>, r))"

fun precreate ::
    "('f, 'c) pool_env \<Rightarrow> ('f, 'c) ConnectionFactory \<Rightarrow> nat \<Rightarrow> ConnectionPool \<Rightarrow> 'f \<Rightarrow> ('f \<times> ConnectionPool) option" where
  "precreate env factory 0 p w = Some (w, p)"
| "precreate env factory (Suc n) p w =
     (case createConnection env factory (cp_address p) w of
        (w1, Inl e) \<Rightarrow> Some (w1, p)
      | (w1, Inr pc) \<Rightarrow>
          (case add_conn pc p of (p1, c) \<Rightarrow>
             (case pool_send c p1 of
                (p2, Sent) \<Rightarrow> precreate env factory n
                  (p2\<lparr>cp_currentSize := cp_currentSize p2 + 1, cp_createCount := wrap64 (cp_createCount p2 + 1)\<rparr>) w1
              | _ \<Rightarrow> None)))"

text \<open>\<open>None\<close>: the constructor never returns, because a validator let a minimum above the maximum through.\<close>

definition NewConnectionPool ::
    "('f, 'c) pool_env \<Rightarrow> string \<Rightarrow> PoolOption list \<Rightarrow> 'f \<Rightarrow> ('f \<times> ConnectionPool or_error) option" where
  "NewConnectionPool env address options w =
     (let opts = apply_options options DefaultPoolOptions;
          verr = (case pl_Validator opts of
             None \<Rightarrow> snd (DefaultPoolValidator_Validate opts) | Some v \<Rightarrow> pe_validator env v opts)
      in case verr of
           Some e \<Rightarrow> Some (w, Inl (Wrapped ''invalid pool options: '' e []))
         | None \<Rightarrow>
             (let factory = (case pl_ConnectionFactory opts of
                  None \<Rightarrow> pe_default env (NewDefaultConnectionFactory (pl_CodecType opts) (pl_CompressType opts) (pl_DialTimeout opts))
                | Some f \<Rightarrow> pe_factory env f)
              in case Factory_Validate factory of
                   Some e \<Rightarrow> Some (w, Inl (Wrapped ''invalid connection factory: '' e []))
                 | None \<Rightarrow>
                     map_option (\<lambda>(w1, p). (w1, Inr p))
                       (precreate env factory (nat (pl_MinSize opts))
                         \<lparr>cp_address = address, cp_opts = opts, cp_pool = make_chan (nat (pl_MaxSize opts)), cp_currentSize = 0,
                          cp_closed = False, cp_stopCleanup = False, cp_getCount = 0, cp_putCount = 0, cp_createCount = 0,
                          cp_closeCount = 0, cp_locked = False, cp_conns = [], cp_gone = 0\<rparr> w)))"

section \<open>The sections of the methods\<close>

definition conn_at :: "ConnectionPool \<Rightarrow> nat \<Rightarrow> PooledConnection" where
  "conn_at p c = cp_conns p ! c"

definition usable :: "instant \<Rightarrow> nat \<Rightarrow> ConnectionPool \<Rightarrow> bool" where
  "usable now c p \<longleftrightarrow> IsHealthy (conn_at p c)
     \<and> \<not> IsExpired now (pl_MaxIdleTime (cp_opts p)) (pl_MaxLifetime (cp_opts p)) (conn_at p c)"

definition upd_conn :: "(PooledConnection \<Rightarrow> PooledConnection) \<Rightarrow> nat \<Rightarrow> ConnectionPool \<Rightarrow> ConnectionPool" where
  "upd_conn f c p = p\<lparr>cp_conns := (cp_conns p)[c := f (conn_at p c)]\<rparr>"

definition discard :: "nat \<Rightarrow> ConnectionPool \<Rightarrow> ConnectionPool" where
  "discard c p = (upd_conn pn_Close c p)\<lparr>cp_closeCount := wrap64 (cp_closeCount p + 1)\<rparr>"

definition shrink :: "ConnectionPool \<Rightarrow> ConnectionPool" where
  "shrink p = p\<lparr>cp_currentSize := cp_currentSize p - 1\<rparr>"

definition wait_timeout :: "ConnectionPool \<Rightarrow> duration" where
  "wait_timeout p = (if pl_WaitTimeout (cp_opts p) \<le> 0 then 5 * Second else pl_WaitTimeout (cp_opts p))"

text \<open>\<open>Close\<close> keeps \<open>mu\<close> throughout; every idle connection is closed and counted.\<close>

definition pool_Close :: "ConnectionPool \<Rightarrow> ConnectionPool" where
  "pool_Close p =
     (if cp_closed p then p
      else fold discard (chan_buf (cp_pool p))
        (p\<lparr>cp_closed := True, cp_stopCleanup := True, cp_pool := (cp_pool p)\<lparr>chan_buf := [], chan_closed := True\<rparr>\<rparr>))"

record PoolStats =
  st_Address :: string
  st_CurrentSize :: int
  st_IdleSize :: nat
  st_MaxSize :: int
  st_MinSize :: int
  st_GetCount :: int
  st_PutCount :: int
  st_CreateCount :: int
  st_CloseCount :: int

definition pool_Stats :: "ConnectionPool \<Rightarrow> PoolStats" where
  "pool_Stats p =
     \<lparr>st_Address = cp_address p, st_CurrentSize = cp_currentSize p, st_IdleSize = length (chan_buf (cp_pool p)),
      st_MaxSize = pl_MaxSize (cp_opts p), st_MinSize = pl_MinSize (cp_opts p), st_GetCount = cp_getCount p,
      st_PutCount = cp_putCount p, st_CreateCount = cp_createCount p, st_CloseCount = cp_closeCount p\<rparr>"

definition PoolStats_String :: "PoolStats \<Rightarrow> string" where
  "PoolStats_String s =
     ''Pool{Addr='' @ st_Address s @ '', Size='' @ fmt_d (st_CurrentSize s) @ ''/'' @ fmt_d (st_MaxSize s)
     @ '' (idle='' @ fmt_d (int (st_IdleSize s)) @ ''), Get='' @ fmt_d (st_GetCount s) @ '', Put='' @ fmt_d (st_PutCount s)
     @ '', Create='' @ fmt_d (st_CreateCount s) @ '', Close='' @ fmt_d (st_CloseCount s) @ ''}''"

section \<open>Goroutines of the pool\<close>

text \<open>
  Where a goroutine stands. In \<open>Get\<close>: before the closed check, before the first \<open>select\<close>, with a
  connection it received (nil from a closed channel), about to count a discarded connection out, at
  the top of the create loop, waiting, dialling, about to count a new connection in, holding. In
  \<open>Put\<close>: before the closed check, before the health check, before the send, about to count out. In
  \<open>cleanup\<close> (flag \<open>True\<close>) and \<open>healthCheck\<close> (\<open>False\<close>): draining, checking, about to count out; and
  in \<open>cleanup\<close> before and inside the refill.
\<close>

datatype pool_proc =
    PIdle
  | GetCheck | GetSelect | GetGot "nat option" | GetDrop | NewCheck | NewWait | NewDial | NewCount nat
  | Holds nat | GetErr go_error
  | PutCheck nat | PutHealth nat | PutSend nat | PutDrop
  | SweepDrain bool "nat option list" | SweepCheck bool "nat option list" | SweepDrop bool "nat option list"
  | FillLock | Fill nat
  | PPanic

text \<open>
  What the environment decides: the call a goroutine makes (\<open>PForget\<close>: the client closes the
  connection it holds and never gives it back), a tick of a background routine, the reading of the
  clock, the end of a context, the outcome of a dial, a connection lost.
\<close>

datatype pool_choice =
    PGet | PPut | PForget | PTick bool | PClose | PUse instant
  | PGo instant | PCtx go_error | PDial "go_error + instant" | PLost nat

text \<open>\<open>GetWithContext\<close>, up to where it goes on to create a connection.\<close>

definition GetWithContext :: "pool_choice \<Rightarrow> pool_proc \<Rightarrow> ConnectionPool \<Rightarrow> (ConnectionPool \<times> pool_proc) option" where
  "GetWithContext a g p =
     (case g of
        GetCheck \<Rightarrow>
          if cp_locked p then None
          else if cp_closed p then Some (p, GetErr (Errorf ''connection pool is closed'')) else Some (p, GetSelect)
      | GetSelect \<Rightarrow>
          (case a of
             PCtx e \<Rightarrow> Some (p, GetErr e)
           | PGo now \<Rightarrow>
               (case pool_recv p of
                  (p', Got c) \<Rightarrow> Some (p', GetGot (Some c))
                | (p', RecvClosed) \<Rightarrow> Some (p', GetGot None)
                | (p', RecvEmpty) \<Rightarrow> Some (p', NewCheck))
           | _ \<Rightarrow> None)
      | GetGot None \<Rightarrow> Some (p, PPanic)
      | GetGot (Some c) \<Rightarrow>
          (case a of
             PGo now \<Rightarrow> if usable now c p then Some (p, Holds c) else Some (discard c p, GetDrop)
           | _ \<Rightarrow> None)
      | GetDrop \<Rightarrow> if cp_locked p then None else Some (shrink p, NewCheck)
      | _ \<Rightarrow> None)"

text \<open>\<open>createNewConnectionWithContext\<close>; a connection that comes back while it waits is checked as in \<open>GetWithContext\<close>.\<close>

definition createNewConnectionWithContext :: "pool_choice \<Rightarrow> pool_proc \<Rightarrow> ConnectionPool \<Rightarrow> (ConnectionPool \<times> pool_proc) option" where
  "createNewConnectionWithContext a g p =
     (case g of
        NewCheck \<Rightarrow>
          if cp_locked p then None
          else if cp_currentSize p \<ge> pl_MaxSize (cp_opts p) then Some (p, NewWait) else Some (p, NewDial)
      | NewWait \<Rightarrow>
          (case a of
             PCtx e \<Rightarrow> Some (p, GetErr (Wrapped (''wait for connection timeout after '' @ Duration_String (wait_timeout p) @ '': '') e []))
           | PGo now \<Rightarrow>
               (case pool_recv p of
                  (p', Got c) \<Rightarrow> Some (p', GetGot (Some c))
                | (p', RecvClosed) \<Rightarrow> Some (p', GetGot None)
                | (p', RecvEmpty) \<Rightarrow> None)
           | _ \<Rightarrow> None)
      | NewDial \<Rightarrow>
          (case a of
             PDial (Inl e) \<Rightarrow> Some (p, GetErr (Wrapped ''factory create failed: '' e []))
           | PDial (Inr now) \<Rightarrow> (case add_conn (newPooledConnection now True) p of (p', c) \<Rightarrow> Some (p', NewCount c))
           | _ \<Rightarrow> None)
      | NewCount c \<Rightarrow>
          if cp_locked p then None
          else Some (p\<lparr>cp_currentSize := cp_currentSize p + 1, cp_createCount := wrap64 (cp_createCount p + 1)\<rparr>, Holds c)
      | _ \<Rightarrow> None)"

text \<open>\<open>Put\<close>.\<close>

definition pool_Put :: "pool_choice \<Rightarrow> pool_proc \<Rightarrow> ConnectionPool \<Rightarrow> (ConnectionPool \<times> pool_proc) option" where
  "pool_Put a g p =
     (case g of
        PutCheck c \<Rightarrow>
          if cp_locked p then None
          else if cp_closed p then Some (discard c p, PIdle) else Some (p, PutHealth c)
      | PutHealth c \<Rightarrow>
          (case a of
             PGo now \<Rightarrow> if usable now c p then Some (p, PutSend c) else Some (discard c p, PutDrop)
           | _ \<Rightarrow> None)
      | PutSend c \<Rightarrow>
          (case pool_send c p of
             (p', Sent) \<Rightarrow> Some (p', PIdle)
           | (p', SendFull) \<Rightarrow> Some (discard c p', PutDrop)
           | (p', SendPanic) \<Rightarrow> Some (p', PPanic))
      | PutDrop \<Rightarrow> if cp_locked p then None else Some (shrink p, PIdle)
      | _ \<Rightarrow> None)"

text \<open>The sweep over the idle connections, which \<open>cleanup\<close> and \<open>healthCheck\<close> share but for the test.\<close>

definition pool_sweep :: "pool_choice \<Rightarrow> pool_proc \<Rightarrow> ConnectionPool \<Rightarrow> (ConnectionPool \<times> pool_proc) option" where
  "pool_sweep a g p =
     (case g of
        SweepDrain clean cs \<Rightarrow>
          (case pool_recv p of
             (p', Got c) \<Rightarrow> Some (p', SweepDrain clean (cs @ [Some c]))
           | (p', RecvClosed) \<Rightarrow> Some (p', SweepDrain clean (cs @ [None]))
           | (p', RecvEmpty) \<Rightarrow> Some (p', SweepCheck clean cs))
      | SweepCheck clean [] \<Rightarrow> Some (p, if clean then FillLock else PIdle)
      | SweepCheck clean (None # cs) \<Rightarrow> Some (p, PPanic)
      | SweepCheck clean (Some c # cs) \<Rightarrow>
          (case a of
             PGo now \<Rightarrow>
               if (if clean then IsExpired now (pl_MaxIdleTime (cp_opts p)) (pl_MaxLifetime (cp_opts p)) (conn_at p c)
                   else \<not> IsHealthy (conn_at p c))
               then Some (discard c p, SweepDrop clean cs)
               else (case pool_send c p of
                  (p', Sent) \<Rightarrow> Some (p', SweepCheck clean cs)
                | (p', SendFull) \<Rightarrow> None
                | (p', SendPanic) \<Rightarrow> Some (p', PPanic))
           | _ \<Rightarrow> None)
      | SweepDrop clean cs \<Rightarrow> if cp_locked p then None else Some (shrink p, SweepCheck clean cs)
      | _ \<Rightarrow> None)"

text \<open>The end of \<open>cleanup\<close>: back to \<open>MinSize\<close>, under the lock.\<close>

definition cleanup_refill :: "pool_choice \<Rightarrow> pool_proc \<Rightarrow> ConnectionPool \<Rightarrow> (ConnectionPool \<times> pool_proc) option" where
  "cleanup_refill a g p =
     (case g of
        FillLock \<Rightarrow>
          if cp_locked p then None
          else if cp_currentSize p < pl_MinSize (cp_opts p)
            then Some (p\<lparr>cp_locked := True\<rparr>, Fill (nat (pl_MinSize (cp_opts p) - cp_currentSize p)))
          else Some (p, PIdle)
      | Fill 0 \<Rightarrow> Some (p\<lparr>cp_locked := False\<rparr>, PIdle)
      | Fill (Suc n) \<Rightarrow>
          (case a of
             PDial (Inl e) \<Rightarrow> Some (p\<lparr>cp_locked := False\<rparr>, PIdle)
           | PDial (Inr now) \<Rightarrow>
               (case add_conn (newPooledConnection now True) p of (p1, c) \<Rightarrow>
                  (case pool_send c p1 of
                     (p2, Sent) \<Rightarrow> Some (p2\<lparr>cp_currentSize := cp_currentSize p2 + 1,
                       cp_createCount := wrap64 (cp_createCount p2 + 1)\<rparr>, Fill n)
                   | (p2, SendFull) \<Rightarrow> None
                   | (p2, SendPanic) \<Rightarrow> Some (p2, PPanic)))
           | _ \<Rightarrow> None)
      | _ \<Rightarrow> None)"

text \<open>A caller that holds a connection: it gives it back, closes it for itself, or sends a request.\<close>

definition holder :: "pool_choice \<Rightarrow> pool_proc \<Rightarrow> ConnectionPool \<Rightarrow> (ConnectionPool \<times> pool_proc) option" where
  "holder a g p =
     (case g of
        Holds c \<Rightarrow>
          (case a of
             PPut \<Rightarrow> Some (p\<lparr>cp_putCount := wrap64 (cp_putCount p + 1)\<rparr>, PutCheck c)
           | PForget \<Rightarrow> Some ((upd_conn pn_Close c p)\<lparr>cp_gone := Suc (cp_gone p)\<rparr>, PIdle)
           | PUse now \<Rightarrow> Some (upd_conn (\<lambda>pc. fst (pn_SendRequest now pc)) c p, Holds c)
           | _ \<Rightarrow> None)
      | _ \<Rightarrow> None)"

definition pool_step1 :: "pool_choice \<Rightarrow> pool_proc \<Rightarrow> ConnectionPool \<Rightarrow> (ConnectionPool \<times> pool_proc) option" where
  "pool_step1 a g p =
     (case g of
        PIdle \<Rightarrow>
          (case a of
             PGet \<Rightarrow> Some (p\<lparr>cp_getCount := wrap64 (cp_getCount p + 1)\<rparr>, GetCheck)
           | PTick clean \<Rightarrow> Some (p, SweepDrain clean [])
           | PClose \<Rightarrow> if cp_locked p then None else Some (pool_Close p, PIdle)
           | PLost c \<Rightarrow> Some (upd_conn (\<lambda>pc. pc\<lparr>pn_connected := False\<rparr>) c p, PIdle)
           | _ \<Rightarrow> None)
      | GetCheck \<Rightarrow> GetWithContext a g p
      | GetSelect \<Rightarrow> GetWithContext a g p
      | GetGot r \<Rightarrow> GetWithContext a g p
      | GetDrop \<Rightarrow> GetWithContext a g p
      | NewCheck \<Rightarrow> createNewConnectionWithContext a g p
      | NewWait \<Rightarrow> createNewConnectionWithContext a g p
      | NewDial \<Rightarrow> createNewConnectionWithContext a g p
      | NewCount c \<Rightarrow> createNewConnectionWithContext a g p
      | PutCheck c \<Rightarrow> pool_Put a g p
      | PutHealth c \<Rightarrow> pool_Put a g p
      | PutSend c \<Rightarrow> pool_Put a g p
      | PutDrop \<Rightarrow> pool_Put a g p
      | SweepDrain clean cs \<Rightarrow> pool_sweep a g p
      | SweepCheck clean cs \<Rightarrow> pool_sweep a g p
      | SweepDrop clean cs \<Rightarrow> pool_sweep a g p
      | FillLock \<Rightarrow> cleanup_refill a g p
      | Fill n \<Rightarrow> cleanup_refill a g p
      | Holds c \<Rightarrow> holder a g p
      | GetErr e \<Rightarrow> Some (p, PIdle)
      | PPanic \<Rightarrow> None)"

lemmas pool_step_defs = pool_step1_def GetWithContext_def createNewConnectionWithContext_def pool_Put_def pool_sweep_def cleanup_refill_def holder_def

record pool_sys =
  ps_pool :: ConnectionPool
  ps_procs :: "pool_proc list"

definition pool_exec :: "nat \<times> pool_choice \<Rightarrow> pool_sys \<Rightarrow> pool_sys option" where
  "pool_exec a s =
     (case a of (g, ch) \<Rightarrow>
        if g < length (ps_procs s)
        then map_option (\<lambda>(p, q). \<lparr>ps_pool = p, ps_procs = (ps_procs s)[g := q]\<rparr>)
          (pool_step1 ch (ps_procs s ! g) (ps_pool s))
        else None)"

definition pool_stp :: "pool_sys \<Rightarrow> pool_sys \<Rightarrow> bool" where
  "pool_stp s t \<longleftrightarrow> (\<exists>a. pool_exec a s = Some t)"

text \<open>A pool as the constructor leaves it, and any number of goroutines that may use it.\<close>

definition fresh_pool :: "ConnectionPool \<Rightarrow> bool" where
  "fresh_pool p \<longleftrightarrow>
     0 \<le> pl_MinSize (cp_opts p) \<and> pl_MinSize (cp_opts p) \<le> pl_MaxSize (cp_opts p)
     \<and> chan_cap (cp_pool p) = nat (pl_MaxSize (cp_opts p)) \<and> \<not> chan_closed (cp_pool p) \<and> \<not> cp_closed p
     \<and> \<not> cp_locked p \<and> cp_gone p = 0 \<and> chan_buf (cp_pool p) = [0..<length (cp_conns p)]
     \<and> cp_currentSize p = int (length (cp_conns p)) \<and> cp_currentSize p \<le> pl_MinSize (cp_opts p)"

definition pool_init :: "pool_sys \<Rightarrow> bool" where
  "pool_init s \<longleftrightarrow> fresh_pool (ps_pool s) \<and> ps_procs s \<noteq> [] \<and> set (ps_procs s) = {PIdle}"

section \<open>Accounting\<close>

text \<open>
  How many connections a goroutine accounts for in \<open>currentSize\<close>, which connections it owns, and
  whether it is creating one or refilling the pool.
\<close>

definition somes :: "'a option list \<Rightarrow> 'a list" where
  "somes cs = List.map_filter id cs"

lemma somes_simps [simp]:
  "somes [] = []" "somes (None # cs) = somes cs" "somes (Some c # cs) = c # somes cs" "somes (cs @ ds) = somes cs @ somes ds"
  by (simp_all add: somes_def map_filter_def)

fun owned :: "pool_proc \<Rightarrow> nat multiset" where
  "owned (GetGot (Some c)) = {#c#}"
| "owned (NewCount c) = {#c#}"
| "owned (Holds c) = {#c#}"
| "owned (PutCheck c) = {#c#}"
| "owned (PutHealth c) = {#c#}"
| "owned (PutSend c) = {#c#}"
| "owned (SweepDrain b cs) = mset (somes cs)"
| "owned (SweepCheck b cs) = mset (somes cs)"
| "owned (SweepDrop b cs) = mset (somes cs)"
| "owned _ = {#}"

fun counted :: "pool_proc \<Rightarrow> nat" where
  "counted (NewCount c) = 0"
| "counted GetDrop = 1"
| "counted PutDrop = 1"
| "counted (SweepDrop b cs) = Suc (length (somes cs))"
| "counted g = size (owned g)"

definition dialling :: "pool_proc \<Rightarrow> nat" where
  "dialling g = (case g of NewDial \<Rightarrow> 1 | NewCount c \<Rightarrow> 1 | _ \<Rightarrow> 0)"

definition filling :: "pool_proc \<Rightarrow> nat" where
  "filling g = (case g of Fill n \<Rightarrow> 1 | _ \<Rightarrow> 0)"

text \<open>A goroutine that has met no nil connection.\<close>

definition sound_proc :: "pool_proc \<Rightarrow> bool" where
  "sound_proc g = (case g of
      GetGot c \<Rightarrow> c \<noteq> None | SweepDrain b cs \<Rightarrow> None \<notin> set cs | SweepCheck b cs \<Rightarrow> None \<notin> set cs
    | SweepDrop b cs \<Rightarrow> None \<notin> set cs | PPanic \<Rightarrow> False | _ \<Rightarrow> True)"

definition idle :: "ConnectionPool \<Rightarrow> nat list" where
  "idle p = chan_buf (cp_pool p)"

definition pool_ok :: "ConnectionPool \<Rightarrow> bool" where
  "pool_ok p \<longleftrightarrow> 0 \<le> pl_MinSize (cp_opts p) \<and> pl_MinSize (cp_opts p) \<le> pl_MaxSize (cp_opts p)
     \<and> chan_cap (cp_pool p) = nat (pl_MaxSize (cp_opts p)) \<and> chan_closed (cp_pool p) = cp_closed p \<and> chan_wf (cp_pool p)"

definition pool_inv :: "pool_sys \<Rightarrow> bool" where
  "pool_inv s \<longleftrightarrow> (let p = ps_pool s; gs = ps_procs s in
     pool_ok p
     \<and> (\<not> cp_closed p \<longrightarrow> cp_currentSize p = int (length (idle p) + total_of counted gs + cp_gone p) \<and> (\<forall>g \<in> set gs. sound_proc g))
     \<and> (\<forall>c. count (mset (idle p) + total_of owned gs) c \<le> (if c < length (cp_conns p) then 1 else 0))
     \<and> total_of filling gs \<le> of_bool (cp_locked p)
     \<and> (\<forall>n. Fill n \<in> set gs \<longrightarrow> cp_currentSize p + int n \<le> pl_MinSize (cp_opts p))
     \<and> cp_currentSize p + int (total_of dialling gs) < pl_MaxSize (cp_opts p) + int (length gs))"

text \<open>What one section may do to the accounts, seen from the goroutine that runs it.\<close>

definition step_ok :: "ConnectionPool \<Rightarrow> pool_proc \<Rightarrow> ConnectionPool \<Rightarrow> pool_proc \<Rightarrow> bool" where
  "step_ok p g p' g' \<longleftrightarrow>
     cp_opts p' = cp_opts p \<and> pool_ok p'
     \<and> (\<not> cp_closed p' \<longrightarrow> \<not> cp_closed p \<and> sound_proc g'
          \<and> cp_currentSize p' + int (length (idle p) + counted g + cp_gone p) = cp_currentSize p + int (length (idle p') + counted g' + cp_gone p'))
     \<and> (mset (idle p') + owned g' \<subseteq># mset (idle p) + owned g \<and> length (cp_conns p') = length (cp_conns p)
        \<or> mset (idle p') + owned g' \<subseteq># add_mset (length (cp_conns p)) (mset (idle p) + owned g) \<and> length (cp_conns p') = Suc (length (cp_conns p)))
     \<and> filling g' + of_bool (cp_locked p) \<le> filling g + of_bool (cp_locked p')
     \<and> (cp_locked p \<and> filling g = 0 \<longrightarrow> cp_currentSize p' \<le> cp_currentSize p)
     \<and> (\<forall>n. g' = Fill n \<longrightarrow> cp_currentSize p' + int n \<le> pl_MinSize (cp_opts p))
     \<and> (cp_currentSize p' + int (dialling g') \<le> cp_currentSize p + int (dialling g)
        \<or> cp_currentSize p' + int (dialling g') \<le> pl_MaxSize (cp_opts p))"

lemma dialling_le: "total_of dialling gs \<le> length gs"
  by (induction gs) (auto simp: dialling_def split: pool_proc.splits)

lemma dialling_others: "i < length gs \<Longrightarrow> dialling (gs ! i) = 0 \<Longrightarrow> total_of dialling gs < length gs"
proof (induction gs arbitrary: i)
  case (Cons g gs)
  have "dialling g \<le> 1"
    by (simp add: dialling_def split: pool_proc.splits)
  then show ?case
    using Cons dialling_le [of gs] by (cases i) fastforce+
qed simp

lemma filling_le: "filling g \<le> total_of filling gs" if "g \<in> set gs"
  using that by (induction gs) auto

lemma pool_invD:
  assumes "pool_inv s"
  shows "pool_ok (ps_pool s)"
    and "\<not> cp_closed (ps_pool s) \<Longrightarrow>
      cp_currentSize (ps_pool s) = int (length (idle (ps_pool s)) + total_of counted (ps_procs s) + cp_gone (ps_pool s))"
    and "\<not> cp_closed (ps_pool s) \<Longrightarrow> g \<in> set (ps_procs s) \<Longrightarrow> sound_proc g"
    and "count (mset (idle (ps_pool s)) + total_of owned (ps_procs s)) c \<le> (if c < length (cp_conns (ps_pool s)) then 1 else 0)"
    and "total_of filling (ps_procs s) \<le> of_bool (cp_locked (ps_pool s))"
    and "Fill n \<in> set (ps_procs s) \<Longrightarrow> cp_currentSize (ps_pool s) + int n \<le> pl_MinSize (cp_opts (ps_pool s))"
    and "cp_currentSize (ps_pool s) + int (total_of dialling (ps_procs s)) < pl_MaxSize (cp_opts (ps_pool s)) + int (length (ps_procs s))"
  using assms unfolding pool_inv_def Let_def by blast+

lemma pool_invI:
  assumes "pool_ok p"
    and "\<not> cp_closed p \<Longrightarrow> cp_currentSize p = int (length (idle p) + total_of counted gs + cp_gone p)"
    and "\<And>g. \<not> cp_closed p \<Longrightarrow> g \<in> set gs \<Longrightarrow> sound_proc g"
    and "\<And>c. count (mset (idle p) + total_of owned gs) c \<le> (if c < length (cp_conns p) then 1 else 0)"
    and "total_of filling gs \<le> of_bool (cp_locked p)"
    and "\<And>n. Fill n \<in> set gs \<Longrightarrow> cp_currentSize p + int n \<le> pl_MinSize (cp_opts p)"
    and "cp_currentSize p + int (total_of dialling gs) < pl_MaxSize (cp_opts p) + int (length gs)"
  shows "pool_inv \<lparr>ps_pool = p, ps_procs = gs\<rparr>"
  unfolding pool_inv_def Let_def pool_sys.simps using assms by blast

lemma step_okD:
  assumes "step_ok p g p' g'"
  shows "cp_opts p' = cp_opts p" "pool_ok p'" "\<not> cp_closed p' \<Longrightarrow> \<not> cp_closed p" "\<not> cp_closed p' \<Longrightarrow> sound_proc g'"
    "\<not> cp_closed p' \<Longrightarrow> cp_currentSize p' + int (length (idle p) + counted g + cp_gone p)
      = cp_currentSize p + int (length (idle p') + counted g' + cp_gone p')"
    "mset (idle p') + owned g' \<subseteq># mset (idle p) + owned g \<and> length (cp_conns p') = length (cp_conns p)
      \<or> mset (idle p') + owned g' \<subseteq># add_mset (length (cp_conns p)) (mset (idle p) + owned g) \<and> length (cp_conns p') = Suc (length (cp_conns p))"
    "filling g' + of_bool (cp_locked p) \<le> filling g + of_bool (cp_locked p')"
    "cp_locked p \<Longrightarrow> filling g = 0 \<Longrightarrow> cp_currentSize p' \<le> cp_currentSize p"
    "g' = Fill n \<Longrightarrow> cp_currentSize p' + int n \<le> pl_MinSize (cp_opts p)"
    "cp_currentSize p' + int (dialling g') \<le> cp_currentSize p + int (dialling g)
        \<or> cp_currentSize p' + int (dialling g') \<le> pl_MaxSize (cp_opts p)"
  using assms unfolding step_ok_def by blast+

lemma own_count:
  fixes A B X Y :: "nat multiset"
  assumes "A + Y = B + X" and "B \<subseteq># Y \<and> n' = n \<or> B \<subseteq># add_mset n Y \<and> n' = Suc n"
    and "count X c \<le> (if c < n then 1 else 0)"
  shows "count A c \<le> (if c < n' then 1 else (0::nat))"
proof -
  have eq: "count A c + count Y c = count B c + count X c"
    using assms(1) by (metis count_union)
  show ?thesis
    using assms(2)
  proof
    assume "B \<subseteq># Y \<and> n' = n"
    then show ?thesis
      using eq assms(3) mset_subset_eq_count [of B Y c] by auto
  next
    assume "B \<subseteq># add_mset n Y \<and> n' = Suc n"
    then show ?thesis
      using eq assms(3) mset_subset_eq_count [of B "add_mset n Y" c] by (auto split: if_splits)
  qed
qed

lemma pool_inv_step1:
  assumes inv: "pool_inv s" and i: "i < length (ps_procs s)" and ok: "step_ok (ps_pool s) (ps_procs s ! i) p' g'"
  shows "pool_inv \<lparr>ps_pool = p', ps_procs = (ps_procs s)[i := g']\<rparr>"
proof -
  let ?p = "ps_pool s" and ?gs = "ps_procs s" and ?g = "ps_procs s ! i" and ?gs' = "(ps_procs s)[i := g']"
  note up = total_of_update [OF i]
  note mem = nth_mem [OF i]
  have set': "g \<in> set ?gs' \<Longrightarrow> g = g' \<or> g \<in> set ?gs" for g
    using set_update_subset_insert [of ?gs i g'] by auto
  show ?thesis
  proof (rule pool_invI)
    show "pool_ok p'"
      by (rule step_okD(2) [OF ok])
    show "cp_currentSize p' = int (length (idle p') + total_of counted ?gs' + cp_gone p')" if "\<not> cp_closed p'"
      using step_okD(5) [OF ok that] pool_invD(2) [OF inv step_okD(3) [OF ok that]] up [of counted g'] by linarith
    show "sound_proc g" if "\<not> cp_closed p'" "g \<in> set ?gs'" for g
      using set' [OF that(2)] step_okD(3,4) [OF ok that(1)] pool_invD(3) [OF inv] by blast
    show "count (mset (idle p') + total_of owned ?gs') c \<le> (if c < length (cp_conns p') then 1 else 0)" for c
      using up [of owned g'] by (intro own_count [OF _ step_okD(6) [OF ok] pool_invD(4) [OF inv]]) (simp add: ac_simps)
    show "total_of filling ?gs' \<le> of_bool (cp_locked p')"
      using step_okD(7) [OF ok] pool_invD(5) [OF inv] up [of filling g'] by linarith
    show "cp_currentSize p' + int n \<le> pl_MinSize (cp_opts p')" if n: "Fill n \<in> set ?gs'" for n
    proof (cases "g' = Fill n")
      case True
      then show ?thesis
        using step_okD(1,9) [OF ok] by metis
    next
      case False
      have "filling g' + (total_of filling ?gs - filling ?g) = total_of filling ?gs'"
        using up [of filling g'] filling_le [OF mem] by linarith
      moreover have "filling (Fill n) \<le> total_of filling (list_update ?gs i PIdle)"
        using n False i by (intro filling_le) (auto simp: in_set_conv_nth nth_list_update split: if_splits)
      then have "1 \<le> total_of filling ?gs - filling ?g"
        using up [of filling PIdle] by (simp add: filling_def)
      then have "filling ?g = 0" "cp_locked ?p"
        using pool_invD(5) [OF inv] filling_le [OF mem] by (cases "cp_locked ?p"; auto)+
      then show ?thesis
        using step_okD(1) [OF ok] step_okD(8) [OF ok] pool_invD(6) [OF inv, of n] set' [OF n] False by auto
    qed
    have "total_of dialling ?gs' \<le> dialling g' + (length ?gs - 1)"
      using dialling_others [of i "list_update ?gs i PIdle"] total_of_update [of i "list_update ?gs i PIdle" dialling g'] i
      by (simp add: dialling_def)
    then show "cp_currentSize p' + int (total_of dialling ?gs') < pl_MaxSize (cp_opts p') + int (length ?gs')"
      using step_okD(1,10) [OF ok] pool_invD(7) [OF inv] up [of dialling g'] i by auto
  qed
qed

section \<open>Every section keeps the accounts\<close>

lemma upd_conn_simps [simp]:
  "cp_opts (upd_conn f c p) = cp_opts p" "cp_pool (upd_conn f c p) = cp_pool p" "cp_currentSize (upd_conn f c p) = cp_currentSize p"
  "cp_closed (upd_conn f c p) = cp_closed p" "cp_locked (upd_conn f c p) = cp_locked p" "cp_gone (upd_conn f c p) = cp_gone p"
  "length (cp_conns (upd_conn f c p)) = length (cp_conns p)" "idle (upd_conn f c p) = idle p"
  by (simp_all add: upd_conn_def idle_def)

lemma discard_simps [simp]:
  "cp_opts (discard c p) = cp_opts p" "cp_pool (discard c p) = cp_pool p" "cp_currentSize (discard c p) = cp_currentSize p"
  "cp_closed (discard c p) = cp_closed p" "cp_locked (discard c p) = cp_locked p" "cp_gone (discard c p) = cp_gone p"
  "length (cp_conns (discard c p)) = length (cp_conns p)" "idle (discard c p) = idle p"
  by (simp_all add: discard_def idle_def)

lemma fold_discard_simps [simp]:
  "cp_opts (fold discard cs p) = cp_opts p" "cp_pool (fold discard cs p) = cp_pool p"
  "cp_currentSize (fold discard cs p) = cp_currentSize p" "cp_closed (fold discard cs p) = cp_closed p"
  "cp_locked (fold discard cs p) = cp_locked p" "cp_gone (fold discard cs p) = cp_gone p"
  "length (cp_conns (fold discard cs p)) = length (cp_conns p)"
  by (induction cs arbitrary: p) simp_all

lemma pool_ok_cong [simp]:
  "pool_ok (discard c p) = pool_ok p" "pool_ok (upd_conn f c p) = pool_ok p"
  "pool_ok (p\<lparr>cp_currentSize := n\<rparr>) = pool_ok p" "pool_ok (p\<lparr>cp_createCount := n\<rparr>) = pool_ok p"
  "pool_ok (p\<lparr>cp_getCount := n\<rparr>) = pool_ok p" "pool_ok (p\<lparr>cp_putCount := n\<rparr>) = pool_ok p"
  "pool_ok (p\<lparr>cp_locked := b\<rparr>) = pool_ok p" "pool_ok (p\<lparr>cp_gone := k\<rparr>) = pool_ok p" "pool_ok (p\<lparr>cp_conns := cs\<rparr>) = pool_ok p"
  by (simp_all add: pool_ok_def)

lemma idle_upd [simp]:
  "idle (p\<lparr>cp_currentSize := n\<rparr>) = idle p" "idle (p\<lparr>cp_createCount := n\<rparr>) = idle p"
  "idle (p\<lparr>cp_getCount := n\<rparr>) = idle p" "idle (p\<lparr>cp_putCount := n\<rparr>) = idle p"
  "idle (p\<lparr>cp_locked := b\<rparr>) = idle p" "idle (p\<lparr>cp_gone := k\<rparr>) = idle p" "idle (p\<lparr>cp_conns := cs\<rparr>) = idle p"
  by (simp_all add: idle_def)

text \<open>What the channel operations do to the rest of the pool.\<close>

lemma pool_recvE:
  assumes "pool_recv p = (p', r)" and "pool_ok p"
  obtains c where "r = Got c" "idle p = c # idle p'" "p' = p\<lparr>cp_pool := cp_pool p'\<rparr>" "pool_ok p'"
  | "r = RecvClosed" "p' = p" "cp_closed p"
  | "r = RecvEmpty" "p' = p" "\<not> cp_closed p" "idle p = []"
  using assms
  by (cases "chan_buf (cp_pool p)")
    (auto simp: pool_recv_def try_recv_def idle_def pool_ok_def chan_wf_def split: if_splits)

lemma pool_sendE:
  assumes "pool_send c p = (p', r)" and "pool_ok p"
  obtains "r = Sent" "idle p' = idle p @ [c]" "p' = p\<lparr>cp_pool := cp_pool p'\<rparr>" "pool_ok p'" "\<not> cp_closed p"
  | "r = SendFull" "p' = p" "\<not> cp_closed p" "length (idle p) = nat (pl_MaxSize (cp_opts p))"
  | "r = SendPanic" "p' = p" "cp_closed p"
  using assms
  by (auto simp: pool_send_def try_send_def idle_def pool_ok_def chan_wf_def split: if_splits)

lemma pool_upd_simps:
  assumes "p' = p\<lparr>cp_pool := ch\<rparr>"
  shows "cp_opts p' = cp_opts p" "cp_currentSize p' = cp_currentSize p" "cp_closed p' = cp_closed p" "cp_locked p' = cp_locked p"
    "cp_gone p' = cp_gone p" "cp_conns p' = cp_conns p"
  using assms by simp_all

lemmas step_defs = step_ok_def pool_step_defs dialling_def filling_def sound_proc_def shrink_def add_conn_def

lemma step_ok_recv:
  assumes ok: "pool_ok p" and "sound_proc g \<or> cp_closed p" and "filling g = 0"
    and g: "g = GetSelect \<or> g = NewWait \<or> (\<exists>b cs. g = SweepDrain b cs)"
    and st: "pool_step1 (PGo now) g p = Some (p', g')"
  shows "step_ok p g p' g'"
proof -
  obtain q r where q: "pool_recv p = (q, r)"
    by fastforce
  from q ok show ?thesis
  proof (cases rule: pool_recvE)
    case (1 c)
    then show ?thesis
      using assms q pool_upd_simps [OF 1(3)] by (elim disjE exE) (auto simp: step_defs ac_simps)
  next
    case 2
    then show ?thesis
      using assms q by (elim disjE exE) (auto simp: step_defs)
  next
    case 3
    then show ?thesis
      using assms q by (elim disjE exE) (auto simp: step_defs)
  qed
qed

lemma step_ok_send:
  assumes ok: "pool_ok p" and sound: "sound_proc g \<or> cp_closed p"
    and g: "g = PutSend c \<or> g = SweepCheck b (Some c # cs)"
    and st: "pool_step1 a g p = Some (p', g')"
  shows "step_ok p g p' g'"
proof -
  obtain q r where q: "pool_send c p = (q, r)"
    by fastforce
  from q ok show ?thesis
  proof (cases rule: pool_sendE)
    case 1
    then show ?thesis
      using assms q pool_upd_simps [OF 1(3)]
      by (elim disjE) (auto simp: step_defs ac_simps split: pool_choice.splits if_splits)
  next
    case 2
    then show ?thesis
      using assms q by (elim disjE) (auto simp: step_defs split: pool_choice.splits if_splits)
  next
    case 3
    then show ?thesis
      using assms q by (elim disjE) (auto simp: step_defs split: pool_choice.splits if_splits)
  qed
qed

lemma step_ok_fill:
  assumes ok: "pool_ok p" and locked: "cp_locked p" and room: "cp_currentSize p + int (Suc n) \<le> pl_MinSize (cp_opts p)"
    and st: "pool_step1 a (Fill (Suc n)) p = Some (p', g')"
  shows "step_ok p (Fill (Suc n)) p' g'"
proof (cases "\<exists>now. a = PDial (Inr now)")
  case True
  then obtain now where a: "a = PDial (Inr now)"
    by blast
  define p1 where "p1 = p\<lparr>cp_conns := cp_conns p @ [newPooledConnection now True]\<rparr>"
  have p1: "cp_opts p1 = cp_opts p" "cp_currentSize p1 = cp_currentSize p" "cp_closed p1 = cp_closed p" "cp_locked p1 = cp_locked p"
    "cp_gone p1 = cp_gone p" "length (cp_conns p1) = Suc (length (cp_conns p))" "idle p1 = idle p" "pool_ok p1"
    using ok by (simp_all add: p1_def)
  obtain q r where q: "pool_send (length (cp_conns p)) p1 = (q, r)"
    by fastforce
  from q p1(8) show ?thesis
  proof (cases rule: pool_sendE)
    case 1
    have "p' = q\<lparr>cp_currentSize := cp_currentSize q + 1, cp_createCount := wrap64 (cp_createCount q + 1)\<rparr> \<and> g' = Fill n"
      using st a q 1(1) by (simp add: pool_step_defs add_conn_def p1_def)
    then show ?thesis
      using 1 pool_upd_simps [OF 1(3)] p1 locked room ok
      by (auto simp: step_ok_def dialling_def filling_def sound_proc_def pool_ok_def)
  next
    case 2
    then show ?thesis
      using st a q by (simp add: pool_step_defs add_conn_def p1_def)
  next
    case 3
    then have "p' = p1 \<and> g' = PPanic"
      using st a q by (simp add: pool_step_defs add_conn_def p1_def)
    then show ?thesis
      using 3 p1 by (auto simp: step_ok_def dialling_def filling_def)
  qed
next
  case False
  then show ?thesis
    using st ok locked by (auto simp: step_defs split: pool_choice.splits sum.splits)
qed

lemma step_ok_close:
  assumes "pool_ok p" and "\<not> cp_locked p"
  shows "step_ok p PIdle (pool_Close p) PIdle"
  using assms
  by (auto simp: step_defs pool_Close_def pool_ok_def chan_wf_def idle_def)

lemma pool_step_ok:
  assumes ok: "pool_ok p" and sound: "sound_proc g \<or> cp_closed p"
    and fill: "\<And>n. g = Fill n \<Longrightarrow> cp_locked p \<and> cp_currentSize p + int n \<le> pl_MinSize (cp_opts p)"
    and st: "pool_step1 a g p = Some (p', g')"
  shows "step_ok p g p' g'"
proof (cases g)
  case PIdle
  then show ?thesis
    using st ok step_ok_close [OF ok] by (cases a) (auto simp: step_defs split: if_splits)
next
  case GetSelect
  show ?thesis
  proof (cases "\<exists>now. a = PGo now")
    case True
    then show ?thesis
      using GetSelect st step_ok_recv [OF ok sound, of _ p' g'] by (auto simp: filling_def)
  next
    case False
    then show ?thesis
      using GetSelect st ok by (auto simp: step_defs split: pool_choice.splits)
  qed
next
  case (GetGot c)
  then show ?thesis
    using st ok sound by (cases c; cases a) (auto simp: step_defs split: if_splits)
next
  case NewWait
  show ?thesis
  proof (cases "\<exists>now. a = PGo now")
    case True
    then show ?thesis
      using NewWait st step_ok_recv [OF ok sound, of _ p' g'] by (auto simp: filling_def)
  next
    case False
    then show ?thesis
      using NewWait st ok by (auto simp: step_defs split: pool_choice.splits)
  qed
next
  case (SweepDrain b cs)
  then have "pool_step1 (PGo 0) g p = Some (p', g')"
    using st by (simp add: pool_step_defs)
  then show ?thesis
    using SweepDrain step_ok_recv [OF ok sound, of 0 p' g'] by (simp add: filling_def)
next
  case (SweepCheck b cs)
  show ?thesis
  proof (cases "\<exists>c ds. cs = Some c # ds")
    case True
    then show ?thesis
      using SweepCheck step_ok_send [OF ok sound _ st] by blast
  next
    case False
    then have "cs = [] \<or> (\<exists>ds. cs = None # ds)"
      by (metis list.exhaust not_Some_eq)
    then show ?thesis
      using SweepCheck st ok sound by (auto simp: step_defs split: if_splits)
  qed
next
  case (PutSend c)
  then show ?thesis
    using step_ok_send [OF ok sound _ st] by blast
next
  case (Fill n)
  then show ?thesis
    using st ok fill step_ok_fill [OF ok, of _ a p' g'] by (cases n) (auto simp: step_defs)
qed (use st ok sound in \<open>auto simp: step_defs nat_le_iff split: pool_choice.splits sum.splits if_splits\<close>)

lemma pool_inv_step:
  assumes "pool_stp s t" and inv: "pool_inv s"
  shows "pool_inv t"
proof -
  obtain i a p' g' where i: "i < length (ps_procs s)" and st: "pool_step1 a (ps_procs s ! i) (ps_pool s) = Some (p', g')"
    and t: "t = \<lparr>ps_pool = p', ps_procs = (ps_procs s)[i := g']\<rparr>"
    using assms(1) by (auto simp: pool_stp_def pool_exec_def split: if_splits)
  have "cp_locked (ps_pool s) \<and> cp_currentSize (ps_pool s) + int n \<le> pl_MinSize (cp_opts (ps_pool s))"
    if "ps_procs s ! i = Fill n" for n
    using that pool_invD(5,6) [OF inv] filling_le [OF nth_mem [OF i]] nth_mem [OF i]
    by (cases "cp_locked (ps_pool s)") (auto simp: filling_def)
  then have "step_ok (ps_pool s) (ps_procs s ! i) p' g'"
    using pool_invD(1,3) [OF inv] nth_mem [OF i] by (intro pool_step_ok [OF _ _ _ st]) blast+
  then show ?thesis
    unfolding t by (rule pool_inv_step1 [OF inv i])
qed

lemma count_upt: "count (mset [0..<n]) c = (if c < n then 1 else 0)"
  by (induction n) auto

interpretation pool: invariant_system pool_init pool_stp pool_inv
proof
  fix s
  assume init: "pool_init s"
  then have "f PIdle = 0 \<Longrightarrow> total_of f (ps_procs s) = 0" for f :: "pool_proc \<Rightarrow> 'x::comm_monoid_add"
    by (intro total_of_0) (auto simp: pool_init_def)
  from this [of counted] this [of owned] this [of filling] this [of dialling]
  have "total_of counted (ps_procs s) = 0" "total_of owned (ps_procs s) = 0" "total_of filling (ps_procs s) = 0"
    "total_of dialling (ps_procs s) = 0"
    by (simp_all add: filling_def dialling_def)
  note zero = this
  have fresh: "fresh_pool (ps_pool s)" and procs: "0 < length (ps_procs s)" "set (ps_procs s) = {PIdle}"
    using init by (auto simp: pool_init_def)
  have buf: "idle (ps_pool s) = [0..<length (cp_conns (ps_pool s))]"
    using fresh by (simp add: fresh_pool_def idle_def)
  moreover have "length (cp_conns (ps_pool s)) \<le> nat (pl_MaxSize (cp_opts (ps_pool s)))"
    using fresh unfolding fresh_pool_def by linarith
  ultimately have p: "pool_ok (ps_pool s)" "cp_currentSize (ps_pool s) = int (length (idle (ps_pool s)))" "cp_gone (ps_pool s) = 0"
    "cp_currentSize (ps_pool s) \<le> pl_MaxSize (cp_opts (ps_pool s))"
    using fresh by (simp_all add: fresh_pool_def pool_ok_def chan_wf_def)
  have "pool_inv \<lparr>ps_pool = ps_pool s, ps_procs = ps_procs s\<rparr>"
  proof (rule pool_invI)
    show "count (mset (idle (ps_pool s)) + total_of owned (ps_procs s)) c \<le> (if c < length (cp_conns (ps_pool s)) then 1 else 0)" for c
      unfolding zero buf count_union count_upt by simp
    show "cp_currentSize (ps_pool s) + int (total_of dialling (ps_procs s)) < pl_MaxSize (cp_opts (ps_pool s)) + int (length (ps_procs s))"
      using p(4) procs(1) unfolding zero by linarith
  qed (use p procs in \<open>simp_all add: zero sound_proc_def\<close>)
  then show "pool_inv s"
    by (cases s) simp
qed (rule pool_inv_step)

text \<open>The constructor makes a fresh pool.\<close>

lemma precreate_fresh:
  assumes "precreate env factory n p w = Some (w', p')" and "fresh_pool p"
    and "cp_currentSize p + int n \<le> pl_MinSize (cp_opts p)"
  shows "fresh_pool p'"
  using assms
proof (induction n arbitrary: p w)
  case (Suc n)
  obtain w1 r where r: "createConnection env factory (cp_address p) w = (w1, r)"
    by fastforce
  show ?case
  proof (cases r)
    case (Inl e)
    then show ?thesis
      using Suc.prems r by simp
  next
    case (Inr pc)
    let ?p1 = "p\<lparr>cp_conns := cp_conns p @ [pc]\<rparr>"
    let ?p2 = "?p1\<lparr>cp_pool := (cp_pool p)\<lparr>chan_buf := chan_buf (cp_pool p) @ [length (cp_conns p)]\<rparr>\<rparr>"
    let ?p3 = "?p2\<lparr>cp_currentSize := cp_currentSize p + 1, cp_createCount := wrap64 (cp_createCount p + 1)\<rparr>"
    have "length (chan_buf (cp_pool p)) < chan_cap (cp_pool p)"
      using Suc.prems(2,3) by (auto simp: fresh_pool_def)
    then have "precreate env factory n ?p3 w1 = Some (w', p')"
      using Suc.prems r Inr by (simp add: add_conn_def pool_send_def try_send_def fresh_pool_def)
    moreover have "fresh_pool ?p3"
      using Suc.prems(2,3) by (simp add: fresh_pool_def)
    ultimately show ?thesis
      using Suc.IH [of ?p3 w1] Suc.prems(3) by simp
  qed
qed simp

lemma NewConnectionPool_fresh:
  assumes "NewConnectionPool env address options w = Some (w', Inr p)"
    and "pl_Validator (apply_options options DefaultPoolOptions) = None"
  shows "fresh_pool p"
proof -
  let ?opts = "apply_options options DefaultPoolOptions"
  have v: "snd (DefaultPoolValidator_Validate ?opts) = None"
    using assms by (cases "snd (DefaultPoolValidator_Validate ?opts)") (simp_all add: NewConnectionPool_def)
  define factory where "factory = (case pl_ConnectionFactory ?opts of
      None \<Rightarrow> pe_default env (NewDefaultConnectionFactory (pl_CodecType ?opts) (pl_CompressType ?opts) (pl_DialTimeout ?opts))
    | Some f \<Rightarrow> pe_factory env f)"
  have "precreate env factory (nat (pl_MinSize ?opts))
       \<lparr>cp_address = address, cp_opts = ?opts, cp_pool = make_chan (nat (pl_MaxSize ?opts)), cp_currentSize = 0,
        cp_closed = False, cp_stopCleanup = False, cp_getCount = 0, cp_putCount = 0, cp_createCount = 0,
        cp_closeCount = 0, cp_locked = False, cp_conns = [], cp_gone = 0\<rparr> w = Some (w', p)"
    using assms v by (cases "Factory_Validate factory") (auto simp: NewConnectionPool_def Let_def factory_def [symmetric])
  then show ?thesis
    by (rule precreate_fresh) (use validated_sizes [OF v] in \<open>simp_all add: fresh_pool_def make_chan_def\<close>)
qed

section \<open>Properties of the pool\<close>

fun pool_run :: "(nat \<times> pool_choice) list \<Rightarrow> pool_sys \<Rightarrow> pool_sys option" where
  "pool_run [] s = Some s"
| "pool_run (a # as) s = Option.bind (pool_exec a s) (pool_run as)"

lemma pool_run_reach: "reach ini pool_stp s \<Longrightarrow> pool_run as s = Some t \<Longrightarrow> reach ini pool_stp t"
proof (induction as arbitrary: s)
  case (Cons a as)
  then obtain s1 where "pool_exec a s = Some s1" "pool_run as s1 = Some t"
    by (auto simp: bind_eq_Some_conv)
  then show ?case
    using Cons by (blast intro: reach_step pool_stp_def [THEN iffD2])
qed simp

text \<open>The systems that start from a pool the constructor returned under the built-in validator.\<close>

definition built_pool :: "('f, 'c) pool_env \<Rightarrow> pool_sys \<Rightarrow> bool" where
  "built_pool env s \<longleftrightarrow> ps_procs s \<noteq> [] \<and> set (ps_procs s) = {PIdle}
     \<and> (\<exists>address options w w'. pl_Validator (apply_options options DefaultPoolOptions) = None
          \<and> NewConnectionPool env address options w = Some (w', Inr (ps_pool s)))"

lemma built_pool_inv: "reach (built_pool env) pool_stp s \<Longrightarrow> pool_inv s"
proof (induction rule: reach.induct)
  case (reach_init s)
  then have "pool_init s"
    using NewConnectionPool_fresh by (auto simp: built_pool_def pool_init_def)
  then show ?case
    by (rule pool.inv_init)
qed (rule pool_inv_step)

text \<open>
  (C3) A pool that the constructor built keeps its books in every interleaving of callers and background
  routines, connections lost at any time and dials that fail: while it is open, \<open>currentSize\<close> is the
  number of idle connections plus those that goroutines hold or are about to count out, plus those
  callers closed without giving them back; no goroutine panics; no connection is idle and held, or
  held by two goroutines, at the same time; and the refill that runs under the lock never blocks.
\<close>

theorem pool_accounts:
  assumes "reach (built_pool env) pool_stp s"
  shows "(\<not> cp_closed (ps_pool s) \<longrightarrow>
        cp_currentSize (ps_pool s) = int (length (idle (ps_pool s)) + total_of counted (ps_procs s) + cp_gone (ps_pool s))
        \<and> PPanic \<notin> set (ps_procs s)
        \<and> (\<forall>i n now. i < length (ps_procs s) \<and> ps_procs s ! i = Fill (Suc n) \<longrightarrow> pool_exec (i, PDial (Inr now)) s \<noteq> None))
    \<and> (\<forall>c. count (mset (idle (ps_pool s)) + total_of owned (ps_procs s)) c \<le> 1)"
proof -
  let ?p = "ps_pool s"
  note inv = built_pool_inv [OF assms]
  have "count (mset (idle ?p) + total_of owned (ps_procs s)) c \<le> 1" for c
    by (rule order_trans [OF pool_invD(4) [OF inv]]) simp
  moreover have "pool_exec (i, PDial (Inr now)) s \<noteq> None"
    if "\<not> cp_closed ?p" and i: "i < length (ps_procs s)" "ps_procs s ! i = Fill (Suc n)" for i n now
  proof -
    have "cp_currentSize ?p + int (Suc n) \<le> pl_MinSize (cp_opts ?p)"
      using pool_invD(6) [OF inv, of "Suc n"] nth_mem [OF i(1)] i(2) by simp
    then have "length (idle ?p) < nat (pl_MaxSize (cp_opts ?p))"
      using pool_invD(2) [OF inv that(1)] pool_invD(1) [OF inv] unfolding pool_ok_def by linarith
    then show ?thesis
      using i that(1) pool_invD(1) [OF inv]
      by (simp add: pool_exec_def pool_step_defs add_conn_def pool_send_def try_send_def pool_ok_def idle_def)
  qed
  moreover have "PPanic \<notin> set (ps_procs s)" if "\<not> cp_closed ?p"
    using pool_invD(3) [OF inv that, of PPanic] by (auto simp: sound_proc_def)
  ultimately show ?thesis
    using pool_invD(2) [OF inv] by blast
qed

definition one_conn_pool :: ConnectionPool where
  "one_conn_pool = \<lparr>cp_address = ''a'', cp_opts = WithPoolSize 1 0 DefaultPoolOptions, cp_pool = make_chan 1, cp_currentSize = 0,
     cp_closed = False, cp_stopCleanup = False, cp_getCount = 0, cp_putCount = 0, cp_createCount = 0,
     cp_closeCount = 0, cp_locked = False, cp_conns = [], cp_gone = 0\<rparr>"

lemma one_conn_pool_init: "pool_init \<lparr>ps_pool = one_conn_pool, ps_procs = [PIdle, PIdle]\<rparr>"
  by (simp add: pool_init_def fresh_pool_def one_conn_pool_def WithPoolSize_def make_chan_def)

text \<open>Two callers pass the size check one after the other, then both dial and count.\<close>

definition racing_run :: "(nat \<times> pool_choice) list" where
  "racing_run = [(0, PGet), (0, PGo 0), (0, PGo 0), (0, PGo 0), (1, PGet), (1, PGo 0), (1, PGo 0), (1, PGo 0),
     (0, PDial (Inr 0)), (1, PDial (Inr 0)), (0, PGo 0), (1, PGo 0)]"

lemmas pool_run_simps = pool_exec_def pool_step_defs pool_recv_def try_recv_def pool_send_def try_send_def add_conn_def make_chan_def

lemma racing_run_ends:
  "\<exists>s. pool_run racing_run \<lparr>ps_pool = one_conn_pool, ps_procs = [PIdle, PIdle]\<rparr> = Some s
     \<and> ps_procs s = [Holds 0, Holds 1] \<and> cp_currentSize (ps_pool s) = 2 \<and> pl_MaxSize (cp_opts (ps_pool s)) = 1"
  by (simp add: racing_run_def one_conn_pool_def WithPoolSize_def pool_run_simps)

definition sample_pool_env :: "(unit, unit) pool_env" where
  "sample_pool_env = \<lparr>pe_factory = \<lambda>_. \<lparr>Create = \<lambda>_ w. (w, Inr ()), Factory_Validate = None\<rparr>,
     pe_default = \<lambda>_. \<lparr>Create = \<lambda>_ w. (w, Inr ()), Factory_Validate = None\<rparr>,
     pe_validator = \<lambda>_ _. None, pe_now = \<lambda>_. 0, pe_connected = \<lambda>_. True\<rparr>"

lemma one_conn_pool_built:
  "NewConnectionPool sample_pool_env ''a'' [WithPoolSize 1 0] () = Some ((), Inr one_conn_pool)"
proof -
  have "snd (DefaultPoolValidator_Validate (WithPoolSize 1 0 DefaultPoolOptions)) = None"
    by (simp add: DefaultPoolValidator_Validate_def WithPoolSize_def DefaultPoolOptions_def Let_def Second_def Minute_def
        CodecTypeJSON_def CodecTypeProtobuf_def CodecTypeMsgPack_def)
  then show ?thesis
    by (simp add: NewConnectionPool_def Let_def sample_pool_env_def one_conn_pool_def)
      (simp add: WithPoolSize_def DefaultPoolOptions_def)
qed

theorem pool_accounts_witness:
  "\<exists>s. reach (built_pool sample_pool_env) pool_stp s \<and> ps_procs s = [Holds 0, Holds 1] \<and> cp_currentSize (ps_pool s) = 2
     \<and> (\<forall>c. count (mset (idle (ps_pool s)) + total_of owned (ps_procs s)) c \<le> 1)"
proof -
  let ?s = "\<lparr>ps_pool = one_conn_pool, ps_procs = [PIdle, PIdle]\<rparr>"
  obtain s where s: "pool_run racing_run ?s = Some s" "ps_procs s = [Holds 0, Holds 1]" "cp_currentSize (ps_pool s) = 2"
    using racing_run_ends by blast
  have "pl_Validator (apply_options [WithPoolSize 1 0] DefaultPoolOptions) = None"
    by (simp add: WithPoolSize_def DefaultPoolOptions_def)
  then have "built_pool sample_pool_env ?s"
    unfolding built_pool_def using one_conn_pool_built by (auto simp only: pool_sys.simps list.set)
  then have "reach (built_pool sample_pool_env) pool_stp s"
    by (intro pool_run_reach [OF _ s(1)] reach_init)
  then show ?thesis
    using pool_accounts [of sample_pool_env s] s(2,3) by blast
qed

text \<open>
  How far the pool exceeds its limit: the size check and the count are two critical sections, so
  with \<open>n\<close> goroutines at work the pool may hold up to \<open>n - 1\<close> connections more than \<open>MaxSize\<close>, never
  more; with one goroutine the limit is kept, with two it is exceeded.
\<close>

theorem pool_overshoot:
  "(\<forall>s. reach pool_init pool_stp s \<longrightarrow>
      cp_currentSize (ps_pool s) + int (total_of dialling (ps_procs s)) \<le> pl_MaxSize (cp_opts (ps_pool s)) + int (length (ps_procs s)) - 1)
   \<and> (\<exists>s. reach pool_init pool_stp s \<and> length (ps_procs s) = 2
        \<and> cp_currentSize (ps_pool s) = pl_MaxSize (cp_opts (ps_pool s)) + 1)"
proof (intro conjI allI impI)
  fix s
  assume "reach pool_init pool_stp s"
  from pool_invD(7) [OF pool.reach_inv [OF this]]
  show "cp_currentSize (ps_pool s) + int (total_of dialling (ps_procs s)) \<le> pl_MaxSize (cp_opts (ps_pool s)) + int (length (ps_procs s)) - 1"
    by linarith
next
  obtain s where s: "pool_run racing_run \<lparr>ps_pool = one_conn_pool, ps_procs = [PIdle, PIdle]\<rparr> = Some s"
    "ps_procs s = [Holds 0, Holds 1]" "cp_currentSize (ps_pool s) = 2" "pl_MaxSize (cp_opts (ps_pool s)) = 1"
    using racing_run_ends by blast
  have "reach pool_init pool_stp s"
    by (rule pool_run_reach [OF _ s(1)]) (rule reach_init, rule one_conn_pool_init)
  then show "\<exists>s. reach pool_init pool_stp s \<and> length (ps_procs s) = 2
      \<and> cp_currentSize (ps_pool s) = pl_MaxSize (cp_opts (ps_pool s)) + 1"
    using s(2-4) by (intro exI [of _ s]) simp
qed

theorem pool_overshoot_witness:
  "cp_currentSize one_conn_pool + int (total_of dialling [PIdle, PIdle]) \<le> 1 + int (length [PIdle, PIdle]) - 1"
proof -
  let ?s = "\<lparr>ps_pool = one_conn_pool, ps_procs = [PIdle, PIdle]\<rparr>"
  have "reach pool_init pool_stp ?s"
    by (rule reach_init, rule one_conn_pool_init)
  then have "cp_currentSize (ps_pool ?s) + int (total_of dialling (ps_procs ?s))
      \<le> pl_MaxSize (cp_opts (ps_pool ?s)) + int (length (ps_procs ?s)) - 1"
    using pool_overshoot by blast
  then show ?thesis
    by (simp add: one_conn_pool_def WithPoolSize_def)
qed

text \<open>
  What closing does to those that are still at work. A caller that waits for a connection, or has
  passed the closed check, receives nil from the closed channel and panics; a caller that has passed the
  closed check of \<open>Put\<close> sends on it and panics; and a background routine whose tick comes after the
  close drains the closed channel for ever, growing its list by a nil at every turn.
\<close>

theorem closed_pool_hazards:
  assumes "cp_closed p" and "pool_ok p" and "idle p = []"
  shows "pool_step1 (PGo now) NewWait p = Some (p, GetGot None)
    \<and> pool_step1 (PGo now) GetSelect p = Some (p, GetGot None)
    \<and> pool_step1 a (GetGot None) p = Some (p, PPanic)
    \<and> pool_step1 a (PutSend c) p = Some (p, PPanic)
    \<and> pool_step1 a (SweepDrain clean cs) p = Some (p, SweepDrain clean (cs @ [None]))
    \<and> ((\<lambda>g. snd (the (pool_step1 a g p))) ^^ n) (SweepDrain clean []) = SweepDrain clean (replicate n None)"
proof -
  have drain: "pool_step1 a (SweepDrain clean cs) p = Some (p, SweepDrain clean (cs @ [None]))" for cs
    using assms by (simp add: pool_step_defs pool_recv_def try_recv_def idle_def pool_ok_def)
  have "((\<lambda>g. snd (the (pool_step1 a g p))) ^^ n) (SweepDrain clean []) = SweepDrain clean (replicate n None)"
    by (induction n) (simp_all add: drain replicate_append_same)
  then show ?thesis
    using assms drain by (simp add: pool_step_defs pool_recv_def try_recv_def pool_send_def try_send_def idle_def pool_ok_def)
qed

theorem closed_pool_hazards_witness:
  "pool_step1 (PGo 0) NewWait (pool_Close one_conn_pool) = Some (pool_Close one_conn_pool, GetGot None)
   \<and> ((\<lambda>g. snd (the (pool_step1 (PGo 0) g (pool_Close one_conn_pool)))) ^^ 3) (SweepDrain True [])
      = SweepDrain True (replicate 3 None)"
proof -
  have "cp_closed (pool_Close one_conn_pool) \<and> pool_ok (pool_Close one_conn_pool) \<and> idle (pool_Close one_conn_pool) = []"
    by (simp add: pool_Close_def one_conn_pool_def WithPoolSize_def make_chan_def pool_ok_def chan_wf_def idle_def)
  then show ?thesis
    using closed_pool_hazards [of "pool_Close one_conn_pool" 0 "PGo 0" 0 True "[]" 3] by blast
qed

end
