(* ===== verification/TCP_Server.thy ===== *)
theory TCP_Server
  imports Frame_Codec Transport_Options Goroutines
begin

text \<open>
  The TCP server (\<open>pkg/transport/tcp/server.go\<close>): the accept loop, and for every connection a reader,
  a writer and one goroutine per request. The server struct and its connections are one record; as
  for the client, every goroutine is a program counter between two atomic sections.
\<close>

section \<open>State\<close>

text \<open>
  What is queued for the writer: the answer to request number \<open>n\<close> of the connection, or the refusal
  of it because of a limit.
\<close>

datatype ('m, 'v) reply = Answer nat "('m, 'v) Response" | Refusal nat "('m, 'v) Response"

fun reply_resp :: "('m, 'v) reply \<Rightarrow> ('m, 'v) Response" where
  "reply_resp (Answer n r) = r"
| "reply_resp (Refusal n r) = r"

text \<open>
  A connection with the variables of its \<open>handleConnection\<close>: what the peer has still to send, whether
  the socket is open, \<open>writeCh\<close> (\<open>None\<close> before it is made), whether \<open>connCancel\<close> was called, the two
  wait groups, and what was written to the socket. The rest is kept for the statements: all that the
  peer sends, the requests read, the replies written, and the requests whose answer was given up.
\<close>

record ('m, 'v) srv_conn =
  sc_in :: bytes
  sc_open :: bool
  sc_writeCh :: "('m, 'v) reply chan option"
  sc_cancelled :: bool
  sc_handlersWg :: int
  sc_writerWg :: int
  sc_out :: bytes
  sc_input :: bytes
  sc_taken :: "(Header \<times> ('m, 'v) Request) list"
  sc_written :: "('m, 'v) reply list"
  sc_dropped :: "nat multiset"

definition new_conn :: "bytes \<Rightarrow> ('m, 'v) srv_conn" where
  "new_conn input =
     \<lparr>sc_in = input, sc_open = True, sc_writeCh = None, sc_cancelled = False, sc_handlersWg = 0, sc_writerWg = 0,
      sc_out = [], sc_input = input, sc_taken = [], sc_written = [], sc_dropped = {#}\<rparr>"

text \<open>
  \<open>sv_listener\<close> is nil, or says whether the listener is still open; \<open>sv_ctxErr\<close> is the error of
  the context of \<open>Serve\<close> once it is done, and \<open>sv_done\<close> its channel \<open>done\<close>.
\<close>

record ('m, 'v) tcp_Server =
  sv_address :: string
  sv_opts :: ServerOptions
  sv_codec :: "('m, 'v) ProtocolCodec"
  sv_listener :: "bool option"
  sv_wg :: int
  sv_serving :: bool
  sv_closed :: bool
  sv_activeConnections :: int
  sv_totalConnections :: int
  sv_connSemaphore :: "unit chan option"
  sv_reqSemaphore :: "unit chan option"
  sv_ctxErr :: "go_error option"
  sv_done :: bool
  sv_conns :: "('m, 'v) srv_conn list"

definition tcp_NewServer ::
    "('m, 'v) Codec registry \<Rightarrow> Compressor registry \<Rightarrow> byte \<Rightarrow> byte \<Rightarrow> ServerOption list \<Rightarrow> ('m, 'v) tcp_Server" where
  "tcp_NewServer codecs comps codecType compressType options =
     (let opts = apply_options options DefaultServerOptions in
      \<lparr>sv_address = [], sv_opts = opts, sv_codec = NewProtocolCodec codecs comps codecType compressType,
       sv_listener = None, sv_wg = 0, sv_serving = False, sv_closed = False, sv_activeConnections = 0, sv_totalConnections = 0,
       sv_connSemaphore = (if tso_MaxConnections opts > 0 then Some (make_chan (nat (tso_MaxConnections opts))) else None),
       sv_reqSemaphore = (if tso_MaxConcurrentRequests opts > 0 then Some (make_chan (nat (tso_MaxConcurrentRequests opts))) else None),
       sv_ctxErr = None, sv_done = False, sv_conns = []\<rparr>)"

text \<open>\<open>bound\<close>: what the operating system answers, on success the address it bound.\<close>

definition srv_Listen :: "string or_error \<Rightarrow> string \<Rightarrow> ('m, 'v) tcp_Server \<Rightarrow> ('m, 'v) tcp_Server \<times> go_error option" where
  "srv_Listen bound addr s =
     (if sv_listener s \<noteq> None then (s, Some (Errorf (''already listening on '' @ addr)))
      else case bound of
        Inl e \<Rightarrow> (s, Some (Wrapped (''failed to listen on '' @ addr @ '': '') e []))
      | Inr a \<Rightarrow> (s\<lparr>sv_listener := Some True, sv_address := a\<rparr>, None))"

definition serve_begin :: "('m, 'v) tcp_Server \<Rightarrow> ('m, 'v) tcp_Server \<times> go_error option" where
  "serve_begin s =
     (if sv_listener s = None then (s, Some (Errorf (''not listening on '' @ sv_address s)))
      else if sv_serving s then (s, Some (Errorf (''already serving on '' @ sv_address s)))
      else (s\<lparr>sv_serving := True\<rparr>, None))"

definition srv_Addr :: "('m, 'v) tcp_Server \<Rightarrow> string option" where
  "srv_Addr s = (if sv_listener s \<noteq> None then Some (sv_address s) else None)"

record ServerStats =
  ss_ActiveConnections :: int
  ss_TotalConnections :: int
  ss_Address :: string

definition srv_Stats :: "('m, 'v) tcp_Server \<Rightarrow> ServerStats" where
  "srv_Stats s = \<lparr>ss_ActiveConnections = sv_activeConnections s, ss_TotalConnections = sv_totalConnections s, ss_Address = sv_address s\<rparr>"

definition srv_Options :: "('m, 'v) tcp_Server \<Rightarrow> ServerOptions" where
  "srv_Options s = sv_opts s"

section \<open>Goroutines\<close>

text \<open>
  Where a goroutine stands. In \<open>Serve\<close>: at \<open>Accept\<close>, or returned; the goroutine that waits for the
  context, before and after it closed the listener. In \<open>Close\<close>: before the listener is closed, at
  \<open>wg.Wait\<close>, returned. The reader of connection \<open>i\<close>: before the socket options, at the top of the
  loop, reading, refusing request \<open>n\<close> for its size, at the semaphore, refusing for want of a slot,
  about to start the handler, at the end of the loop, at \<open>writerWg.Wait\<close>, in the four actions of
  \<open>CloseConnection\<close>, returned. The writer: at the channel, with a reply, after a failed write (two
  actions), returned. A handler: running, with a response, about to release its slot, about to leave
  the group, returned.
\<close>

datatype ('m, 'v) srv_proc =
    SIdle
  | Accept | ServeRet "go_error option" | CtxWait | CtxClosed | CtxGone
  | KListener | KWait | CloseRet "go_error option"
  | Setup nat | ReadTop nat | ReadFrame nat | SizeReply nat nat | SemCheck nat nat | SemReply nat nat | Spawn nat nat
  | WaitHandlers nat | WaitWriter nat | ConnClose nat | ConnCount nat | ConnSem nat | ConnWg nat | ConnGone nat
  | Writing nat | WriteOne nat "('m, 'v) reply" | WriteFail nat | WriteCancel nat | WriterGone nat
  | Handle nat nat | HReply nat nat "('m, 'v) Response" | HRelease nat | HDone nat | HGone
  | SPanic

text \<open>The results of the socket options of an accepted connection.\<close>

record srv_sock =
  sk_isTCP :: bool
  sk_SetKeepAlive :: "go_error option"
  sk_SetKeepAlivePeriod :: "go_error option"
  sk_SetNoDelay :: "go_error option"
  sk_SetReadBuffer :: "go_error option"
  sk_SetWriteBuffer :: "go_error option"

definition setup_conn :: "ServerOptions \<Rightarrow> srv_sock \<Rightarrow> go_error option" where
  "setup_conn opts k =
     (if \<not> sk_isTCP k then None
      else if sk_SetKeepAlive k \<noteq> None then sk_SetKeepAlive k
      else if sk_SetKeepAlivePeriod k \<noteq> None then sk_SetKeepAlivePeriod k
      else if sk_SetNoDelay k \<noteq> None then sk_SetNoDelay k
      else if tso_ReadBufferSize opts > 0 \<and> sk_SetReadBuffer k \<noteq> None
        then Some (Wrapped ''set read buffer size failed: '' (the (sk_SetReadBuffer k)) [])
      else if tso_WriteBufferSize opts > 0 \<and> sk_SetWriteBuffer k \<noteq> None
        then Some (Wrapped ''set write buffer size failed: '' (the (sk_SetWriteBuffer k)) [])
      else None)"

text \<open>
  What the environment decides: the call a goroutine makes, the end of the context, an accepted
  connection with all its peer will send (and the result of closing it, should it be turned away), a
  failed \<open>Accept\<close> (temporary or not), the socket options, a failed read, the outcome of the handler,
  a write that fails after \<open>k\<close> bytes. \<open>SGo\<close> goes on, at a time of the clock; \<open>SDone\<close> takes the
  branch of the context in a \<open>select\<close>.
\<close>

datatype ('m, 'v) srv_choice =
    SListen "string or_error" string | SServe | SClose | SCtx go_error
  | SAccept bytes "go_error option" | SAcceptErr bool go_error
  | SSock srv_sock | SReadErr | SHandled instant "('m, 'v) Response or_error" | SWriteErr nat go_error
  | SGo instant | SDone

definition conn_of :: "('m, 'v) tcp_Server \<Rightarrow> nat \<Rightarrow> ('m, 'v) srv_conn" where
  "conn_of s i = sv_conns s ! i"

definition upd_sc :: "(('m, 'v) srv_conn \<Rightarrow> ('m, 'v) srv_conn) \<Rightarrow> nat \<Rightarrow> ('m, 'v) tcp_Server \<Rightarrow> ('m, 'v) tcp_Server" where
  "upd_sc f i s = s\<lparr>sv_conns := (sv_conns s)[i := f (conn_of s i)]\<rparr>"

text \<open>\<open>connCtx\<close> ends with the context of \<open>Serve\<close> or by \<open>connCancel\<close>.\<close>

definition conn_done :: "('m, 'v) tcp_Server \<Rightarrow> nat \<Rightarrow> bool" where
  "conn_done s i \<longleftrightarrow> sv_ctxErr s \<noteq> None \<or> sc_cancelled (conn_of s i)"

definition drop_answer :: "nat \<Rightarrow> ('m, 'v) srv_conn \<Rightarrow> ('m, 'v) srv_conn" where
  "drop_answer n c = c\<lparr>sc_dropped := add_mset n (sc_dropped c)\<rparr>"

text \<open>
  \<open>select { case writeCh <- x: case <-connCtx.Done(): }\<close>: on the one branch the goroutine goes on at
  \<open>p\<close>, on the other at \<open>q\<close> and the answer to request \<open>n\<close> is given up.
\<close>

definition send_or_done ::
    "('m, 'v) srv_choice \<Rightarrow> nat \<Rightarrow> nat \<Rightarrow> (instant \<Rightarrow> ('m, 'v) reply) \<Rightarrow> ('m, 'v) srv_proc \<Rightarrow> ('m, 'v) srv_proc
     \<Rightarrow> ('m, 'v) tcp_Server \<Rightarrow> (('m, 'v) tcp_Server \<times> ('m, 'v) srv_proc \<times> ('m, 'v) srv_proc list) option" where
  "send_or_done ch i n x p q s =
     (case ch of
        SGo now \<Rightarrow>
          Option.bind (sc_writeCh (conn_of s i)) (\<lambda>wc.
            (case try_send wc (x now) of
               (wc', Sent) \<Rightarrow> Some (upd_sc (\<lambda>c. c\<lparr>sc_writeCh := Some wc'\<rparr>) i s, p, [])
             | (wc', SendFull) \<Rightarrow> None
             | (wc', SendPanic) \<Rightarrow> Some (s, SPanic, [])))
      | SDone \<Rightarrow> if conn_done s i then Some (upd_sc (drop_answer n) i s, q, []) else None
      | _ \<Rightarrow> None)"

section \<open>The accept loop\<close>

definition admit_conn :: "bytes \<Rightarrow> ('m, 'v) tcp_Server \<Rightarrow> ('m, 'v) tcp_Server" where
  "admit_conn input s =
     s\<lparr>sv_activeConnections := sv_activeConnections s + 1, sv_totalConnections := wrap64 (sv_totalConnections s + 1),
       sv_wg := sv_wg s + 1, sv_conns := sv_conns s @ [new_conn input]\<rparr>"

definition accept_failed :: "bool \<Rightarrow> go_error \<Rightarrow> ('m, 'v) tcp_Server \<Rightarrow> ('m, 'v) srv_proc" where
  "accept_failed temporary e s =
     (if sv_done s then ServeRet (sv_ctxErr s)
      else if sv_closed s then ServeRet None
      else if temporary then Accept
      else ServeRet (Some (Wrapped ''accept connection failed: '' e [])))"

text \<open>
  \<open>Serve\<close> and the goroutine it starts, which closes the listener when the context is done and closes
  \<open>done\<close> after that. An accepted connection needs a slot of \<open>connSemaphore\<close>.
\<close>

definition serve_step ::
    "('m, 'v) srv_choice \<Rightarrow> ('m, 'v) srv_proc \<Rightarrow> ('m, 'v) tcp_Server
     \<Rightarrow> (('m, 'v) tcp_Server \<times> ('m, 'v) srv_proc \<times> ('m, 'v) srv_proc list) option" where
  "serve_step ch p s =
     (case p of
        Accept \<Rightarrow>
          (case ch of
             SAccept input closing \<Rightarrow>
               if sv_listener s \<noteq> Some True then None
               else (case sv_connSemaphore s of
                  None \<Rightarrow> Some (admit_conn input s, Accept, [Setup (length (sv_conns s))])
                | Some sem \<Rightarrow>
                    (case try_send sem () of
                       (sem', Sent) \<Rightarrow> Some (admit_conn input (s\<lparr>sv_connSemaphore := Some sem'\<rparr>), Accept, [Setup (length (sv_conns s))])
                     | _ \<Rightarrow> Some (s, case closing of None \<Rightarrow> Accept
                         | Some e \<Rightarrow> ServeRet (Some (Wrapped ''close connection failed: '' e [])), [])))
           | SAcceptErr temporary e \<Rightarrow> Some (s, accept_failed temporary e s, [])
           | _ \<Rightarrow> None)
      | CtxWait \<Rightarrow> if sv_ctxErr s \<noteq> None then Some (s\<lparr>sv_listener := Some False\<rparr>, CtxClosed, []) else None
      | CtxClosed \<Rightarrow> Some (s\<lparr>sv_done := True\<rparr>, CtxGone, [])
      | _ \<Rightarrow> None)"

text \<open>\<open>Close\<close>: closing a listener that is closed already is an error, and then nobody is waited for.\<close>

definition listener_closed_err :: go_error where
  "listener_closed_err = Wrapped ''close listener failed: '' (Errorf ''use of closed network connection'') []"

definition close_step ::
    "('m, 'v) srv_choice \<Rightarrow> ('m, 'v) srv_proc \<Rightarrow> ('m, 'v) tcp_Server
     \<Rightarrow> (('m, 'v) tcp_Server \<times> ('m, 'v) srv_proc \<times> ('m, 'v) srv_proc list) option" where
  "close_step ch p s =
     (case p of
        KListener \<Rightarrow>
          (case sv_listener s of
             None \<Rightarrow> Some (s, KWait, [])
           | Some True \<Rightarrow> Some (s\<lparr>sv_listener := Some False\<rparr>, KWait, [])
           | Some False \<Rightarrow> Some (s, CloseRet (Some listener_closed_err), []))
      | KWait \<Rightarrow> if sv_wg s = 0 then Some (s, CloseRet None, []) else None
      | _ \<Rightarrow> None)"

section \<open>A connection\<close>

definition refusal :: "Header \<Rightarrow> nat \<Rightarrow> i32 \<Rightarrow> string \<Rightarrow> instant \<Rightarrow> ('m, 'v) reply" where
  "refusal h n code msg now = Refusal n (NewErrorResponse now (h_RequestID h) (Some (NewError code msg)))"

definition too_large :: "ServerOptions \<Rightarrow> Header \<Rightarrow> bool" where
  "too_large opts h \<longleftrightarrow> tso_MaxRequestBodySize opts > 0 \<and> uint (h_BodyLength h) > tso_MaxRequestBodySize opts"

text \<open>The header of request \<open>n\<close> of connection \<open>i\<close>, and the request.\<close>

definition taken :: "('m, 'v) tcp_Server \<Rightarrow> nat \<Rightarrow> nat \<Rightarrow> Header \<times> ('m, 'v) Request" where
  "taken s i n = sc_taken (conn_of s i) ! n"

text \<open>
  The reader, up to the end of its loop. After a failed read nobody reads on, so what is left of the
  input does not matter. A refused request goes on to its handler all the same. Only
  the reader adds to \<open>handlersWg\<close>, so that waiting for it and closing the channel is one section.
\<close>

definition reader_step ::
    "('m, 'v) Codec registry \<Rightarrow> Compressor registry \<Rightarrow> ('m, 'v) srv_choice \<Rightarrow> ('m, 'v) srv_proc \<Rightarrow> ('m, 'v) tcp_Server
     \<Rightarrow> (('m, 'v) tcp_Server \<times> ('m, 'v) srv_proc \<times> ('m, 'v) srv_proc list) option" where
  "reader_step codecs comps ch p s =
     (case p of
        Setup i \<Rightarrow>
          (case ch of
             SSock k \<Rightarrow>
               (case setup_conn (sv_opts s) k of
                  Some e \<Rightarrow> Some (s, ConnClose i, [])
                | None \<Rightarrow> Some (upd_sc (\<lambda>c. c\<lparr>sc_writeCh := Some (make_chan 64), sc_writerWg := sc_writerWg c + 1\<rparr>) i s,
                    ReadTop i, [Writing i]))
           | _ \<Rightarrow> None)
      | ReadTop i \<Rightarrow> Some (s, if sv_ctxErr s \<noteq> None then WaitHandlers i else ReadFrame i, [])
      | ReadFrame i \<Rightarrow>
          (case ch of
             SReadErr \<Rightarrow> Some (s, WaitHandlers i, [])
           | SGo now \<Rightarrow>
               if \<not> sc_open (conn_of s i) then None
               else (case ReadRequest codecs comps (sc_in (conn_of s i)) of
                  (Ok (h, req), r) \<Rightarrow>
                    Some (upd_sc (\<lambda>c. c\<lparr>sc_in := r, sc_taken := sc_taken c @ [(h, req)]\<rparr>) i s,
                      (if too_large (sv_opts s) h then SizeReply else SemCheck) i (length (sc_taken (conn_of s i))), [])
                | (Err e, r) \<Rightarrow> Some (s, WaitHandlers i, [])
                | (RPanic, r) \<Rightarrow> Some (s, SPanic, []))
           | _ \<Rightarrow> None)
      | SizeReply i n \<Rightarrow>
          send_or_done ch i n (refusal (fst (taken s i n)) n ErrorRequestEntityTooLarge ''request body too large'')
            (SemCheck i n) (WaitHandlers i) s
      | SemCheck i n \<Rightarrow>
          (case sv_reqSemaphore s of
             None \<Rightarrow> Some (s, Spawn i n, [])
           | Some sem \<Rightarrow>
               (case try_send sem () of
                  (sem', Sent) \<Rightarrow> Some (s\<lparr>sv_reqSemaphore := Some sem'\<rparr>, Spawn i n, [])
                | _ \<Rightarrow> Some (s, SemReply i n, [])))
      | SemReply i n \<Rightarrow>
          send_or_done ch i n (refusal (fst (taken s i n)) n ErrorCodeUnavailable ''too many concurrent requests'')
            (Spawn i n) (WaitHandlers i) s
      | Spawn i n \<Rightarrow> Some (upd_sc (\<lambda>c. c\<lparr>sc_handlersWg := sc_handlersWg c + 1\<rparr>) i s, ReadTop i, [Handle i n])
      | WaitHandlers i \<Rightarrow>
          if sc_handlersWg (conn_of s i) = 0
          then (case Option.bind (sc_writeCh (conn_of s i)) close_chan of
             None \<Rightarrow> Some (s, SPanic, [])
           | Some wc \<Rightarrow> Some (upd_sc (\<lambda>c. c\<lparr>sc_writeCh := Some wc\<rparr>) i s, WaitWriter i, []))
          else None
      | WaitWriter i \<Rightarrow> if sc_writerWg (conn_of s i) = 0 then Some (s, ConnClose i, []) else None
      | _ \<Rightarrow> None)"

text \<open>\<open>CloseConnection\<close>, and the deferred \<open>connCancel\<close> that follows it.\<close>

definition CloseConnection ::
    "('m, 'v) srv_proc \<Rightarrow> ('m, 'v) tcp_Server \<Rightarrow> (('m, 'v) tcp_Server \<times> ('m, 'v) srv_proc \<times> ('m, 'v) srv_proc list) option" where
  "CloseConnection p s =
     (case p of
        ConnClose i \<Rightarrow> Some (upd_sc (\<lambda>c. c\<lparr>sc_open := False\<rparr>) i s, ConnCount i, [])
      | ConnCount i \<Rightarrow> Some (s\<lparr>sv_activeConnections := sv_activeConnections s - 1\<rparr>, ConnSem i, [])
      | ConnSem i \<Rightarrow>
          (case sv_connSemaphore s of
             None \<Rightarrow> Some (s, ConnWg i, [])
           | Some sem \<Rightarrow>
               (case try_recv sem of
                  (sem', RecvEmpty) \<Rightarrow> None
                | (sem', _) \<Rightarrow> Some (s\<lparr>sv_connSemaphore := Some sem'\<rparr>, ConnWg i, [])))
      | ConnWg i \<Rightarrow>
          if sv_wg s \<le> 0 then Some (s, SPanic, [])
          else Some (upd_sc (\<lambda>c. c\<lparr>sc_cancelled := True\<rparr>) i (s\<lparr>sv_wg := sv_wg s - 1\<rparr>), ConnGone i, [])
      | _ \<Rightarrow> None)"

text \<open>
  The writer goroutine. By the behaviour of \<open>writeFull\<close> a write delivers the whole frame, or fails
  after some prefix of it.
\<close>

definition writer_step ::
    "('m, 'v) srv_choice \<Rightarrow> ('m, 'v) srv_proc \<Rightarrow> ('m, 'v) tcp_Server
     \<Rightarrow> (('m, 'v) tcp_Server \<times> ('m, 'v) srv_proc \<times> ('m, 'v) srv_proc list) option" where
  "writer_step ch p s =
     (case p of
        Writing i \<Rightarrow>
          Option.bind (sc_writeCh (conn_of s i)) (\<lambda>wc.
            (case try_recv wc of
               (wc', Got x) \<Rightarrow> Some (upd_sc (\<lambda>c. c\<lparr>sc_writeCh := Some wc'\<rparr>) i s, WriteOne i x, [])
             | (wc', RecvClosed) \<Rightarrow> Some (upd_sc (\<lambda>c. c\<lparr>sc_writerWg := sc_writerWg c - 1\<rparr>) i s, WriterGone i, [])
             | (wc', RecvEmpty) \<Rightarrow> None))
      | WriteOne i x \<Rightarrow>
          (case EncodeResponse (sv_codec s) (reply_resp x) of
             RPanic \<Rightarrow> Some (s, SPanic, [])
           | Err e \<Rightarrow> Some (upd_sc (\<lambda>c. case x of Answer n r \<Rightarrow> drop_answer n c | Refusal n r \<Rightarrow> c) i s, WriteFail i, [])
           | Ok bs \<Rightarrow>
               (case ch of
                  SGo now \<Rightarrow>
                    if sc_open (conn_of s i)
                    then Some (upd_sc (\<lambda>c. c\<lparr>sc_out := sc_out c @ bs, sc_written := sc_written c @ [x]\<rparr>) i s, Writing i, [])
                    else None
                | SWriteErr k e \<Rightarrow>
                    Some (upd_sc (\<lambda>c. (case x of Answer n r \<Rightarrow> drop_answer n c | Refusal n r \<Rightarrow> c)\<lparr>sc_out := sc_out c @ take k bs\<rparr>) i s,
                      WriteFail i, [])
                | _ \<Rightarrow> None))
      | WriteFail i \<Rightarrow> Some (upd_sc (\<lambda>c. c\<lparr>sc_open := False\<rparr>) i s, WriteCancel i, [])
      | WriteCancel i \<Rightarrow> Some (upd_sc (\<lambda>c. c\<lparr>sc_cancelled := True, sc_writerWg := sc_writerWg c - 1\<rparr>) i s, WriterGone i, [])
      | _ \<Rightarrow> None)"

text \<open>
  A handler goroutine; \<open>handler\<close> says which outcomes the handler may have on a request. It gives back
  a slot of \<open>reqSemaphore\<close> whether or not its request got one.
\<close>

definition answer_to :: "Header \<Rightarrow> instant \<Rightarrow> ('m, 'v) Response or_error \<Rightarrow> ('m, 'v) Response" where
  "answer_to h now r =
     (case r of
        Inl e \<Rightarrow> NewErrorResponse now (h_RequestID h) (Some (NewError ErrorCodeInternal (error_msg e)))
      | Inr resp \<Rightarrow> resp)"

definition handler_step ::
    "(('m, 'v) Request \<Rightarrow> ('m, 'v) Response or_error \<Rightarrow> bool) \<Rightarrow> ('m, 'v) srv_choice \<Rightarrow> ('m, 'v) srv_proc \<Rightarrow> ('m, 'v) tcp_Server
     \<Rightarrow> (('m, 'v) tcp_Server \<times> ('m, 'v) srv_proc \<times> ('m, 'v) srv_proc list) option" where
  "handler_step handler ch p s =
     (case p of
        Handle i n \<Rightarrow>
          (case ch of
             SHandled now r \<Rightarrow>
               if handler (snd (taken s i n)) r then Some (s, HReply i n (answer_to (fst (taken s i n)) now r), []) else None
           | _ \<Rightarrow> None)
      | HReply i n resp \<Rightarrow> send_or_done ch i n (\<lambda>now. Answer n resp) (HRelease i) (HRelease i) s
      | HRelease i \<Rightarrow>
          (case sv_reqSemaphore s of
             None \<Rightarrow> Some (s, HDone i, [])
           | Some sem \<Rightarrow>
               (case try_recv sem of
                  (sem', RecvEmpty) \<Rightarrow> None
                | (sem', _) \<Rightarrow> Some (s\<lparr>sv_reqSemaphore := Some sem'\<rparr>, HDone i, [])))
      | HDone i \<Rightarrow>
          if sc_handlersWg (conn_of s i) \<le> 0 then Some (s, SPanic, [])
          else Some (upd_sc (\<lambda>c. c\<lparr>sc_handlersWg := sc_handlersWg c - 1\<rparr>) i s, HGone, [])
      | _ \<Rightarrow> None)"

text \<open>A goroutine of the program that uses the server.\<close>

definition user_step ::
    "('m, 'v) srv_choice \<Rightarrow> ('m, 'v) tcp_Server \<Rightarrow> (('m, 'v) tcp_Server \<times> ('m, 'v) srv_proc \<times> ('m, 'v) srv_proc list) option" where
  "user_step ch s =
     (case ch of
        SListen bound addr \<Rightarrow> Some (fst (srv_Listen bound addr s), SIdle, [])
      | SServe \<Rightarrow>
          (case serve_begin s of
             (s', Some e) \<Rightarrow> Some (s', SIdle, [])
           | (s', None) \<Rightarrow> Some (s', Accept, [CtxWait]))
      | SCtx e \<Rightarrow> if sv_ctxErr s = None then Some (s\<lparr>sv_ctxErr := Some e\<rparr>, SIdle, []) else None
      | SClose \<Rightarrow> if sv_closed s then Some (s, SIdle, []) else Some (s\<lparr>sv_closed := True\<rparr>, KListener, [])
      | _ \<Rightarrow> None)"

definition srv_step1 ::
    "('m, 'v) Codec registry \<Rightarrow> Compressor registry \<Rightarrow> (('m, 'v) Request \<Rightarrow> ('m, 'v) Response or_error \<Rightarrow> bool)
     \<Rightarrow> ('m, 'v) srv_choice \<Rightarrow> ('m, 'v) srv_proc \<Rightarrow> ('m, 'v) tcp_Server
     \<Rightarrow> (('m, 'v) tcp_Server \<times> ('m, 'v) srv_proc \<times> ('m, 'v) srv_proc list) option" where
  "srv_step1 codecs comps handler ch p s =
     (case p of
        SIdle \<Rightarrow> user_step ch s
      | Accept \<Rightarrow> serve_step ch p s
      | CtxWait \<Rightarrow> serve_step ch p s
      | CtxClosed \<Rightarrow> serve_step ch p s
      | ServeRet r \<Rightarrow> Some (s, SIdle, [])
      | KListener \<Rightarrow> close_step ch p s
      | KWait \<Rightarrow> close_step ch p s
      | CloseRet r \<Rightarrow> Some (s, SIdle, [])
      | ConnClose i \<Rightarrow> CloseConnection p s
      | ConnCount i \<Rightarrow> CloseConnection p s
      | ConnSem i \<Rightarrow> CloseConnection p s
      | ConnWg i \<Rightarrow> CloseConnection p s
      | Writing i \<Rightarrow> writer_step ch p s
      | WriteOne i x \<Rightarrow> writer_step ch p s
      | WriteFail i \<Rightarrow> writer_step ch p s
      | WriteCancel i \<Rightarrow> writer_step ch p s
      | Handle i n \<Rightarrow> handler_step handler ch p s
      | HReply i n r \<Rightarrow> handler_step handler ch p s
      | HRelease i \<Rightarrow> handler_step handler ch p s
      | HDone i \<Rightarrow> handler_step handler ch p s
      | _ \<Rightarrow> reader_step codecs comps ch p s)"

record ('m, 'v) srv_sys =
  sy_server :: "('m, 'v) tcp_Server"
  sy_procs :: "('m, 'v) srv_proc list"

definition srv_exec ::
    "('m, 'v) Codec registry \<Rightarrow> Compressor registry \<Rightarrow> (('m, 'v) Request \<Rightarrow> ('m, 'v) Response or_error \<Rightarrow> bool)
     \<Rightarrow> nat \<times> ('m, 'v) srv_choice \<Rightarrow> ('m, 'v) srv_sys \<Rightarrow> ('m, 'v) srv_sys option" where
  "srv_exec codecs comps handler a y =
     (case a of (g, ch) \<Rightarrow>
        if g < length (sy_procs y)
        then map_option (\<lambda>(s, p, ps). \<lparr>sy_server = s, sy_procs = (sy_procs y)[g := p] @ ps\<rparr>)
          (srv_step1 codecs comps handler ch (sy_procs y ! g) (sy_server y))
        else None)"

definition srv_stp where
  "srv_stp codecs comps handler y z \<longleftrightarrow> (\<exists>a. srv_exec codecs comps handler a y = Some z)"

text \<open>A new server in an initialised program, and any number of goroutines that may use it.\<close>

definition srv_init ::
    "('m, 'v) lib \<Rightarrow> ('m, 'v) Codec registry \<Rightarrow> Compressor registry \<Rightarrow> ServerOption list \<Rightarrow> ('m, 'v) srv_sys \<Rightarrow> bool" where
  "srv_init lib codecs comps options y \<longleftrightarrow>
     init_codecs lib = Some codecs \<and> init_compressors lib = Some comps \<and>
     (\<exists>ct zt. sy_server y = tcp_NewServer codecs comps ct zt options) \<and> set (sy_procs y) \<subseteq> {SIdle}"

end
