(* ===== verification/Server_Accounting.thy ===== *)
theory Server_Accounting
  imports TCP_Server
begin

text \<open>
  How many goroutines a connection of the TCP server has, in which role, and what its wait groups,
  channels and semaphores say about them: an account that every step of every goroutine keeps.
\<close>

section \<open>Roles\<close>

text \<open>
  Whom a goroutine works for. The stage of a reader: setting up, in its loop, waiting for the writer,
  before the four actions of \<open>CloseConnection\<close>, returned.
\<close>

datatype role = Outside | Reader nat nat | Writer nat | Handler nat

definition role_of :: "('m, 'v) srv_proc \<Rightarrow> role" where
  "role_of p = (case p of
      Setup i \<Rightarrow> Reader i 0
    | ReadTop i \<Rightarrow> Reader i 1 | ReadFrame i \<Rightarrow> Reader i 1 | SizeReply i n \<Rightarrow> Reader i 1 | SemCheck i n \<Rightarrow> Reader i 1
    | SemReply i n \<Rightarrow> Reader i 1 | Spawn i n \<Rightarrow> Reader i 1 | WaitHandlers i \<Rightarrow> Reader i 1
    | WaitWriter i \<Rightarrow> Reader i 2 | ConnClose i \<Rightarrow> Reader i 3 | ConnCount i \<Rightarrow> Reader i 4 | ConnSem i \<Rightarrow> Reader i 5
    | ConnWg i \<Rightarrow> Reader i 6 | ConnGone i \<Rightarrow> Reader i 7
    | Writing i \<Rightarrow> Writer i | WriteOne i x \<Rightarrow> Writer i | WriteFail i \<Rightarrow> Writer i | WriteCancel i \<Rightarrow> Writer i
    | Handle i n \<Rightarrow> Handler i | HReply i n r \<Rightarrow> Handler i | HRelease i \<Rightarrow> Handler i | HDone i \<Rightarrow> Handler i
    | _ \<Rightarrow> Outside)"

lemma role_of_simps [simp]:
  "role_of SIdle = Outside" "role_of Accept = Outside" "role_of (ServeRet e) = Outside" "role_of CtxWait = Outside"
  "role_of CtxClosed = Outside" "role_of CtxGone = Outside" "role_of KListener = Outside" "role_of KWait = Outside"
  "role_of (CloseRet e) = Outside" "role_of (Setup i) = Reader i 0" "role_of (ReadTop i) = Reader i 1"
  "role_of (ReadFrame i) = Reader i 1" "role_of (SizeReply i n) = Reader i 1" "role_of (SemCheck i n) = Reader i 1"
  "role_of (SemReply i n) = Reader i 1" "role_of (Spawn i n) = Reader i 1" "role_of (WaitHandlers i) = Reader i 1"
  "role_of (WaitWriter i) = Reader i 2" "role_of (ConnClose i) = Reader i 3" "role_of (ConnCount i) = Reader i 4"
  "role_of (ConnSem i) = Reader i 5" "role_of (ConnWg i) = Reader i 6" "role_of (ConnGone i) = Reader i 7"
  "role_of (Writing i) = Writer i" "role_of (WriteOne i x) = Writer i" "role_of (WriteFail i) = Writer i"
  "role_of (WriteCancel i) = Writer i" "role_of (WriterGone i) = Outside" "role_of (Handle i n) = Handler i"
  "role_of (HReply i n r) = Handler i" "role_of (HRelease i) = Handler i" "role_of (HDone i) = Handler i"
  "role_of HGone = Outside" "role_of SPanic = Outside"
  by (simp_all add: role_of_def)

text \<open>How many readers of any connection are at a stage up to \<open>k\<close>; how many goroutines of a connection have a role.\<close>

definition staged :: "nat \<Rightarrow> ('m, 'v) srv_proc \<Rightarrow> nat" where
  "staged k p = (case role_of p of Reader i j \<Rightarrow> of_bool (j \<le> k) | _ \<Rightarrow> 0)"

definition at_stage :: "nat set \<Rightarrow> nat \<Rightarrow> ('m, 'v) srv_proc \<Rightarrow> nat" where
  "at_stage K i p = (case role_of p of Reader i' j \<Rightarrow> of_bool (i' = i \<and> j \<in> K) | _ \<Rightarrow> 0)"

definition writers :: "nat \<Rightarrow> ('m, 'v) srv_proc \<Rightarrow> nat" where
  "writers i p = (case role_of p of Writer i' \<Rightarrow> of_bool (i' = i) | _ \<Rightarrow> 0)"

definition handlers :: "nat \<Rightarrow> ('m, 'v) srv_proc \<Rightarrow> nat" where
  "handlers i p = (case role_of p of Handler i' \<Rightarrow> of_bool (i' = i) | _ \<Rightarrow> 0)"

definition in_range :: "nat \<Rightarrow> ('m, 'v) srv_proc \<Rightarrow> bool" where
  "in_range n p = (case role_of p of Outside \<Rightarrow> True | Reader i j \<Rightarrow> i < n | Writer i \<Rightarrow> i < n | Handler i \<Rightarrow> i < n)"

lemmas role_weights = staged_def at_stage_def writers_def handlers_def in_range_def

section \<open>Accounting\<close>

definition live :: "('m, 'v) srv_conn \<Rightarrow> bool" where
  "live c \<longleftrightarrow> (\<exists>wc. sc_writeCh c = Some wc \<and> \<not> chan_closed wc)"

text \<open>
  One connection, given how many goroutines it has: readers at any stage, in the loop, setting up, and
  setting up or past the writer; writers; handlers.
\<close>

definition conn_ok :: "nat \<Rightarrow> nat \<Rightarrow> nat \<Rightarrow> nat \<Rightarrow> nat \<Rightarrow> nat \<Rightarrow> ('m, 'v) srv_conn \<Rightarrow> bool" where
  "conn_ok U L S P W H c \<longleftrightarrow>
     U = 1 \<and> L = of_bool (live c) \<and> S \<le> of_bool (sc_writeCh c = None)
     \<and> sc_handlersWg c = int H \<and> (0 < H \<longrightarrow> live c)
     \<and> sc_writerWg c = int W \<and> W + P \<le> 1 \<and> (sc_writeCh c = None \<longrightarrow> W = 0)
     \<and> (\<forall>wc. sc_writeCh c = Some wc \<longrightarrow> chan_cap wc = 64 \<and> chan_wf wc
          \<and> (W = 0 \<longrightarrow> sc_cancelled c \<or> chan_closed wc \<and> chan_buf wc = []))"

definition not_writing :: "nat set" where
  "not_writing = {0, 3, 4, 5, 6, 7}"

lemma not_writing_mem [simp]:
  "0 \<in> not_writing" "Suc 0 \<notin> not_writing" "2 \<notin> not_writing" "3 \<in> not_writing" "4 \<in> not_writing" "5 \<in> not_writing"
  "6 \<in> not_writing" "7 \<in> not_writing"
  by (simp_all add: not_writing_def)

definition conn_counts :: "nat \<Rightarrow> ('m, 'v) srv_conn \<Rightarrow> ('m, 'v) srv_proc list \<Rightarrow> bool" where
  "conn_counts i c ps \<longleftrightarrow>
     conn_ok (total_of (at_stage UNIV i) ps) (total_of (at_stage {1} i) ps) (total_of (at_stage {0} i) ps)
       (total_of (at_stage not_writing i) ps) (total_of (writers i) ps) (total_of (handlers i) ps) c"

definition server_counts :: "('m, 'v) tcp_Server \<Rightarrow> ('m, 'v) srv_proc list \<Rightarrow> bool" where
  "server_counts s ps \<longleftrightarrow>
     (\<forall>p \<in> set ps. in_range (length (sv_conns s)) p)
     \<and> sv_activeConnections s = int (total_of (staged 4) ps)
     \<and> sv_wg s = int (total_of (staged 6) ps)
     \<and> (sv_connSemaphore s = None \<longleftrightarrow> tso_MaxConnections (sv_opts s) \<le> 0)
     \<and> (\<forall>sem. sv_connSemaphore s = Some sem \<longrightarrow> length (chan_buf sem) = total_of (staged 5) ps \<and> chan_wf sem
          \<and> \<not> chan_closed sem \<and> int (chan_cap sem) = tso_MaxConnections (sv_opts s))
     \<and> (\<forall>i < length (sv_conns s). conn_counts i (conn_of s i) ps)
     \<and> SPanic \<notin> set ps"

lemma total_of_perm: "mset ps = mset qs \<Longrightarrow> total_of f ps = total_of f qs"
  by (metis total_of_def mset_map sum_mset_sum_list)

lemma server_counts_perm:
  fixes ps :: "('a, 'b) srv_proc list"
  assumes "mset ps = mset qs"
  shows "server_counts s ps = server_counts s qs"
proof -
  have "total_of f ps = total_of f qs" for f :: "('a, 'b) srv_proc \<Rightarrow> nat"
    by (rule total_of_perm [OF assms])
  then show ?thesis
    unfolding server_counts_def conn_counts_def mset_eq_setD [OF assms] by simp
qed

lemma upd_sc_simps [simp]:
  "sv_opts (upd_sc f j s) = sv_opts s" "sv_codec (upd_sc f j s) = sv_codec s" "sv_wg (upd_sc f j s) = sv_wg s"
  "sv_activeConnections (upd_sc f j s) = sv_activeConnections s" "sv_connSemaphore (upd_sc f j s) = sv_connSemaphore s"
  "sv_reqSemaphore (upd_sc f j s) = sv_reqSemaphore s" "length (sv_conns (upd_sc f j s)) = length (sv_conns s)"
  "sv_ctxErr (upd_sc f j s) = sv_ctxErr s"
  by (simp_all add: upd_sc_def)

lemma conn_of_upd [simp]:
  "i < length (sv_conns s) \<Longrightarrow> conn_of (upd_sc f j s) i = (if i = j then f (conn_of s i) else conn_of s i)"
  by (simp add: upd_sc_def conn_of_def)

lemma conn_of_cong [simp]:
  "conn_of (s\<lparr>sv_connSemaphore := x1\<rparr>) i = conn_of s i" "conn_of (s\<lparr>sv_reqSemaphore := x1\<rparr>) i = conn_of s i"
  "conn_of (s\<lparr>sv_wg := x2\<rparr>) i = conn_of s i" "conn_of (s\<lparr>sv_activeConnections := x2\<rparr>) i = conn_of s i"
  "conn_of (s\<lparr>sv_listener := x3\<rparr>) i = conn_of s i" "conn_of (s\<lparr>sv_done := x4\<rparr>) i = conn_of s i"
  "conn_of (s\<lparr>sv_ctxErr := x5\<rparr>) i = conn_of s i" "conn_of (s\<lparr>sv_closed := x4\<rparr>) i = conn_of s i"
  "conn_of (s\<lparr>sv_serving := x4\<rparr>) i = conn_of s i" "conn_of (s\<lparr>sv_address := x6\<rparr>) i = conn_of s i"
  by (simp_all add: conn_of_def)

lemmas srv_step_defs = srv_step1_def user_step_def serve_step_def close_step_def reader_step_def CloseConnection_def
  writer_step_def handler_step_def send_or_done_def

text \<open>The libraries are initialised: encoding and decoding do not panic.\<close>

definition no_codec_panic :: "('m, 'v) Codec registry \<Rightarrow> Compressor registry \<Rightarrow> ('m, 'v) ProtocolCodec \<Rightarrow> bool" where
  "no_codec_panic codecs comps pc \<longleftrightarrow>
     (\<forall>r. fst (ReadRequest codecs comps r) \<noteq> RPanic) \<and> (\<forall>resp. EncodeResponse pc resp \<noteq> RPanic)"

text \<open>What a step of connection \<open>j\<close> does to its counts, whatever the other goroutines are.\<close>

definition about :: "nat \<Rightarrow> ('m, 'v) srv_proc \<Rightarrow> bool" where
  "about j p = (case role_of p of Outside \<Rightarrow> True | Reader i k \<Rightarrow> i = j | Writer i \<Rightarrow> i = j | Handler i \<Rightarrow> i = j)"

lemma about_other:
  assumes "about j p" and "i \<noteq> j"
  shows "at_stage K i p = 0" "writers i p = 0" "handlers i p = 0"
  using assms by (auto simp: about_def role_weights split: role.splits)

lemma about_other_list:
  assumes "\<forall>p \<in> set ps. about j p" and "i \<noteq> j"
  shows "total_of (at_stage K i) ps = 0" "total_of (writers i) ps = 0" "total_of (handlers i) ps = 0"
  using assms by (auto intro!: total_of_0 simp: about_other)

definition conn_step :: "nat \<Rightarrow> ('m, 'v) srv_proc \<Rightarrow> ('m, 'v) srv_proc list \<Rightarrow> ('m, 'v) srv_conn \<Rightarrow> ('m, 'v) srv_conn \<Rightarrow> bool" where
  "conn_step j p ps c c' \<longleftrightarrow>
     (\<forall>U L S P W H. L \<le> U \<longrightarrow> S \<le> U \<longrightarrow> P \<le> U
       \<longrightarrow> conn_ok (at_stage UNIV j p + U) (at_stage {1} j p + L) (at_stage {0} j p + S) (at_stage not_writing j p + P)
             (writers j p + W) (handlers j p + H) c
       \<longrightarrow> conn_ok (total_of (at_stage UNIV j) ps + U) (total_of (at_stage {1} j) ps + L) (total_of (at_stage {0} j) ps + S)
             (total_of (at_stage not_writing j) ps + P) (total_of (writers j) ps + W) (total_of (handlers j) ps + H) c')"

lemma total_of_mono:
  fixes f :: "'p \<Rightarrow> nat"
  assumes "\<And>p. f p \<le> g p"
  shows "total_of f ps \<le> total_of g ps"
  using assms by (induction ps) (auto intro: add_mono)

lemma at_stage_mono: "total_of (at_stage K i) ps \<le> total_of (at_stage UNIV i) ps"
  by (rule total_of_mono) (simp add: at_stage_def split: role.splits)

lemma conn_counts_step:
  assumes "conn_counts j c (p # qs)" and "conn_step j p ps c c'"
  shows "conn_counts j c' (ps @ qs)"
  using assms(1) unfolding conn_counts_def total_of_simps
  by (rule assms(2) [unfolded conn_step_def, rule_format, OF at_stage_mono at_stage_mono at_stage_mono])

lemma counts_local:
  assumes inv: "server_counts s (p # qs)"
    and len: "length (sv_conns s') = length (sv_conns s)" and others: "\<forall>i. i \<noteq> j \<longrightarrow> conn_of s' i = conn_of s i"
    and about: "about j p" "\<forall>q \<in> set ps. about j q" and ps: "SPanic \<notin> set ps"
    and opts: "sv_opts s' = sv_opts s"
    and active: "sv_activeConnections s' + int (staged 4 p) = sv_activeConnections s + int (total_of (staged 4) ps)"
    and wg: "sv_wg s' + int (staged 6 p) = sv_wg s + int (total_of (staged 6) ps)"
    and sem: "sv_connSemaphore s' = None \<longleftrightarrow> sv_connSemaphore s = None"
      "\<forall>m'. sv_connSemaphore s' = Some m' \<longrightarrow> (\<exists>m. sv_connSemaphore s = Some m \<and> chan_cap m' = chan_cap m \<and> chan_closed m' = chan_closed m
        \<and> (chan_wf m \<longrightarrow> chan_wf m') \<and> length (chan_buf m') + staged 5 p = length (chan_buf m) + total_of (staged 5) ps)"
    and j: "role_of p \<noteq> Outside" and step: "conn_step j p ps (conn_of s j) (conn_of s' j)"
  shows "server_counts s' (ps @ qs)"
proof -
  have "j < length (sv_conns s)"
    using inv about(1) j by (auto simp: server_counts_def in_range_def about_def split: role.splits)
  then have range: "in_range (length (sv_conns s)) q" if "q \<in> set ps" for q
    using about(2) that by (auto simp: about_def in_range_def split: role.splits)
  have "conn_counts i (conn_of s' i) (ps @ qs)" if "i < length (sv_conns s)" for i
  proof (cases "i = j")
    case True
    then show ?thesis
      using conn_counts_step [OF _ step] inv that by (simp add: server_counts_def)
  next
    case False
    have "conn_counts i (conn_of s i) (p # qs)"
      using inv that by (simp add: server_counts_def)
    then show ?thesis
      using False others about_other [OF about(1) False] about_other_list [OF about(2) False] by (simp add: conn_counts_def)
  qed
  moreover have "length (chan_buf m') = total_of (staged 5) (ps @ qs) \<and> chan_wf m' \<and> \<not> chan_closed m' \<and> int (chan_cap m') = tso_MaxConnections (sv_opts s')"
    if "sv_connSemaphore s' = Some m'" for m'
    using sem(2) [rule_format, OF that] inv opts by (auto simp: server_counts_def)
  ultimately show ?thesis
    using inv range active wg sem(1) ps opts len unfolding server_counts_def by auto
qed

definition untouched :: "nat \<Rightarrow> ('m, 'v) tcp_Server \<Rightarrow> ('m, 'v) tcp_Server \<Rightarrow> bool" where
  "untouched j s s' \<longleftrightarrow> length (sv_conns s') = length (sv_conns s) \<and> (\<forall>i. i \<noteq> j \<longrightarrow> conn_of s' i = conn_of s i)
     \<and> sv_opts s' = sv_opts s \<and> sv_activeConnections s' = sv_activeConnections s \<and> sv_wg s' = sv_wg s
     \<and> sv_connSemaphore s' = sv_connSemaphore s"

lemma untouched_simps [simp]: "untouched j s s" "untouched j s (upd_sc f j s)" "untouched j s (s\<lparr>sv_reqSemaphore := x\<rparr>)"
  by (simp_all add: untouched_def upd_sc_def conn_of_def)

text \<open>A step within a role that touches nothing but the contents of the connection.\<close>

lemma counts_quiet:
  assumes inv: "server_counts s (p # qs)" and role: "role_of p' = role_of p" "role_of p \<noteq> Outside" "about j p"
    and same: "untouched j s s'"
    and step: "\<forall>U L S P W H. conn_ok U L S P W H (conn_of s j) \<longrightarrow> conn_ok U L S P W H (conn_of s' j)"
  shows "server_counts s' (p' # qs)"
proof -
  have eq: "at_stage K i p' = at_stage K i p" "writers i p' = writers i p" "handlers i p' = handlers i p" "staged k p' = staged k p"
    "about i p' = about i p" for K i k
    using role(1) by (simp_all add: role_weights about_def)
  have "p' \<noteq> SPanic"
    using role by auto
  then have "server_counts s' ([p'] @ qs)"
    using step same by (intro counts_local [OF inv _ _ role(3)]) (simp_all add: eq role untouched_def conn_step_def)
  then show ?thesis
    by simp
qed

lemma live_sender:
  assumes "server_counts s (p # qs)" and "role_of p = Reader j 1 \<or> role_of p = Handler j"
  obtains wc where "j < length (sv_conns s)" "sc_writeCh (conn_of s j) = Some wc" "\<not> chan_closed wc"
proof -
  have "j < length (sv_conns s)"
    using assms by (auto simp: server_counts_def in_range_def)
  then have "conn_counts j (conn_of s j) (p # qs)"
    using assms(1) by (simp add: server_counts_def)
  then have "live (conn_of s j)"
    using assms(2) by (cases "live (conn_of s j)") (auto simp: conn_counts_def conn_ok_def at_stage_def handlers_def)
  then show ?thesis
    using that \<open>j < length (sv_conns s)\<close> by (auto simp: live_def)
qed

lemma conn_ok_upd [simp]:
  "conn_ok U L S P W H (c\<lparr>sc_in := x1\<rparr>) = conn_ok U L S P W H c" "conn_ok U L S P W H (c\<lparr>sc_taken := x2\<rparr>) = conn_ok U L S P W H c"
  "conn_ok U L S P W H (c\<lparr>sc_out := x1\<rparr>) = conn_ok U L S P W H c" "conn_ok U L S P W H (c\<lparr>sc_written := x3\<rparr>) = conn_ok U L S P W H c"
  "conn_ok U L S P W H (c\<lparr>sc_dropped := x4\<rparr>) = conn_ok U L S P W H c" "conn_ok U L S P W H (c\<lparr>sc_open := x5\<rparr>) = conn_ok U L S P W H c"
  by (simp_all add: conn_ok_def live_def)

lemma conn_ok_send:
  assumes "conn_ok U L S P W H c" and "sc_writeCh c = Some wc" and "try_send wc x = (wc', Sent)"
  shows "conn_ok U L S P W H (c\<lparr>sc_writeCh := Some wc'\<rparr>)"
  using assms by (auto simp: conn_ok_def live_def try_send_def chan_wf_def split: if_splits)

lemma conn_ok_recv:
  assumes "conn_ok U L S P W H c" and "sc_writeCh c = Some wc" and "try_recv wc = (wc', Got x)"
  shows "conn_ok U L S P W H (c\<lparr>sc_writeCh := Some wc'\<rparr>)"
  using assms by (auto simp: conn_ok_def live_def try_recv_def chan_wf_def split: list.splits)

lemma conn_of_upd_other [simp]: "i \<noteq> j \<Longrightarrow> conn_of (upd_sc f j s) i = conn_of s i"
  by (simp add: upd_sc_def conn_of_def)

lemma send_or_done_counts:
  assumes inv: "server_counts s (p # qs)" and p: "role_of p = Reader j 1 \<or> role_of p = Handler j"
    and st: "send_or_done ch j n x p1 p2 s = Some (s', p', ps)" and same: "role_of p1 = role_of p" "role_of p2 = role_of p"
  shows "server_counts s' (p' # ps @ qs)"
proof -
  obtain wc where wc: "j < length (sv_conns s)" "sc_writeCh (conn_of s j) = Some wc" "\<not> chan_closed wc"
    by (rule live_sender [OF inv p])
  have "role_of p' = role_of p \<and> ps = [] \<and> untouched j s s' \<and>
      (\<forall>U L S P W H. conn_ok U L S P W H (conn_of s j) \<longrightarrow> conn_ok U L S P W H (conn_of s' j))"
  proof (cases ch)
    case (SGo now)
    then obtain wc' where "try_send wc (x now) = (wc', Sent)" "s' = upd_sc (\<lambda>c. c\<lparr>sc_writeCh := Some wc'\<rparr>) j s" "p' = p1" "ps = []"
      using st wc by (auto simp: send_or_done_def try_send_def split: if_splits)
    then show ?thesis
      using same conn_ok_send [OF _ wc(2)] wc(1) by simp
  next
    case SDone
    then have "s' = upd_sc (drop_answer n) j s" "p' = p2" "ps = []"
      using st by (auto simp: send_or_done_def split: if_splits)
    then show ?thesis
      using same wc(1) by (simp add: drop_answer_def)
  qed (use st in \<open>simp_all add: send_or_done_def\<close>)
  then show ?thesis
    using p by (auto intro!: counts_quiet [OF inv, where j = j] simp: about_def)
qed

text \<open>The steps of a writer, of a handler and of a reader.\<close>

lemma counts_writer:
  assumes inv: "server_counts s (p # qs)" and lib: "no_codec_panic codecs comps (sv_codec s)"
    and st: "writer_step ch p s = Some (s', p', ps)"
  shows "server_counts s' (p' # ps @ qs)"
proof (cases p)
  case (Writing j)
  then have j: "j < length (sv_conns s)"
    using inv by (simp add: server_counts_def in_range_def)
  obtain wc where wc: "sc_writeCh (conn_of s j) = Some wc"
    using st Writing by (auto simp: writer_step_def bind_eq_Some_conv)
  obtain wc' r where r: "try_recv wc = (wc', r)"
    by fastforce
  show ?thesis
  proof (cases r)
    case (Got x)
    then have "s' = upd_sc (\<lambda>c. c\<lparr>sc_writeCh := Some wc'\<rparr>) j s" "p' = WriteOne j x" "ps = []"
      using st Writing wc r by (simp_all add: writer_step_def)
    then show ?thesis
      using Writing j conn_ok_recv [OF _ wc] r Got
      by (auto intro!: counts_quiet [OF inv, where j = j] simp: about_def)
  next
    case RecvClosed
    then have s': "s' = upd_sc (\<lambda>c. c\<lparr>sc_writerWg := sc_writerWg c - 1\<rparr>) j s" "p' = WriterGone j" "ps = []"
      using st Writing wc r by (simp_all add: writer_step_def)
    have "chan_closed wc \<and> chan_buf wc = []"
      using r RecvClosed by (auto simp: try_recv_def split: list.splits if_splits)
    then have "conn_step j p [p'] (conn_of s j) (conn_of s' j)"
      using s' j Writing wc by (auto simp: conn_step_def conn_ok_def role_weights live_def)
    then have "server_counts s' ([p'] @ qs)"
      using s' j Writing by (intro counts_local [OF inv, where j = j]) (auto simp: about_def staged_def)
    then show ?thesis
      using s' by simp
  next
    case RecvEmpty
    then show ?thesis
      using st Writing wc r by (simp add: writer_step_def)
  qed
next
  case (WriteOne j x)
  then have j: "j < length (sv_conns s)"
    using inv by (simp add: server_counts_def in_range_def)
  have "EncodeResponse (sv_codec s) (reply_resp x) \<noteq> RPanic"
    using lib by (simp add: no_codec_panic_def)
  then have "untouched j s s' \<and> role_of p' = Writer j \<and> ps = []
      \<and> (\<forall>U L S P W H. conn_ok U L S P W H (conn_of s j) \<longrightarrow> conn_ok U L S P W H (conn_of s' j))"
    using st WriteOne j
    by (cases x) (auto simp: writer_step_def drop_answer_def split: result.splits srv_choice.splits if_splits)
  then show ?thesis
    using WriteOne by (auto intro!: counts_quiet [OF inv, where j = j] simp: about_def)
next
  case (WriteFail j)
  then have "j < length (sv_conns s)"
    using inv by (simp add: server_counts_def in_range_def)
  then show ?thesis
    using st WriteFail
    by (auto intro!: counts_quiet [OF inv, where j = j] simp: writer_step_def about_def)
next
  case (WriteCancel j)
  then have j: "j < length (sv_conns s)"
    using inv by (simp add: server_counts_def in_range_def)
  have s': "s' = upd_sc (\<lambda>c. c\<lparr>sc_cancelled := True, sc_writerWg := sc_writerWg c - 1\<rparr>) j s" "p' = WriterGone j" "ps = []"
    using st WriteCancel by (simp_all add: writer_step_def)
  then have "conn_step j p [p'] (conn_of s j) (conn_of s' j)"
    using j WriteCancel by (auto simp: conn_step_def conn_ok_def role_weights live_def)
  then have "server_counts s' ([p'] @ qs)"
    using s' j WriteCancel by (intro counts_local [OF inv, where j = j]) (auto simp: about_def staged_def)
  then show ?thesis
    using s' by simp
qed (use st in \<open>simp_all add: writer_step_def\<close>)

lemma counts_handler:
  assumes inv: "server_counts s (p # qs)" and st: "handler_step handler ch p s = Some (s', p', ps)"
  shows "server_counts s' (p' # ps @ qs)"
proof (cases p)
  case (Handle j n)
  then have "s' = s" "role_of p' = role_of p" "ps = []"
    using st by (auto simp: handler_step_def split: srv_choice.splits if_splits)
  then show ?thesis
    using Handle by (auto intro!: counts_quiet [OF inv, where j = j] simp: about_def)
next
  case (HReply j n r)
  then show ?thesis
    using st by (intro send_or_done_counts [OF inv, of j]) (auto simp: handler_step_def)
next
  case (HRelease j)
  then show ?thesis
    using st
    by (auto intro!: counts_quiet [OF inv, where j = j] simp: about_def handler_step_def
        split: option.splits prod.splits recv_result.splits)
next
  case (HDone j)
  then have j: "j < length (sv_conns s)"
    using inv by (simp add: server_counts_def in_range_def)
  have "conn_counts j (conn_of s j) (p # qs)"
    using inv j by (simp add: server_counts_def)
  then have "0 < sc_handlersWg (conn_of s j)"
    using HDone by (simp add: conn_counts_def conn_ok_def handlers_def)
  then have s': "s' = upd_sc (\<lambda>c. c\<lparr>sc_handlersWg := sc_handlersWg c - 1\<rparr>) j s" "p' = HGone" "ps = []"
    using st HDone by (simp_all add: handler_step_def)
  then have "conn_step j p [p'] (conn_of s j) (conn_of s' j)"
    using j HDone by (auto simp: conn_step_def conn_ok_def role_weights live_def)
  then have "server_counts s' ([p'] @ qs)"
    using s' j HDone by (intro counts_local [OF inv, where j = j]) (auto simp: about_def staged_def)
  then show ?thesis
    using s' by simp
qed (use st in \<open>simp_all add: handler_step_def\<close>)

text \<open>A connection has one reader, so the other goroutines add nothing to its stages.\<close>

lemma conn_step_reader:
  assumes p: "role_of p = Reader j k"
    and step: "\<And>W H. conn_ok 1 (of_bool (k = 1)) (of_bool (k = 0)) (of_bool (k \<in> not_writing)) W H c
      \<Longrightarrow> conn_ok (total_of (at_stage UNIV j) ps) (total_of (at_stage {1} j) ps) (total_of (at_stage {0} j) ps)
          (total_of (at_stage not_writing j) ps) (total_of (writers j) ps + W) (total_of (handlers j) ps + H) c'"
  shows "conn_step j p ps c c'"
  unfolding conn_step_def
proof (intro allI impI)
  fix U L S P W H
  assume le: "L \<le> U" "S \<le> U" "P \<le> U"
    and ok: "conn_ok (at_stage UNIV j p + U) (at_stage {1} j p + L) (at_stage {0} j p + S) (at_stage not_writing j p + P)
             (writers j p + W) (handlers j p + H) c"
  have "at_stage UNIV j p = 1"
    using p by (simp add: at_stage_def)
  then have 0: "U = 0" "L = 0" "S = 0" "P = 0"
    using ok le by (simp_all add: conn_ok_def)
  then have "conn_ok 1 (of_bool (k = 1)) (of_bool (k = 0)) (of_bool (k \<in> not_writing)) W H c"
    using ok p by (simp add: role_weights)
  from step [OF this]
  show "conn_ok (total_of (at_stage UNIV j) ps + U) (total_of (at_stage {1} j) ps + L) (total_of (at_stage {0} j) ps + S)
        (total_of (at_stage not_writing j) ps + P) (total_of (writers j) ps + W) (total_of (handlers j) ps + H) c'"
    using 0 by simp
qed

lemma live_upd [simp]:
  "live (c\<lparr>sc_handlersWg := x\<rparr>) = live c" "live (c\<lparr>sc_writeCh := Some wc\<rparr>) \<longleftrightarrow> \<not> chan_closed wc"
  by (simp_all add: live_def)

lemma conn_ok_setup:
  assumes "conn_ok (Suc 0) 0 (Suc 0) (Suc 0) W H c"
  shows "conn_ok (Suc 0) (Suc 0) 0 0 (Suc W) H (c\<lparr>sc_writeCh := Some (make_chan 64), sc_writerWg := sc_writerWg c + 1\<rparr>)"
    and "conn_ok (Suc 0) 0 0 (Suc 0) W H c"
  using assms by (auto simp: conn_ok_def live_def make_chan_def chan_wf_def)

lemma conn_ok_spawn:
  "conn_ok (Suc 0) (Suc 0) 0 0 W H c \<Longrightarrow> conn_ok (Suc 0) (Suc 0) 0 0 W (Suc H) (c\<lparr>sc_handlersWg := sc_handlersWg c + 1\<rparr>)"
  by (cases "live c") (simp_all add: conn_ok_def)

lemma conn_ok_close_chan:
  assumes "conn_ok (Suc 0) (Suc 0) 0 0 W H c" and "sc_writeCh c = Some wc" and "sc_handlersWg c = 0"
  shows "conn_ok (Suc 0) 0 0 0 W H (c\<lparr>sc_writeCh := Some (wc\<lparr>chan_closed := True\<rparr>)\<rparr>)"
  using assms by (auto simp: conn_ok_def chan_wf_def)

lemma conn_ok_writer_gone: "conn_ok (Suc 0) 0 0 0 W H c \<Longrightarrow> sc_writerWg c = 0 \<Longrightarrow> conn_ok (Suc 0) 0 0 (Suc 0) W H c"
  by (auto simp: conn_ok_def)

lemma conn_ok_cancel: "conn_ok U L S P W H c \<Longrightarrow> conn_ok U L S P W H (c\<lparr>sc_cancelled := True\<rparr>)"
  by (simp add: conn_ok_def live_def)

lemma counts_reader:
  assumes inv: "server_counts s (p # qs)" and lib: "no_codec_panic codecs comps (sv_codec s)"
    and st: "reader_step codecs comps ch p s = Some (s', p', ps)"
  shows "server_counts s' (p' # ps @ qs)"
proof (cases p)
  case (Setup j)
  then have j: "j < length (sv_conns s)"
    using inv by (simp add: server_counts_def in_range_def)
  obtain k where k: "ch = SSock k"
    using st Setup by (cases ch) (auto simp: reader_step_def)
  show ?thesis
  proof (cases "setup_conn (sv_opts s) k")
    case None
    then have s': "s' = upd_sc (\<lambda>c. c\<lparr>sc_writeCh := Some (make_chan 64), sc_writerWg := sc_writerWg c + 1\<rparr>) j s" "p' = ReadTop j" "ps = [Writing j]"
      using st Setup k by (simp_all add: reader_step_def)
    then have "conn_step j p (p' # ps) (conn_of s j) (conn_of s' j)"
      using j Setup by (auto intro!: conn_step_reader [where k = 0] dest: conn_ok_setup(1) simp: role_weights)
    then have "server_counts s' ((p' # ps) @ qs)"
      using s' j Setup by (intro counts_local [OF inv, where j = j]) (auto simp: about_def staged_def)
    then show ?thesis
      by simp
  next
    case (Some e)
    then have s': "s' = s" "p' = ConnClose j" "ps = []"
      using st Setup k by (simp_all add: reader_step_def)
    then have "conn_step j p (p' # ps) (conn_of s j) (conn_of s' j)"
      using j Setup by (auto intro!: conn_step_reader [where k = 0] dest: conn_ok_setup(2) simp: role_weights)
    then have "server_counts s' ((p' # ps) @ qs)"
      using s' j Setup by (intro counts_local [OF inv, where j = j]) (auto simp: about_def staged_def)
    then show ?thesis
      by simp
  qed
next
  case (ReadTop j)
  then show ?thesis
    using st by (auto intro!: counts_quiet [OF inv, where j = j] simp: about_def reader_step_def)
next
  case (ReadFrame j)
  then have "j < length (sv_conns s)"
    using inv by (simp add: server_counts_def in_range_def)
  moreover have "fst (ReadRequest codecs comps (sc_in (conn_of s j))) \<noteq> RPanic"
    using lib by (simp add: no_codec_panic_def)
  ultimately have "untouched j s s' \<and> role_of p' = Reader j 1 \<and> ps = []
      \<and> (\<forall>U L S P W H. conn_ok U L S P W H (conn_of s j) \<longrightarrow> conn_ok U L S P W H (conn_of s' j))"
    using st ReadFrame by (auto simp: reader_step_def split: result.splits srv_choice.splits if_splits prod.splits)
  then show ?thesis
    using ReadFrame by (auto intro!: counts_quiet [OF inv, where j = j] simp: about_def)
next
  case (SizeReply j n)
  then show ?thesis
    using st by (intro send_or_done_counts [OF inv, of j]) (auto simp: reader_step_def)
next
  case (SemCheck j n)
  then show ?thesis
    using st
    by (auto intro!: counts_quiet [OF inv, where j = j] simp: about_def reader_step_def
        split: option.splits prod.splits send_result.splits)
next
  case (SemReply j n)
  then show ?thesis
    using st by (intro send_or_done_counts [OF inv, of j]) (auto simp: reader_step_def)
next
  case (Spawn j n)
  then have j: "j < length (sv_conns s)"
    using inv by (simp add: server_counts_def in_range_def)
  have s': "s' = upd_sc (\<lambda>c. c\<lparr>sc_handlersWg := sc_handlersWg c + 1\<rparr>) j s" "p' = ReadTop j" "ps = [Handle j n]"
    using st Spawn by (simp_all add: reader_step_def)
  have "conn_step j p (p' # ps) (conn_of s j) (conn_of s' j)"
    using s' j Spawn by (auto intro!: conn_step_reader [where k = 1] dest: conn_ok_spawn simp: role_weights)
  then have "server_counts s' ((p' # ps) @ qs)"
    using s' j Spawn by (intro counts_local [OF inv, where j = j]) (auto simp: about_def staged_def)
  then show ?thesis
    by simp
next
  case (WaitHandlers j)
  obtain wc where wc: "j < length (sv_conns s)" "sc_writeCh (conn_of s j) = Some wc" "\<not> chan_closed wc"
    using live_sender [OF inv, of j] WaitHandlers by auto
  then have s': "s' = upd_sc (\<lambda>c. c\<lparr>sc_writeCh := Some (wc\<lparr>chan_closed := True\<rparr>)\<rparr>) j s" "p' = WaitWriter j" "ps = []"
    "sc_handlersWg (conn_of s j) = 0"
    using st WaitHandlers by (auto simp: reader_step_def close_chan_def split: if_splits)
  then have "conn_step j p (p' # ps) (conn_of s j) (conn_of s' j)"
    using wc WaitHandlers conn_ok_close_chan [OF _ wc(2)]
    by (auto intro!: conn_step_reader [where k = 1] simp: role_weights)
  then have "server_counts s' ((p' # ps) @ qs)"
    using s' wc(1) WaitHandlers by (intro counts_local [OF inv, where j = j]) (auto simp: about_def staged_def)
  then show ?thesis
    by simp
next
  case (WaitWriter j)
  then have j: "j < length (sv_conns s)"
    using inv by (simp add: server_counts_def in_range_def)
  have s': "s' = s" "p' = ConnClose j" "ps = []" "sc_writerWg (conn_of s j) = 0"
    using st WaitWriter by (auto simp: reader_step_def split: if_splits)
  then have "conn_step j p (p' # ps) (conn_of s j) (conn_of s' j)"
    using WaitWriter by (auto intro!: conn_step_reader [where k = 2] dest: conn_ok_writer_gone simp: role_weights)
  then have "server_counts s' ((p' # ps) @ qs)"
    using s' j WaitWriter by (intro counts_local [OF inv, where j = j]) (auto simp: about_def staged_def)
  then show ?thesis
    by simp
qed (use st in \<open>simp_all add: reader_step_def\<close>)

lemma counts_CloseConnection:
  assumes inv: "server_counts s (p # qs)" and st: "CloseConnection p s = Some (s', p', ps)"
  shows "server_counts s' (p' # ps @ qs)"
proof (cases p)
  case (ConnClose j)
  then have j: "j < length (sv_conns s)"
    using inv by (simp add: server_counts_def in_range_def)
  have s': "s' = upd_sc (\<lambda>c. c\<lparr>sc_open := False\<rparr>) j s" "p' = ConnCount j" "ps = []"
    using st ConnClose by (simp_all add: CloseConnection_def)
  then have "conn_step j p (p' # ps) (conn_of s j) (conn_of s' j)"
    using j ConnClose by (simp add: conn_step_def role_weights)
  then have "server_counts s' ((p' # ps) @ qs)"
    using s' j ConnClose by (intro counts_local [OF inv, where j = j]) (auto simp: about_def staged_def)
  then show ?thesis
    by simp
next
  case (ConnCount j)
  have s': "s' = s\<lparr>sv_activeConnections := sv_activeConnections s - 1\<rparr>" "p' = ConnSem j" "ps = []"
    using st ConnCount by (simp_all add: CloseConnection_def)
  then have "conn_step j p (p' # ps) (conn_of s j) (conn_of s' j)"
    using ConnCount by (simp add: conn_step_def role_weights)
  then have "server_counts s' ((p' # ps) @ qs)"
    using s' ConnCount by (intro counts_local [OF inv, where j = j]) (auto simp: about_def staged_def)
  then show ?thesis
    by simp
next
  case (ConnSem j)
  show ?thesis
  proof (cases "sv_connSemaphore s")
    case None
    then have s': "s' = s" "p' = ConnWg j" "ps = []"
      using st ConnSem by (simp_all add: CloseConnection_def)
    then have "conn_step j p (p' # ps) (conn_of s j) (conn_of s' j)"
      using ConnSem by (simp add: conn_step_def role_weights)
    then have "server_counts s' ((p' # ps) @ qs)"
      using s' ConnSem None by (intro counts_local [OF inv, where j = j]) (auto simp: about_def staged_def)
    then show ?thesis
      by simp
  next
    case (Some sem)
    then have "\<not> chan_closed sem"
      using inv by (simp add: server_counts_def)
    then obtain rest where rest: "chan_buf sem = () # rest"
      and s': "s' = s\<lparr>sv_connSemaphore := Some (sem\<lparr>chan_buf := rest\<rparr>)\<rparr>" "p' = ConnWg j" "ps = []"
      using st ConnSem Some by (auto simp: CloseConnection_def try_recv_def split: list.splits)
    then have "conn_step j p (p' # ps) (conn_of s j) (conn_of s' j)"
      using ConnSem by (simp add: conn_step_def role_weights)
    then have "server_counts s' ((p' # ps) @ qs)"
      using s' ConnSem Some rest by (intro counts_local [OF inv, where j = j]) (auto simp: about_def staged_def chan_wf_def)
    then show ?thesis
      by simp
  qed
next
  case (ConnWg j)
  then have j: "j < length (sv_conns s)" "0 < sv_wg s"
    using inv by (simp_all add: server_counts_def in_range_def staged_def)
  then have s': "s' = upd_sc (\<lambda>c. c\<lparr>sc_cancelled := True\<rparr>) j (s\<lparr>sv_wg := sv_wg s - 1\<rparr>)" "p' = ConnGone j" "ps = []"
    using st ConnWg by (simp_all add: CloseConnection_def)
  then have "conn_step j p (p' # ps) (conn_of s j) (conn_of s' j)"
    using j ConnWg by (auto intro!: conn_step_reader [where k = 6] conn_ok_cancel simp: role_weights)
  then have "server_counts s' ((p' # ps) @ qs)"
    using s' j ConnWg by (intro counts_local [OF inv, where j = j]) (auto simp: about_def staged_def)
  then show ?thesis
    by simp
qed (use st in \<open>simp_all add: CloseConnection_def\<close>)

text \<open>The steps outside the connections.\<close>

lemma counts_outside:
  assumes inv: "server_counts s (p # qs)" and "role_of p = Outside" "\<forall>q \<in> set ps. role_of q = Outside" "SPanic \<notin> set ps"
    and same: "sv_conns s' = sv_conns s" "sv_opts s' = sv_opts s" "sv_activeConnections s' = sv_activeConnections s" "sv_wg s' = sv_wg s"
      "sv_connSemaphore s' = sv_connSemaphore s"
  shows "server_counts s' (ps @ qs)"
proof -
  have z: "total_of (at_stage K i) ps = 0" "total_of (writers i) ps = 0" "total_of (handlers i) ps = 0" "total_of (staged k) ps = 0"
    "at_stage K i p = 0" "writers i p = 0" "handlers i p = 0" "staged k p = 0" for K i k
    using assms(2,3) by (auto intro!: total_of_0 simp: role_weights)
  have "conn_of s' i = conn_of s i" for i
    using same by (simp add: conn_of_def)
  moreover have "in_range n q" if "q \<in> set ps" for q n
    using assms(3) that by (simp add: in_range_def)
  ultimately show ?thesis
    using inv assms(4) z by (auto simp: server_counts_def conn_counts_def same)
qed

lemma counts_admit:
  assumes inv: "server_counts s (Accept # qs)"
    and sem: "sv_connSemaphore s = None \<and> s1 = s
      \<or> (\<exists>m m'. sv_connSemaphore s = Some m \<and> try_send m () = (m', Sent) \<and> s1 = s\<lparr>sv_connSemaphore := Some m'\<rparr>)"
  shows "server_counts (admit_conn input s1) (Accept # [Setup (length (sv_conns s))] @ qs)"
proof -
  let ?n = "length (sv_conns s)" and ?s' = "admit_conn input s1"
  have s1: "sv_conns s1 = sv_conns s" "sv_opts s1 = sv_opts s" "sv_activeConnections s1 = sv_activeConnections s" "sv_wg s1 = sv_wg s"
    using sem by auto
  then have conns: "sv_conns ?s' = sv_conns s @ [new_conn input]"
    by (simp add: admit_conn_def)
  have range: "in_range ?n q" if "q \<in> set qs" for q
    using inv that by (simp add: server_counts_def)
  then have new: "total_of (at_stage K ?n) qs = 0" "total_of (writers ?n) qs = 0" "total_of (handlers ?n) qs = 0" for K
    by (force intro!: total_of_0 simp: role_weights split: role.splits)+
  have "conn_counts i (conn_of ?s' i) (Accept # [Setup ?n] @ qs)" if "i < Suc ?n" for i
  proof (cases "i = ?n")
    case True
    then have "conn_of ?s' i = new_conn input"
      by (simp add: conns conn_of_def)
    then show ?thesis
      using True new by (simp add: conn_counts_def role_weights conn_ok_def new_conn_def live_def)
  next
    case False
    then have "conn_of ?s' i = conn_of s i" "i < ?n"
      using that by (simp_all add: conns conn_of_def nth_append)
    moreover have "conn_counts i (conn_of s i) (Accept # qs)"
      using inv \<open>i < ?n\<close> by (simp add: server_counts_def)
    ultimately show ?thesis
      using False by (simp add: conn_counts_def role_weights)
  qed
  moreover have "in_range (Suc ?n) q" if "q \<in> set (Accept # [Setup ?n] @ qs)" for q
    using range that by (fastforce simp: in_range_def split: role.splits)
  moreover have "sv_connSemaphore ?s' = sv_connSemaphore s1"
    by (simp add: admit_conn_def)
  ultimately show ?thesis
    using inv sem s1 by (auto simp: server_counts_def conns admit_conn_def staged_def try_send_def chan_wf_def split: if_splits)
qed

definition outside_same :: "('m, 'v) tcp_Server \<Rightarrow> ('m, 'v) tcp_Server \<Rightarrow> bool" where
  "outside_same s s' \<longleftrightarrow> sv_conns s' = sv_conns s \<and> sv_opts s' = sv_opts s \<and> sv_codec s' = sv_codec s
     \<and> sv_activeConnections s' = sv_activeConnections s \<and> sv_wg s' = sv_wg s \<and> sv_connSemaphore s' = sv_connSemaphore s
     \<and> sv_reqSemaphore s' = sv_reqSemaphore s \<and> (sv_ctxErr s \<noteq> None \<longrightarrow> sv_ctxErr s' \<noteq> None)"

lemma outside_step:
  assumes st: "srv_step1 codecs comps handler ch p s = Some (s', p', ps)" and out: "role_of p = Outside"
  obtains (admit) input s1 where "p = Accept" "s' = admit_conn input s1" "p' = Accept" "ps = [Setup (length (sv_conns s))]"
      "sv_connSemaphore s = None \<and> s1 = s
        \<or> (\<exists>m m'. sv_connSemaphore s = Some m \<and> try_send m () = (m', Sent) \<and> s1 = s\<lparr>sv_connSemaphore := Some m'\<rparr>)"
  | (other) "\<forall>q \<in> set (p' # ps). role_of q = Outside \<and> q \<noteq> SPanic" "outside_same s s'"
proof (cases "\<exists>input closing. p = Accept \<and> ch = SAccept input closing")
  case True
  then obtain input closing where Accept: "p = Accept" "ch = SAccept input closing"
    by blast
  show ?thesis
  proof (cases "sv_connSemaphore s")
    case None
    then show ?thesis
      using st Accept admit [of input s] by (simp add: srv_step1_def serve_step_def split: if_split_asm)
  next
    case (Some m)
    then show ?thesis
    proof (cases "snd (try_send m ()) = Sent")
      case True
      then obtain m' where "try_send m () = (m', Sent)"
        by (cases "try_send m ()") auto
      then show ?thesis
        using st Accept Some admit [of input "s\<lparr>sv_connSemaphore := Some m'\<rparr>"]
        by (simp add: srv_step1_def serve_step_def split: if_split_asm)
    next
      case False
      then have "s' = s \<and> ps = [] \<and> role_of p' = Outside \<and> p' \<noteq> SPanic"
        using st Accept Some
        by (cases "try_send m ()"; cases "snd (try_send m ())")
          (auto simp: srv_step1_def serve_step_def split: if_split_asm option.splits)
      then show ?thesis
        by (intro other) (simp_all add: outside_same_def)
    qed
  qed
next
  case False
  then have "(\<forall>q \<in> set (p' # ps). role_of q = Outside \<and> q \<noteq> SPanic) \<and> outside_same s s'"
  proof (cases p)
    case SIdle
    then show ?thesis
      using st by (cases ch) (auto simp: srv_step1_def user_step_def srv_Listen_def serve_begin_def outside_same_def
          split: if_splits sum.splits)
  next
    case Accept
    then show ?thesis
      using st False by (cases ch) (auto simp: srv_step1_def serve_step_def accept_failed_def outside_same_def split: if_splits)
  qed (use st out in \<open>auto simp: srv_step1_def serve_step_def close_step_def reader_step_def outside_same_def
      split: if_splits option.splits bool.splits\<close>)
  then show ?thesis
    using other by blast
qed

lemma counts_step:
  assumes inv: "server_counts s (p # qs)" and lib: "no_codec_panic codecs comps (sv_codec s)"
    and st: "srv_step1 codecs comps handler ch p s = Some (s', p', ps)"
  shows "server_counts s' (p' # ps @ qs)"
proof (cases "role_of p = Outside")
  case True
  from st True show ?thesis
  proof (cases rule: outside_step)
    case (admit input s1)
    then show ?thesis
      using counts_admit [of s qs s1] inv by simp
  next
    case other
    then show ?thesis
      using counts_outside [OF inv True, of "p' # ps" s'] by (auto simp: outside_same_def)
  qed
next
  case False
  then show ?thesis
    using st counts_writer [OF inv lib] counts_handler [OF inv] counts_reader [OF inv lib] counts_CloseConnection [OF inv]
    by (cases p) (simp_all add: srv_step1_def)
qed

end
