(* ===== verification/Server_History.thy ===== *)
theory Server_History
  imports Server_Accounting
begin

text \<open>
  What becomes of the requests of a connection of the TCP server, the invariant of the whole server,
  and its properties.
\<close>

section \<open>What happens to the requests\<close>

text \<open>
  The requests a goroutine is about to answer; whether a writer has failed, or has not.
\<close>

definition toks :: "nat \<Rightarrow> ('m, 'v) srv_proc \<Rightarrow> nat multiset" where
  "toks i p = (case p of
      SizeReply j n \<Rightarrow> if j = i then {#n#} else {#}
    | SemCheck j n \<Rightarrow> if j = i then {#n#} else {#}
    | SemReply j n \<Rightarrow> if j = i then {#n#} else {#}
    | Spawn j n \<Rightarrow> if j = i then {#n#} else {#}
    | Handle j n \<Rightarrow> if j = i then {#n#} else {#}
    | HReply j n r \<Rightarrow> if j = i then {#n#} else {#}
    | WriteOne j x \<Rightarrow> (case x of Answer n r \<Rightarrow> if j = i then {#n#} else {#} | Refusal n r \<Rightarrow> {#})
    | _ \<Rightarrow> {#})"

definition failing :: "nat \<Rightarrow> ('m, 'v) srv_proc \<Rightarrow> nat" where
  "failing i p = (case p of WriteFail j \<Rightarrow> of_bool (j = i) | WriteCancel j \<Rightarrow> of_bool (j = i) | _ \<Rightarrow> 0)"

definition healthy :: "nat \<Rightarrow> ('m, 'v) srv_proc \<Rightarrow> nat" where
  "healthy i p = (case p of Writing j \<Rightarrow> of_bool (j = i) | WriteOne j x \<Rightarrow> of_bool (j = i) | _ \<Rightarrow> 0)"

definition answer_tok :: "('m, 'v) reply \<Rightarrow> nat multiset" where
  "answer_tok x = (case x of Answer n r \<Rightarrow> {#n#} | Refusal n r \<Rightarrow> {#})"

definition queued :: "('m, 'v) srv_conn \<Rightarrow> ('m, 'v) reply list" where
  "queued c = (case sc_writeCh c of None \<Rightarrow> [] | Some wc \<Rightarrow> chan_buf wc)"

text \<open>
  A reply belongs to a request of the connection: an answer is what the handler made of it, a refusal
  is one of the two of the code and its limit is in force.
\<close>

definition answers :: "(('m, 'v) Request \<Rightarrow> ('m, 'v) Response or_error \<Rightarrow> bool) \<Rightarrow> Header \<times> ('m, 'v) Request \<Rightarrow> ('m, 'v) Response \<Rightarrow> bool" where
  "answers handler t resp \<longleftrightarrow> (\<exists>now r. handler (snd t) r \<and> resp = answer_to (fst t) now r)"

definition reply_valid ::
    "(('m, 'v) Request \<Rightarrow> ('m, 'v) Response or_error \<Rightarrow> bool) \<Rightarrow> ServerOptions \<Rightarrow> (Header \<times> ('m, 'v) Request) list \<Rightarrow> ('m, 'v) reply \<Rightarrow> bool" where
  "reply_valid handler opts ts x =
     (case x of
        Answer n resp \<Rightarrow> n < length ts \<and> answers handler (ts ! n) resp
      | Refusal n resp \<Rightarrow> n < length ts \<and> (\<exists>now.
          too_large opts (fst (ts ! n)) \<and> x = refusal (fst (ts ! n)) n ErrorRequestEntityTooLarge ''request body too large'' now
          \<or> tso_MaxConcurrentRequests opts > 0 \<and> x = refusal (fst (ts ! n)) n ErrorCodeUnavailable ''too many concurrent requests'' now))"

lemma reply_valid_append: "reply_valid handler opts ts x \<Longrightarrow> reply_valid handler opts (ts @ us) x"
  by (auto simp: reply_valid_def nth_append split: reply.splits)

definition proc_valid ::
    "(('m, 'v) Request \<Rightarrow> ('m, 'v) Response or_error \<Rightarrow> bool) \<Rightarrow> ('m, 'v) tcp_Server \<Rightarrow> ('m, 'v) srv_proc \<Rightarrow> bool" where
  "proc_valid handler s p =
     (case p of
        SizeReply i n \<Rightarrow> n < length (sc_taken (conn_of s i)) \<and> too_large (sv_opts s) (fst (taken s i n))
      | SemCheck i n \<Rightarrow> n < length (sc_taken (conn_of s i))
      | SemReply i n \<Rightarrow> n < length (sc_taken (conn_of s i)) \<and> tso_MaxConcurrentRequests (sv_opts s) > 0
      | Spawn i n \<Rightarrow> n < length (sc_taken (conn_of s i))
      | Handle i n \<Rightarrow> n < length (sc_taken (conn_of s i))
      | HReply i n r \<Rightarrow> n < length (sc_taken (conn_of s i)) \<and> answers handler (taken s i n) r
      | WriteOne i x \<Rightarrow> reply_valid handler (sv_opts s) (sc_taken (conn_of s i)) x
      | _ \<Rightarrow> True)"

text \<open>The output is the frames of the replies written, followed by a part of one more if a write has failed.\<close>

definition on_wire :: "('m, 'v) ProtocolCodec \<Rightarrow> bool \<Rightarrow> ('m, 'v) reply list \<Rightarrow> bytes \<Rightarrow> bool" where
  "on_wire pc broken xs out \<longleftrightarrow>
     (\<exists>bs part. list_all2 (\<lambda>x b. EncodeResponse pc (reply_resp x) = Ok b) xs bs \<and> out = concat bs @ part
        \<and> (part \<noteq> [] \<longrightarrow> broken \<and> (\<exists>resp b rest. EncodeResponse pc resp = Ok b \<and> b = part @ rest)))"

lemma on_wire_mono: "on_wire pc broken xs out \<Longrightarrow> (broken \<Longrightarrow> broken') \<Longrightarrow> on_wire pc broken' xs out"
  unfolding on_wire_def by blast

lemma on_wire_write:
  assumes "on_wire pc False xs out" and "EncodeResponse pc (reply_resp x) = Ok b"
  shows "on_wire pc False (xs @ [x]) (out @ b)" "on_wire pc True xs (out @ take k b)"
proof -
  obtain bs where bs: "list_all2 (\<lambda>x b. EncodeResponse pc (reply_resp x) = Ok b) xs bs" "out = concat bs"
    using assms(1) by (auto simp: on_wire_def)
  then have "list_all2 (\<lambda>x b. EncodeResponse pc (reply_resp x) = Ok b) (xs @ [x]) (bs @ [b])" "out @ b = concat (bs @ [b]) @ []"
    using assms(2) by (simp_all add: list_all2_appendI)
  then show "on_wire pc False (xs @ [x]) (out @ b)"
    unfolding on_wire_def by blast
  show "on_wire pc True xs (out @ take k b)"
    unfolding on_wire_def using bs assms(2) append_take_drop_id [of k b] by metis
qed

text \<open>
  The history of a connection, given the requests \<open>T\<close> that its goroutines are about to answer, how many
  failed writers \<open>F\<close> and how many others \<open>G\<close> it has, and whether the context of \<open>Serve\<close> is done: every
  request read is about to be answered, or queued, written or given up, and only once; what was read is
  what the peer sent; what was written is the frames of the replies, with a part of one more when the
  writer has failed.
\<close>

definition history ::
    "('m, 'v) Codec registry \<Rightarrow> Compressor registry \<Rightarrow> (('m, 'v) Request \<Rightarrow> ('m, 'v) Response or_error \<Rightarrow> bool)
     \<Rightarrow> ServerOptions \<Rightarrow> ('m, 'v) ProtocolCodec \<Rightarrow> bool \<Rightarrow> nat multiset \<Rightarrow> nat \<Rightarrow> nat \<Rightarrow> ('m, 'v) srv_conn \<Rightarrow> bool" where
  "history codecs comps handler opts pc ctx T F G c \<longleftrightarrow>
     T + total_of answer_tok (queued c) + total_of answer_tok (sc_written c) + sc_dropped c = mset [0..<length (sc_taken c)]
     \<and> (sc_dropped c \<noteq> {#} \<longrightarrow> ctx \<or> sc_cancelled c \<or> 0 < F)
     \<and> read_requests codecs comps (length (sc_taken c)) (sc_input c) = (map Ok (sc_taken c), sc_in c)
     \<and> on_wire pc (G = 0 \<and> (sc_cancelled c \<or> 0 < F)) (sc_written c) (sc_out c)
     \<and> (sc_writeCh c = None \<longrightarrow> sc_written c = [] \<and> sc_out c = [])
     \<and> (\<forall>x \<in> set (queued c) \<union> set (sc_written c). reply_valid handler opts (sc_taken c) x)"

definition server_history ::
    "('m, 'v) Codec registry \<Rightarrow> Compressor registry \<Rightarrow> (('m, 'v) Request \<Rightarrow> ('m, 'v) Response or_error \<Rightarrow> bool)
     \<Rightarrow> ('m, 'v) tcp_Server \<Rightarrow> ('m, 'v) srv_proc list \<Rightarrow> bool" where
  "server_history codecs comps handler s ps \<longleftrightarrow>
     (\<forall>p \<in> set ps. proc_valid handler s p)
     \<and> (sv_reqSemaphore s \<noteq> None \<longleftrightarrow> tso_MaxConcurrentRequests (sv_opts s) > 0)
     \<and> (\<forall>i < length (sv_conns s). history codecs comps handler (sv_opts s) (sv_codec s) (sv_ctxErr s \<noteq> None)
          (total_of (toks i) ps) (total_of (failing i) ps) (total_of (healthy i) ps) (conn_of s i))"

lemma server_history_perm:
  fixes ps :: "('a, 'b) srv_proc list"
  assumes "mset ps = mset qs"
  shows "server_history codecs comps handler s ps = server_history codecs comps handler s qs"
  unfolding server_history_def mset_eq_setD [OF assms] total_of_perm [OF assms] ..

lemma about_other_history:
  assumes "about j p" and "i \<noteq> j"
  shows "toks i p = {#}" "failing i p = 0" "healthy i p = 0"
  using assms by (auto simp: about_def toks_def failing_def healthy_def split: srv_proc.splits reply.splits)

lemma about_other_history_list:
  assumes "\<forall>p \<in> set ps. about j p" and "i \<noteq> j"
  shows "total_of (toks i) ps = {#}" "total_of (failing i) ps = 0" "total_of (healthy i) ps = 0"
  using assms by (auto intro!: total_of_0 simp: about_other_history)

lemma proc_valid_mono:
  assumes "proc_valid handler s q" and "sv_opts s' = sv_opts s"
    and "\<forall>i. \<exists>us. sc_taken (conn_of s' i) = sc_taken (conn_of s i) @ us"
  shows "proc_valid handler s' q"
proof -
  have "n < length (sc_taken (conn_of s i)) \<Longrightarrow> n < length (sc_taken (conn_of s' i)) \<and> taken s' i n = taken s i n" for i n
    using assms(3) [rule_format, of i] by (auto simp: taken_def nth_append)
  moreover have "reply_valid handler (sv_opts s) (sc_taken (conn_of s i)) x \<Longrightarrow> reply_valid handler (sv_opts s') (sc_taken (conn_of s' i)) x" for i x
    using assms(3) [rule_format, of i] assms(2) by (auto intro: reply_valid_append)
  ultimately show ?thesis
    using assms(1,2) by (cases q) (simp_all add: proc_valid_def)
qed

lemma history_local:
  assumes inv: "server_history codecs comps handler s (p # qs)"
    and about: "about j p" "\<forall>q \<in> set ps. about j q"
    and same: "length (sv_conns s') = length (sv_conns s)" "\<forall>i. i \<noteq> j \<longrightarrow> conn_of s' i = conn_of s i" "sv_opts s' = sv_opts s"
      "sv_codec s' = sv_codec s" "sv_ctxErr s' = sv_ctxErr s" "sv_reqSemaphore s' = None \<longleftrightarrow> sv_reqSemaphore s = None"
    and mono: "\<exists>us. sc_taken (conn_of s' j) = sc_taken (conn_of s j) @ us"
    and valid: "\<forall>q \<in> set ps. proc_valid handler s' q"
    and step: "history codecs comps handler (sv_opts s) (sv_codec s) (sv_ctxErr s \<noteq> None)
        (toks j p + total_of (toks j) qs) (failing j p + total_of (failing j) qs) (healthy j p + total_of (healthy j) qs) (conn_of s j)
      \<Longrightarrow> j < length (sv_conns s) \<Longrightarrow> history codecs comps handler (sv_opts s) (sv_codec s) (sv_ctxErr s \<noteq> None)
        (total_of (toks j) ps + total_of (toks j) qs) (total_of (failing j) ps + total_of (failing j) qs)
        (total_of (healthy j) ps + total_of (healthy j) qs) (conn_of s' j)"
  shows "server_history codecs comps handler s' (ps @ qs)"
proof -
  have "\<exists>us. sc_taken (conn_of s' i) = sc_taken (conn_of s i) @ us" for i
    using mono same(2) by (cases "i = j") auto
  then have "proc_valid handler s' q" if "q \<in> set qs" for q
    using inv that by (intro proc_valid_mono [OF _ same(3)]) (auto simp: server_history_def)
  moreover have "history codecs comps handler (sv_opts s') (sv_codec s') (sv_ctxErr s' \<noteq> None)
        (total_of (toks i) (ps @ qs)) (total_of (failing i) (ps @ qs)) (total_of (healthy i) (ps @ qs)) (conn_of s' i)"
    if "i < length (sv_conns s)" for i
  proof -
    have "history codecs comps handler (sv_opts s) (sv_codec s) (sv_ctxErr s \<noteq> None)
        (total_of (toks i) (p # qs)) (total_of (failing i) (p # qs)) (total_of (healthy i) (p # qs)) (conn_of s i)"
      using inv that unfolding server_history_def by blast
    then show ?thesis
      using step that same about_other_history [OF about(1), of i] about_other_history_list [OF about(2), of i]
      by (cases "i = j") simp_all
  qed
  ultimately show ?thesis
    using valid same inv unfolding server_history_def by auto
qed

lemma read_requests_snoc:
  assumes "read_requests codecs comps n r = (xs, r1)" and "ReadRequest codecs comps r1 = (x, r2)"
  shows "read_requests codecs comps (Suc n) r = (xs @ [x], r2)"
  using assms
proof (induction n arbitrary: r xs)
  case (Suc n)
  obtain y r' ys where y: "ReadRequest codecs comps r = (y, r')" "read_requests codecs comps n r' = (ys, r1)" "xs = y # ys"
    using Suc.prems(1) by (auto split: prod.splits)
  then have "read_requests codecs comps (Suc n) r' = (ys @ [x], r2)"
    using Suc by blast
  then show ?case
    using y by (simp add: read_requests.simps(2) [of _ _ "Suc n"] del: read_requests.simps(2))
qed simp

text \<open>The moves of a request: read, queued, taken from the queue, written, given up.\<close>

lemma history_take:
  assumes "history codecs comps handler opts pc ctx T F G c" and "ReadRequest codecs comps (sc_in c) = (Ok t, r)"
  shows "history codecs comps handler opts pc ctx (add_mset (length (sc_taken c)) T) F G (c\<lparr>sc_in := r, sc_taken := sc_taken c @ [t]\<rparr>)"
  using assms read_requests_snoc [OF _ assms(2)]
  by (auto simp: history_def queued_def simp del: read_requests.simps intro: reply_valid_append)

lemma history_send:
  assumes "history codecs comps handler opts pc ctx (answer_tok x + T) F G c" and "sc_writeCh c = Some wc"
    and "try_send wc x = (wc', Sent)" and "reply_valid handler opts (sc_taken c) x"
  shows "history codecs comps handler opts pc ctx T F G (c\<lparr>sc_writeCh := Some wc'\<rparr>)"
proof -
  have "chan_buf wc' = chan_buf wc @ [x]"
    using chan_fifo [OF assms(3)] by blast
  then have "queued (c\<lparr>sc_writeCh := Some wc'\<rparr>) = queued c @ [x]"
    using assms(2) by (simp add: queued_def)
  then show ?thesis
    using assms(1,4) by (auto simp: history_def ac_simps)
qed

lemma history_recv:
  assumes "history codecs comps handler opts pc ctx T F G c" and "sc_writeCh c = Some wc" and "try_recv wc = (wc', Got x)"
  shows "history codecs comps handler opts pc ctx (answer_tok x + T) F G (c\<lparr>sc_writeCh := Some wc'\<rparr>)
    \<and> reply_valid handler opts (sc_taken c) x"
proof -
  have "queued c = x # queued (c\<lparr>sc_writeCh := Some wc'\<rparr>)"
    using assms(2,3) by (auto simp: queued_def try_recv_def split: list.splits if_splits)
  then show ?thesis
    using assms(1) by (auto simp: history_def ac_simps)
qed

lemma history_drop:
  assumes "history codecs comps handler opts pc ctx (add_mset n T) F G c" and "ctx \<or> sc_cancelled c"
  shows "history codecs comps handler opts pc ctx T F G (drop_answer n c)"
  using assms by (auto simp: history_def drop_answer_def queued_def ac_simps)

lemma history_write:
  assumes "history codecs comps handler opts pc ctx (answer_tok x + T) F (Suc G) c" and "EncodeResponse pc (reply_resp x) = Ok bs"
    and "reply_valid handler opts (sc_taken c) x" and "sc_writeCh c \<noteq> None"
  shows "history codecs comps handler opts pc ctx T F (Suc G) (c\<lparr>sc_out := sc_out c @ bs, sc_written := sc_written c @ [x]\<rparr>)"
  using assms on_wire_write(1) [OF _ assms(2)] by (auto simp: history_def queued_def ac_simps)

lemma history_leave: "history codecs comps handler opts pc ctx T F (Suc G) c \<Longrightarrow> history codecs comps handler opts pc ctx T F G c"
  using on_wire_mono [of pc False "sc_written c" "sc_out c"] by (simp add: history_def)

lemma history_fail:
  assumes "history codecs comps handler opts pc ctx (answer_tok x + T) F 1 c"
    and "EncodeResponse pc (reply_resp x) = Ok bs \<and> part = take k bs \<or> part = []" and "sc_writeCh c \<noteq> None"
  shows "history codecs comps handler opts pc ctx T (Suc F) 0
     ((case x of Answer n r \<Rightarrow> drop_answer n c | Refusal n r \<Rightarrow> c)\<lparr>sc_out := sc_out c @ part\<rparr>)"
proof -
  have "on_wire pc False (sc_written c) (sc_out c)"
    using assms(1) by (simp add: history_def)
  then have "on_wire pc True (sc_written c) (sc_out c @ part)"
    using assms(2) by (auto intro: on_wire_write(2) elim: on_wire_mono)
  then show ?thesis
    using assms(1,3) by (cases x) (auto simp: history_def queued_def answer_tok_def drop_answer_def ac_simps)
qed

lemma history_give_up:
  fixes x :: "('m, 'v) reply" and c :: "('m, 'v) srv_conn"
  assumes "history codecs comps handler opts pc ctx (answer_tok x + T) F 1 c" and "sc_writeCh c \<noteq> None"
  shows "history codecs comps handler opts pc ctx T (Suc F) 0 (case x of Answer n r \<Rightarrow> drop_answer n c | Refusal n r \<Rightarrow> c)"
  using history_fail [OF assms(1) _ assms(2), of _ "[]"] by (cases x) (simp_all add: drop_answer_def)

lemma history_cancel:
  assumes "history codecs comps handler opts pc ctx T F G c"
  shows "history codecs comps handler opts pc ctx T F' G (c\<lparr>sc_cancelled := True\<rparr>)"
proof -
  have "on_wire pc (G = 0) (sc_written c) (sc_out c)"
    using assms by (auto simp: history_def intro: on_wire_mono)
  then show ?thesis
    using assms by (auto simp: history_def queued_def)
qed

lemma history_upd [simp]:
  "history codecs comps handler opts pc ctx T F G (c\<lparr>sc_open := x1\<rparr>) = history codecs comps handler opts pc ctx T F G c"
  "history codecs comps handler opts pc ctx T F G (c\<lparr>sc_handlersWg := x2\<rparr>) = history codecs comps handler opts pc ctx T F G c"
  "history codecs comps handler opts pc ctx T F G (c\<lparr>sc_writerWg := x2\<rparr>) = history codecs comps handler opts pc ctx T F G c"
  by (simp_all add: history_def queued_def)

lemma taken_drop [simp]: "sc_taken (drop_answer n c) = sc_taken c"
  by (simp add: drop_answer_def)

lemma taken_give_up [simp]: "sc_taken (case x of Answer n r \<Rightarrow> drop_answer n c | Refusal n r \<Rightarrow> c) = sc_taken c"
  by (cases x) simp_all

lemma taken_upd:
  "sc_taken (f (conn_of s j)) = sc_taken (conn_of s j) \<Longrightarrow> sc_taken (conn_of (upd_sc f j s) i) = sc_taken (conn_of s i)"
  by (cases "j < length (sv_conns s)"; cases "i = j") (simp_all add: upd_sc_def conn_of_def list_update_beyond)

lemmas history_weights = toks_def failing_def healthy_def

lemma send_or_done_history:
  assumes inv: "server_history codecs comps handler s (p # qs)" and counts: "server_counts s (p # qs)"
    and p: "role_of p = Reader j 1 \<or> role_of p = Handler j" "toks j p = {#n#}" "failing j p = 0" "healthy j p = 0"
    and st: "send_or_done ch j n x p1 p2 s = Some (s', p', ps)"
    and x: "\<And>now. reply_valid handler (sv_opts s) (sc_taken (conn_of s j)) (x now)"
    and p1: "\<And>now. {#n#} = answer_tok (x now) + toks j p1" "about j p1" "failing j p1 = 0" "healthy j p1 = 0" "proc_valid handler s p1"
    and p2: "toks j p2 = {#}" "about j p2" "failing j p2 = 0" "healthy j p2 = 0" "\<And>s. proc_valid handler s p2"
  shows "server_history codecs comps handler s' (p' # ps @ qs)"
proof -
  obtain wc where wc: "j < length (sv_conns s)" "sc_writeCh (conn_of s j) = Some wc" "\<not> chan_closed wc"
    by (rule live_sender [OF counts p(1)])
  have about: "about j p"
    using p(1) by (auto simp: about_def)
  have "server_history codecs comps handler s' ((p' # ps) @ qs)"
  proof (cases ch)
    case (SGo now)
    then obtain wc' where sent: "try_send wc (x now) = (wc', Sent)"
      and s': "s' = upd_sc (\<lambda>c. c\<lparr>sc_writeCh := Some wc'\<rparr>) j s" "p' = p1" "ps = []"
      using st wc by (auto simp: send_or_done_def try_send_def split: if_splits)
    have "proc_valid handler s' p1"
      using s' wc(1) by (intro proc_valid_mono [OF p1(5)]) (simp_all add: taken_upd)
    moreover have "toks j p + T = answer_tok (x now) + (toks j p1 + T)" for T
      using p(2) p1(1) [of now] by (metis add.assoc)
    ultimately show ?thesis
      using s' wc(1) p(3,4) p1(2-4) history_send [OF _ wc(2) sent x]
      by (intro history_local [OF inv about]) (simp_all add: add.assoc)
  next
    case SDone
    then have s': "s' = upd_sc (drop_answer n) j s" "p' = p2" "ps = []" and cx: "sv_ctxErr s \<noteq> None \<or> sc_cancelled (conn_of s j)"
      using st by (auto simp: send_or_done_def conn_done_def split: if_splits)
    show ?thesis
      using s' wc(1) p p2 cx
      by (intro history_local [OF inv about]) (auto intro!: history_drop)
  qed (use st in \<open>simp_all add: send_or_done_def\<close>)
  then show ?thesis
    by simp
qed

lemma history_writer:
  assumes inv: "server_history codecs comps handler s (p # qs)" and counts: "server_counts s (p # qs)"
    and lib: "no_codec_panic codecs comps (sv_codec s)" and st: "writer_step ch p s = Some (s', p', ps)"
  shows "server_history codecs comps handler s' (p' # ps @ qs)"
proof -
  have one: "total_of (healthy j) qs = 0 \<and> sc_writeCh (conn_of s j) \<noteq> None" if "role_of p = Writer j" for j
  proof -
    have "j < length (sv_conns s)"
      using counts that by (simp add: server_counts_def in_range_def)
    then have "conn_counts j (conn_of s j) (p # qs)"
      using counts by (simp add: server_counts_def)
    then have "total_of (writers j) qs = 0" "sc_writeCh (conn_of s j) \<noteq> None"
      using that by (auto simp: conn_counts_def conn_ok_def writers_def)
    moreover have "total_of (healthy j) qs \<le> total_of (writers j) qs"
      by (rule total_of_mono) (simp add: healthy_def writers_def role_of_def split: srv_proc.splits)
    ultimately show ?thesis
      by simp
  qed
  have "server_history codecs comps handler s' ((p' # ps) @ qs)"
  proof (cases p)
    case (Writing j)
    then have j: "j < length (sv_conns s)" "about j p"
      using counts by (simp_all add: server_counts_def in_range_def about_def)
    obtain wc where wc: "sc_writeCh (conn_of s j) = Some wc"
      using st Writing by (auto simp: writer_step_def bind_eq_Some_conv)
    obtain wc' r where r: "try_recv wc = (wc', r)"
      by fastforce
    show ?thesis
    proof (cases r)
      case (Got x)
      then have s': "s' = upd_sc (\<lambda>c. c\<lparr>sc_writeCh := Some wc'\<rparr>) j s" "p' = WriteOne j x" "ps = []"
        using st Writing wc r by (simp_all add: writer_step_def)
      have "history codecs comps handler (sv_opts s) (sv_codec s) (sv_ctxErr s \<noteq> None) (total_of (toks j) (p # qs))
          (total_of (failing j) (p # qs)) (total_of (healthy j) (p # qs)) (conn_of s j)"
        using inv j unfolding server_history_def by blast
      note recv = history_recv [OF _ wc r [unfolded Got]]
      have "reply_valid handler (sv_opts s) (sc_taken (conn_of s j)) x"
        using recv [OF \<open>history _ _ _ _ _ _ _ _ _ _\<close>] by blast
      then show ?thesis
        using s' j Writing recv
        by (intro history_local [OF inv j(2)])
          (auto simp: about_def proc_valid_def history_weights answer_tok_def split: reply.splits)
    next
      case RecvClosed
      then have s': "s' = upd_sc (\<lambda>c. c\<lparr>sc_writerWg := sc_writerWg c - 1\<rparr>) j s" "p' = WriterGone j" "ps = []"
        using st Writing wc r by (simp_all add: writer_step_def)
      then show ?thesis
        using j Writing
        by (intro history_local [OF inv j(2)]) (auto dest: history_leave simp: about_def proc_valid_def history_weights)
    next
      case RecvEmpty
      then show ?thesis
        using st Writing wc r by (simp add: writer_step_def)
    qed
  next
    case (WriteOne j x)
    then have j: "j < length (sv_conns s)" "about j p"
      using counts by (simp_all add: server_counts_def in_range_def about_def)
    have x: "reply_valid handler (sv_opts s) (sc_taken (conn_of s j)) x"
      using inv WriteOne by (simp add: server_history_def proc_valid_def)
    have T: "toks j p = answer_tok x"
      using WriteOne by (simp add: toks_def answer_tok_def split: reply.splits)
    note one = one [of j, unfolded WriteOne, simplified]
    show ?thesis
    proof (cases "EncodeResponse (sv_codec s) (reply_resp x)")
      case (Ok bs)
      consider now where "ch = SGo now" "s' = upd_sc (\<lambda>c. c\<lparr>sc_out := sc_out c @ bs, sc_written := sc_written c @ [x]\<rparr>) j s"
            "p' = Writing j" "ps = []"
        | k where "s' = upd_sc (\<lambda>c. (case x of Answer n r \<Rightarrow> drop_answer n c | Refusal n r \<Rightarrow> c)\<lparr>sc_out := sc_out c @ take k bs\<rparr>) j s"
            "p' = WriteFail j" "ps = []"
        using st WriteOne Ok by (auto simp: writer_step_def split: srv_choice.splits if_splits)
      then show ?thesis
      proof cases
        case 1
        then show ?thesis
          using j WriteOne T x Ok one history_write [OF _ Ok x]
          by (intro history_local [OF inv j(2)]) (auto simp: about_def proc_valid_def failing_def healthy_def, auto simp: toks_def)
      next
        case 2
        then show ?thesis
          using j WriteOne T one Ok
          by (intro history_local [OF inv j(2)])
            (auto intro!: history_fail [where bs = bs] simp: about_def proc_valid_def failing_def healthy_def, auto simp: toks_def)
      qed
    next
      case (Err e)
      then have "s' = upd_sc (\<lambda>c. case x of Answer n r \<Rightarrow> drop_answer n c | Refusal n r \<Rightarrow> c) j s" "p' = WriteFail j" "ps = []"
        using st WriteOne by (simp_all add: writer_step_def)
      then show ?thesis
        using j WriteOne T one
        by (intro history_local [OF inv j(2)])
          (auto intro!: history_give_up simp: about_def proc_valid_def failing_def healthy_def, auto simp: toks_def)
    next
      case RPanic
      then show ?thesis
        using lib by (simp add: no_codec_panic_def)
    qed
  next
    case (WriteFail j)
    then have j: "j < length (sv_conns s)" "about j p"
      using counts by (simp_all add: server_counts_def in_range_def about_def)
    then show ?thesis
      using st WriteFail
      by (intro history_local [OF inv j(2)]) (auto simp: writer_step_def about_def proc_valid_def history_weights)
  next
    case (WriteCancel j)
    then have j: "j < length (sv_conns s)" "about j p"
      using counts by (simp_all add: server_counts_def in_range_def about_def)
    then show ?thesis
      using st WriteCancel
      by (intro history_local [OF inv j(2)])
        (auto intro: history_cancel simp: writer_step_def about_def proc_valid_def history_weights)
  qed (use st in \<open>simp_all add: writer_step_def\<close>)
  then show ?thesis
    by simp
qed

lemma history_handler:
  assumes inv: "server_history codecs comps handler s (p # qs)" and counts: "server_counts s (p # qs)"
    and st: "handler_step handler ch p s = Some (s', p', ps)"
  shows "server_history codecs comps handler s' (p' # ps @ qs)"
proof (cases p)
  case (Handle j n)
  then obtain now r where "ch = SHandled now r"
    using st by (cases ch) (simp_all add: handler_step_def)
  then have "handler (snd (taken s j n)) r" "s' = s" "p' = HReply j n (answer_to (fst (taken s j n)) now r)" "ps = []"
    using st Handle by (auto simp: handler_step_def split: if_splits)
  moreover have "proc_valid handler s p"
    using inv by (simp add: server_history_def)
  ultimately have "server_history codecs comps handler s' ((p' # ps) @ qs)"
    using Handle
    by (intro history_local [OF inv, where j = j]) (auto simp: about_def proc_valid_def answers_def history_weights)
  then show ?thesis
    by simp
next
  case (HReply j n r)
  then have "proc_valid handler s p"
    using inv by (simp add: server_history_def)
  then show ?thesis
    using st HReply
    by (intro send_or_done_history [OF inv counts, where j = j])
      (auto simp: handler_step_def about_def proc_valid_def history_weights answer_tok_def reply_valid_def taken_def)
next
  case (HRelease j)
  then have "server_history codecs comps handler s' ((p' # ps) @ qs)"
    using st
    by (intro history_local [OF inv, where j = j])
      (auto simp: about_def handler_step_def proc_valid_def history_weights split: option.splits prod.splits recv_result.splits)
  then show ?thesis
    by simp
next
  case (HDone j)
  then have j: "j < length (sv_conns s)"
    using counts by (simp add: server_counts_def in_range_def)
  have "conn_counts j (conn_of s j) (p # qs)"
    using counts j by (simp add: server_counts_def)
  then have "0 < sc_handlersWg (conn_of s j)"
    using HDone by (simp add: conn_counts_def conn_ok_def handlers_def)
  then have "server_history codecs comps handler s' ((p' # ps) @ qs)"
    using st HDone j
    by (intro history_local [OF inv, where j = j]) (auto simp: about_def handler_step_def proc_valid_def history_weights)
  then show ?thesis
    by simp
qed (use st in \<open>simp_all add: handler_step_def\<close>)

lemma read_frame_cases:
  assumes st: "reader_step codecs comps ch (ReadFrame j) s = Some (s', p', ps)"
    and lib: "fst (ReadRequest codecs comps (sc_in (conn_of s j))) \<noteq> RPanic"
  obtains h req r where "ReadRequest codecs comps (sc_in (conn_of s j)) = (Ok (h, req), r)"
      "s' = upd_sc (\<lambda>c. c\<lparr>sc_in := r, sc_taken := sc_taken c @ [(h, req)]\<rparr>) j s"
      "p' = (if too_large (sv_opts s) h then SizeReply else SemCheck) j (length (sc_taken (conn_of s j)))" "ps = []"
  | "s' = s" "p' = WaitHandlers j" "ps = []"
proof (cases ch)
  case SReadErr
  then show ?thesis
    using st that(2) by (simp add: reader_step_def)
next
  case (SGo now)
  obtain x r where x: "ReadRequest codecs comps (sc_in (conn_of s j)) = (x, r)"
    by fastforce
  show ?thesis
  proof (cases x)
    case (Ok t)
    then show ?thesis
      using st SGo x that(1) [of "fst t" "snd t" r] by (cases t) (simp add: reader_step_def split: if_split_asm)
  next
    case (Err e)
    then show ?thesis
      using st SGo x that(2) by (simp add: reader_step_def split: if_split_asm)
  next
    case RPanic
    then show ?thesis
      using lib x by simp
  qed
qed (use st in \<open>simp_all add: reader_step_def\<close>)

lemma history_reader:
  assumes inv: "server_history codecs comps handler s (p # qs)" and counts: "server_counts s (p # qs)"
    and lib: "no_codec_panic codecs comps (sv_codec s)" and st: "reader_step codecs comps ch p s = Some (s', p', ps)"
  shows "server_history codecs comps handler s' (p' # ps @ qs)"
proof -
  have valid: "proc_valid handler s p"
    using inv by (simp add: server_history_def)
  note local = history_local [OF inv, where ps = "p' # ps", simplified append_Cons]
  show ?thesis
  proof (cases p)
    case (Setup j)
    then have j: "j < length (sv_conns s)"
      using counts by (simp add: server_counts_def in_range_def)
    have "conn_counts j (conn_of s j) (p # qs)"
      using counts j by (simp add: server_counts_def)
    then have "sc_writeCh (conn_of s j) = None"
      using Setup by (cases "sc_writeCh (conn_of s j)") (simp_all add: conn_counts_def conn_ok_def at_stage_def)
    then have "history codecs comps handler opts pc ctx T F G (conn_of s j) \<Longrightarrow>
        history codecs comps handler opts pc ctx T F (Suc G) ((conn_of s j)\<lparr>sc_writeCh := Some (make_chan 64)\<rparr>)"
      for opts pc ctx T F G
      by (auto simp: history_def queued_def make_chan_def on_wire_def)
    then show ?thesis
      using st Setup j
      by (intro local) (auto simp: about_def reader_step_def proc_valid_def history_weights split: srv_choice.splits option.splits)
  next
    case (ReadTop j)
    then show ?thesis
      using st by (intro local) (auto simp: about_def reader_step_def proc_valid_def history_weights)
  next
    case (ReadFrame j)
    then have j: "j < length (sv_conns s)"
      using counts by (simp add: server_counts_def in_range_def)
    have "fst (ReadRequest codecs comps (sc_in (conn_of s j))) \<noteq> RPanic"
      using lib by (simp add: no_codec_panic_def)
    then consider h req r where "ReadRequest codecs comps (sc_in (conn_of s j)) = (Ok (h, req), r)" 
          "s' = upd_sc (\<lambda>c. c\<lparr>sc_in := r, sc_taken := sc_taken c @ [(h, req)]\<rparr>) j s"
          "p' = (if too_large (sv_opts s) h then SizeReply else SemCheck) j (length (sc_taken (conn_of s j)))" "ps = []"
      | "s' = s" "p' = WaitHandlers j" "ps = []"
      by (rule read_frame_cases [OF st [unfolded ReadFrame]])
    then show ?thesis
    proof cases
      case 1
      then show ?thesis
        using ReadFrame j history_take [OF _ 1(1)]
        by (intro local [where j = j]) (auto simp: about_def proc_valid_def history_weights taken_def)
    next
      case 2
      then show ?thesis
        using ReadFrame by (intro local [where j = j]) (auto simp: about_def proc_valid_def history_weights)
    qed
  next
    case (SizeReply j n)
    then show ?thesis
      using st valid
      by (intro send_or_done_history [OF inv counts, where j = j])
        (auto simp: reader_step_def about_def proc_valid_def history_weights answer_tok_def refusal_def reply_valid_def taken_def)
  next
    case (SemCheck j n)
    then show ?thesis
      using st valid inv
      by (intro local [where j = j]) (auto simp: about_def reader_step_def proc_valid_def history_weights server_history_def
          split: option.splits prod.splits send_result.splits)
  next
    case (SemReply j n)
    then show ?thesis
      using st valid
      by (intro send_or_done_history [OF inv counts, where j = j])
        (auto simp: reader_step_def about_def proc_valid_def history_weights answer_tok_def refusal_def reply_valid_def taken_def)
  next
    case (Spawn j n)
    then have "j < length (sv_conns s)"
      using counts by (simp add: server_counts_def in_range_def)
    then show ?thesis
      using st valid Spawn by (intro local [where j = j]) (auto simp: about_def reader_step_def proc_valid_def history_weights)
  next
    case (WaitHandlers j)
    obtain wc where wc: "j < length (sv_conns s)" "sc_writeCh (conn_of s j) = Some wc" "\<not> chan_closed wc"
      using live_sender [OF counts, of j] WaitHandlers by auto
    then have "history codecs comps handler opts pc ctx T F G (conn_of s j) \<Longrightarrow>
        history codecs comps handler opts pc ctx T F G ((conn_of s j)\<lparr>sc_writeCh := Some (wc\<lparr>chan_closed := True\<rparr>)\<rparr>)" for opts pc ctx T F G
      by (simp add: history_def queued_def)
    then show ?thesis
      using st WaitHandlers wc
      by (intro local [where j = j]) (auto simp: about_def reader_step_def close_chan_def proc_valid_def history_weights split: if_splits)
  next
    case (WaitWriter j)
    then show ?thesis
      using st by (intro local [where j = j]) (auto simp: about_def reader_step_def proc_valid_def history_weights split: if_splits)
  qed (use st in \<open>simp_all add: reader_step_def\<close>)
qed

lemma history_CloseConnection:
  assumes inv: "server_history codecs comps handler s (p # qs)" and counts: "server_counts s (p # qs)"
    and st: "CloseConnection p s = Some (s', p', ps)"
  shows "server_history codecs comps handler s' (p' # ps @ qs)"
proof -
  note local = history_local [OF inv, where ps = "p' # ps", simplified append_Cons]
  have range: "in_range (length (sv_conns s)) p"
    using counts by (simp add: server_counts_def)
  show ?thesis
  proof (cases p)
    case (ConnClose j)
    then show ?thesis
      using st range
      by (intro local [where j = j]) (auto simp: about_def CloseConnection_def proc_valid_def history_weights in_range_def)
  next
    case (ConnCount j)
    then show ?thesis
      using st by (intro local [where j = j]) (auto simp: about_def CloseConnection_def proc_valid_def history_weights)
  next
    case (ConnSem j)
    then show ?thesis
      using st
      by (intro local [where j = j]) (auto simp: about_def CloseConnection_def proc_valid_def history_weights
          split: option.splits prod.splits recv_result.splits)
  next
    case (ConnWg j)
    then have "0 < sv_wg s"
      using counts by (simp add: server_counts_def staged_def)
    then show ?thesis
      using st ConnWg range
      by (intro local [where j = j])
        (auto intro: history_cancel simp: about_def CloseConnection_def proc_valid_def history_weights in_range_def)
  qed (use st in \<open>simp_all add: CloseConnection_def\<close>)
qed

lemma history_outside:
  assumes inv: "server_history codecs comps handler s (p # qs)" and out: "role_of p = Outside" "\<forall>q \<in> set ps. role_of q = Outside"
    and same: "sv_conns s' = sv_conns s" "sv_opts s' = sv_opts s" "sv_codec s' = sv_codec s" "sv_reqSemaphore s' = sv_reqSemaphore s"
      "sv_ctxErr s \<noteq> None \<Longrightarrow> sv_ctxErr s' \<noteq> None"
  shows "server_history codecs comps handler s' (ps @ qs)"
proof -
  have conns: "conn_of s' i = conn_of s i" for i
    using same by (simp add: conn_of_def)
  have "toks i q = {#} \<and> failing i q = 0 \<and> healthy i q = 0 \<and> proc_valid handler s' q" if "role_of q = Outside" for i q
    using that by (cases q) (simp_all add: history_weights proc_valid_def)
  then have z: "total_of (toks i) (p # qs) = total_of (toks i) (ps @ qs)" "total_of (failing i) (p # qs) = total_of (failing i) (ps @ qs)"
    "total_of (healthy i) (p # qs) = total_of (healthy i) (ps @ qs)" and valid: "\<forall>q \<in> set ps. proc_valid handler s' q" for i
    using out total_of_0 [of ps "toks i"] total_of_0 [of ps "failing i"] total_of_0 [of ps "healthy i"] by auto
  have "proc_valid handler s' q" if "q \<in> set qs" for q
    using inv that by (intro proc_valid_mono [OF _ same(2)]) (simp_all add: server_history_def conns)
  moreover have "history codecs comps handler (sv_opts s') (sv_codec s') (sv_ctxErr s' \<noteq> None) T F G c"
    if "history codecs comps handler (sv_opts s) (sv_codec s) (sv_ctxErr s \<noteq> None) T F G c" for T F G c
    using that same(5) unfolding history_def same(2,3) by blast
  ultimately show ?thesis
    using inv valid unfolding server_history_def z same(1,2,4) conns by (auto simp: same(2))
qed

lemma history_admit:
  assumes inv: "server_history codecs comps handler s (Accept # qs)" and counts: "server_counts s (Accept # qs)"
    and s1: "sv_conns s1 = sv_conns s" "sv_opts s1 = sv_opts s" "sv_codec s1 = sv_codec s" "sv_reqSemaphore s1 = sv_reqSemaphore s"
      "sv_ctxErr s1 = sv_ctxErr s"
  shows "server_history codecs comps handler (admit_conn input s1) (Accept # [Setup (length (sv_conns s))] @ qs)"
proof -
  let ?n = "length (sv_conns s)" and ?s' = "admit_conn input s1"
  have conns: "sv_conns ?s' = sv_conns s @ [new_conn input]"
    using s1 by (simp add: admit_conn_def)
  have range: "in_range ?n q" if "q \<in> set qs" for q
    using counts that by (simp add: server_counts_def)
  have old: "conn_of ?s' i = conn_of s i" if "i < ?n" for i
    using that by (simp add: conns conn_of_def nth_append)
  have "about ?n q \<Longrightarrow> role_of q = Outside" if "q \<in> set qs" for q
    using range [OF that] by (auto simp: about_def in_range_def split: role.splits)
  then have "toks ?n q = {#} \<and> failing ?n q = 0 \<and> healthy ?n q = 0" if "q \<in> set qs" for q
    using range [OF that] by (cases q) (auto simp: history_weights in_range_def split: reply.splits)
  then have "history codecs comps handler (sv_opts ?s') (sv_codec ?s') (sv_ctxErr ?s' \<noteq> None) (total_of (toks ?n) qs)
      (total_of (failing ?n) qs) (total_of (healthy ?n) qs) (conn_of ?s' ?n)"
    using total_of_0 [of qs "toks ?n"] total_of_0 [of qs "failing ?n"] total_of_0 [of qs "healthy ?n"]
    by (simp add: history_def conns conn_of_def new_conn_def queued_def on_wire_def)
  moreover have "proc_valid handler ?s' q" if "q \<in> set qs" for q
  proof -
    have "proc_valid handler s q"
      using inv that by (simp add: server_history_def)
    then show ?thesis
      using range [OF that] old s1 by (cases q) (auto simp: proc_valid_def in_range_def taken_def admit_conn_def)
  qed
  ultimately show ?thesis
    using inv old s1 by (auto simp: server_history_def conns history_weights proc_valid_def less_Suc_eq admit_conn_def)
qed

lemma history_step:
  assumes inv: "server_history codecs comps handler s (p # qs)" and counts: "server_counts s (p # qs)"
    and lib: "no_codec_panic codecs comps (sv_codec s)" and st: "srv_step1 codecs comps handler ch p s = Some (s', p', ps)"
  shows "server_history codecs comps handler s' (p' # ps @ qs)"
proof (cases "role_of p = Outside")
  case True
  from st True show ?thesis
  proof (cases rule: outside_step)
    case (admit input s1)
    then show ?thesis
      using history_admit [of codecs comps handler s qs s1] inv counts by auto
  next
    case other
    then show ?thesis
      using history_outside [OF inv True, of "p' # ps" s'] by (simp add: outside_same_def)
  qed
next
  case False
  then show ?thesis
    using st history_writer [OF inv counts lib] history_handler [OF inv counts] history_reader [OF inv counts lib]
      history_CloseConnection [OF inv counts]
    by (cases p) (simp_all add: srv_step1_def)
qed

definition kept :: "('m, 'v) tcp_Server \<Rightarrow> ('m, 'v) tcp_Server \<Rightarrow> bool" where
  "kept s s' \<longleftrightarrow> sv_codec s' = sv_codec s \<and> sv_opts s' = sv_opts s"

lemma kept_simps [simp]: "kept s s" "kept s (upd_sc f j s)" "kept s (s\<lparr>sv_reqSemaphore := x\<rparr>)" "kept s (s\<lparr>sv_connSemaphore := x\<rparr>)"
  "kept s (s\<lparr>sv_activeConnections := n\<rparr>)" "kept s (upd_sc f j (s\<lparr>sv_wg := n\<rparr>))"
  by (simp_all add: kept_def)

lemma send_or_done_kept: "send_or_done ch i n x p q s = Some (s', p', ps) \<Longrightarrow> kept s s'"
  by (cases ch) (auto simp: send_or_done_def bind_eq_Some_conv try_send_def split: if_splits)

lemma reader_kept: "reader_step codecs comps ch p s = Some (s', p', ps) \<Longrightarrow> kept s s'"
proof (cases p)
  case (Setup j)
  then show "reader_step codecs comps ch p s = Some (s', p', ps) \<Longrightarrow> kept s s'"
    by (cases ch) (auto simp: reader_step_def split: option.splits)
next
  case (ReadFrame j)
  then show "reader_step codecs comps ch p s = Some (s', p', ps) \<Longrightarrow> kept s s'"
    by (cases ch; cases "ReadRequest codecs comps (sc_in (conn_of s j))"; cases "fst (ReadRequest codecs comps (sc_in (conn_of s j)))")
      (auto simp: reader_step_def split: if_splits)
next
  case (SemCheck j n)
  then show "reader_step codecs comps ch p s = Some (s', p', ps) \<Longrightarrow> kept s s'"
    by (auto simp: reader_step_def try_send_def split: option.splits if_splits)
next
  case (WaitHandlers j)
  then show "reader_step codecs comps ch p s = Some (s', p', ps) \<Longrightarrow> kept s s'"
    by (auto simp: reader_step_def split: option.splits if_splits)
qed (auto simp: reader_step_def split: if_splits dest: send_or_done_kept)

lemma writer_kept: "writer_step ch p s = Some (s', p', ps) \<Longrightarrow> kept s s'"
proof (cases p)
  case (Writing j)
  then show "writer_step ch p s = Some (s', p', ps) \<Longrightarrow> kept s s'"
    by (cases "sc_writeCh (conn_of s j)"; cases "chan_buf (the (sc_writeCh (conn_of s j)))")
      (auto simp: writer_step_def try_recv_def split: if_splits)
next
  case (WriteOne j x)
  then show "writer_step ch p s = Some (s', p', ps) \<Longrightarrow> kept s s'"
    by (cases "EncodeResponse (sv_codec s) (reply_resp x)"; cases ch) (auto simp: writer_step_def split: if_splits)
qed (auto simp: writer_step_def)

lemma handler_kept: "handler_step handler ch p s = Some (s', p', ps) \<Longrightarrow> kept s s'"
proof (cases p)
  case (Handle j n)
  then show "handler_step handler ch p s = Some (s', p', ps) \<Longrightarrow> kept s s'"
    by (cases ch) (auto simp: handler_step_def split: if_splits)
next
  case (HRelease j)
  then show "handler_step handler ch p s = Some (s', p', ps) \<Longrightarrow> kept s s'"
    by (cases "sv_reqSemaphore s"; cases "chan_buf (the (sv_reqSemaphore s))")
      (auto simp: handler_step_def try_recv_def split: if_splits)
qed (auto simp: handler_step_def split: if_splits dest: send_or_done_kept)

lemma CloseConnection_kept: "CloseConnection p s = Some (s', p', ps) \<Longrightarrow> kept s s'"
proof (cases p)
  case (ConnSem j)
  then show "CloseConnection p s = Some (s', p', ps) \<Longrightarrow> kept s s'"
    by (cases "sv_connSemaphore s"; cases "chan_buf (the (sv_connSemaphore s))")
      (auto simp: CloseConnection_def try_recv_def split: if_splits)
qed (auto simp: CloseConnection_def split: if_splits)

lemma codec_kept:
  assumes "srv_step1 codecs comps handler ch p s = Some (s', p', ps)"
  shows "kept s s'"
proof (cases "role_of p = Outside")
  case True
  with assms show ?thesis
    by (cases rule: outside_step) (auto simp: kept_def admit_conn_def outside_same_def)
next
  case False
  then show ?thesis
    using assms by (cases p) (auto simp: srv_step1_def dest: reader_kept writer_kept handler_kept CloseConnection_kept)
qed

section \<open>The invariant\<close>

definition srv_inv ::
    "('m, 'v) Codec registry \<Rightarrow> Compressor registry \<Rightarrow> (('m, 'v) Request \<Rightarrow> ('m, 'v) Response or_error \<Rightarrow> bool)
     \<Rightarrow> ServerOptions \<Rightarrow> ('m, 'v) srv_sys \<Rightarrow> bool" where
  "srv_inv codecs comps handler opts y \<longleftrightarrow> no_codec_panic codecs comps (sv_codec (sy_server y)) \<and> sv_opts (sy_server y) = opts
     \<and> server_counts (sy_server y) (sy_procs y) \<and> server_history codecs comps handler (sy_server y) (sy_procs y)"

lemma res_panic_simps:
  "res_bind r f = RPanic \<longleftrightarrow> r = RPanic \<or> (\<exists>x. r = Ok x \<and> f x = RPanic)" "ctx_err m e \<noteq> RPanic" "ctx_res m r = RPanic \<longleftrightarrow> r = RPanic"
  by (cases r; simp add: ctx_res_def) (simp_all add: ctx_err_def ctx_res_def split: sum.splits result.splits)

lemma builtin_no_panic:
  assumes "init_codecs lib = Some codecs" and "init_compressors lib = Some comps"
  shows "no_codec_panic codecs comps (NewProtocolCodec codecs comps ct zt)"
proof -
  have c: "codec_GetOrDefault t codecs \<noteq> None" for t
    using builtin_codec [OF assms(1), of t] by auto
  have z: "GetCompressorOrNone t comps \<noteq> None" "getCompressorByType t comps \<noteq> None" for t
    using assms(2) unfolding same_compressor init_compressors_eq by (auto simp: GetCompressorOrNone_def GetCompressor_def)
  have basic: "deref (codec_GetOrDefault t codecs) \<noteq> RPanic" "deref (GetCompressorOrNone t comps) \<noteq> RPanic"
    "deref (getCompressorByType t comps) \<noteq> RPanic" for t
    using c z [of t] by (auto simp: deref_def split: option.splits)
  have "fst (DecodeFromReader comps r) \<noteq> RPanic" for r
    using basic by (auto simp: DecodeFromReader_def res_panic_simps split: prod.splits sum.splits option.splits)
  then have "fst (ReadRequest codecs comps r) \<noteq> RPanic" for r
    using basic by (auto simp: ReadRequest_def DecodeRequestWith_def res_panic_simps split: prod.splits) (metis fst_conv)+
  moreover have "EncodeResponse (NewProtocolCodec codecs comps ct zt) resp \<noteq> RPanic" for resp
    using basic by (auto simp: EncodeResponse_def NewProtocolCodec_def res_panic_simps)
  ultimately show ?thesis
    by (simp add: no_codec_panic_def)
qed

lemma srv_inv_step:
  assumes "srv_stp codecs comps handler y z" and inv: "srv_inv codecs comps handler opts y"
  shows "srv_inv codecs comps handler opts z"
proof -
  obtain g ch s' p' ps where g: "g < length (sy_procs y)"
    and st: "srv_step1 codecs comps handler ch (sy_procs y ! g) (sy_server y) = Some (s', p', ps)"
    and z: "z = \<lparr>sy_server = s', sy_procs = (sy_procs y)[g := p'] @ ps\<rparr>"
    using assms(1) by (auto simp: srv_stp_def srv_exec_def split: if_splits)
  define qs where "qs = take g (sy_procs y) @ drop (Suc g) (sy_procs y)"
  have before: "mset (sy_procs y) = mset (sy_procs y ! g # qs)"
    using g by (metis (no_types) qs_def append_take_drop_id Cons_nth_drop_Suc mset_append mset.simps(2) union_mset_add_mset_right)
  have after: "mset ((sy_procs y)[g := p'] @ ps) = mset (p' # ps @ qs)"
    using g by (simp add: upd_conv_take_nth_drop qs_def)
  have "server_counts (sy_server y) (sy_procs y ! g # qs)" "server_history codecs comps handler (sy_server y) (sy_procs y ! g # qs)"
    and lib: "no_codec_panic codecs comps (sv_codec (sy_server y))"
    using inv server_counts_perm [OF before] server_history_perm [OF before] by (simp_all add: srv_inv_def)
  then have "server_counts s' (p' # ps @ qs)" "server_history codecs comps handler s' (p' # ps @ qs)"
    using counts_step [OF _ lib st] history_step [OF _ _ lib st] by blast+
  then show ?thesis
    using inv codec_kept [OF st] server_counts_perm [OF after] server_history_perm [OF after]
    by (simp add: z srv_inv_def kept_def del: mset.simps mset_append)
qed

interpretation srv: invariant_system "srv_init lib codecs comps options" "srv_stp codecs comps handler"
  "srv_inv codecs comps handler (apply_options options DefaultServerOptions)"
  for lib :: "('m, 'v) lib" and codecs comps options handler
proof
  fix y :: "('m, 'v) srv_sys"
  assume init: "srv_init lib codecs comps options y"
  then obtain ct zt where s: "sy_server y = tcp_NewServer codecs comps ct zt options" and lib: "init_codecs lib = Some codecs"
    "init_compressors lib = Some comps" and idle: "set (sy_procs y) \<subseteq> {SIdle}"
    by (auto simp: srv_init_def)
  have none: "total_of (staged k) (sy_procs y) = 0" for k
    using idle by (intro total_of_0) (auto simp: staged_def)
  have "no_codec_panic codecs comps (sv_codec (sy_server y))"
    using builtin_no_panic [OF lib] by (simp add: s tcp_NewServer_def Let_def)
  moreover have "server_counts (sy_server y) (sy_procs y)"
    using idle none by (auto simp: server_counts_def s tcp_NewServer_def Let_def in_range_def make_chan_def chan_wf_def)
  moreover have "server_history codecs comps handler (sy_server y) (sy_procs y)"
    using idle by (auto simp: server_history_def s tcp_NewServer_def Let_def proc_valid_def)
  ultimately show "srv_inv codecs comps handler (apply_options options DefaultServerOptions) y"
    by (simp add: srv_inv_def s tcp_NewServer_def Let_def)
qed (rule srv_inv_step)

section \<open>Properties of the server\<close>

lemma server_reachD:
  assumes "reach (srv_init lib codecs comps options) (srv_stp codecs comps handler) y"
  shows "no_codec_panic codecs comps (sv_codec (sy_server y))" "sv_opts (sy_server y) = apply_options options DefaultServerOptions"
    "server_counts (sy_server y) (sy_procs y)" "server_history codecs comps handler (sy_server y) (sy_procs y)"
  using srv.reach_inv [OF assms] by (simp_all add: srv_inv_def)

lemma toks_role: "toks i p \<noteq> {#} \<Longrightarrow> 0 < at_stage {1} i p + handlers i p + writers i p"
  by (cases p) (auto simp: toks_def role_weights split: reply.splits if_splits)

lemma failing_writers: "total_of (failing i) ps \<le> total_of (writers i) ps"
  by (rule total_of_mono) (simp add: failing_def writers_def role_of_def split: srv_proc.splits)

lemma total_pos: "p \<in> set ps \<Longrightarrow> f p \<le> (total_of f ps :: nat)"
  by (induction ps) auto

lemma total_posD: "0 < (total_of f ps :: nat) \<Longrightarrow> \<exists>p \<in> set ps. 0 < f p"
  by (induction ps) auto

lemma has_reader: "conn_counts i c ps \<Longrightarrow> \<exists>q \<in> set ps. 0 < at_stage UNIV i q"
  by (rule total_posD) (simp add: conn_counts_def conn_ok_def)

lemma has_writer: "total_of (writers i) ps \<noteq> 0 \<Longrightarrow> \<exists>w \<in> set ps. role_of w = Writer i"
proof (rule ccontr)
  assume "total_of (writers i) ps \<noteq> 0" and none: "\<not> (\<exists>w \<in> set ps. role_of w = Writer i)"
  moreover have "total_of (writers i) ps = 0"
    using none by (intro total_of_0) (auto simp: writers_def split: role.splits)
  ultimately show False
    by simp
qed

lemma has_handler: "total_of (handlers i) ps \<noteq> 0 \<Longrightarrow> \<exists>p \<in> set ps. role_of p = Handler i"
proof (rule ccontr)
  assume "total_of (handlers i) ps \<noteq> 0" and none: "\<not> (\<exists>p \<in> set ps. role_of p = Handler i)"
  moreover have "total_of (handlers i) ps = 0"
    using none by (intro total_of_0) (auto simp: handlers_def split: role.splits)
  ultimately show False
    by simp
qed

text \<open>When the reader is past its loop, no goroutine of the connection has a request left.\<close>

lemma nothing_pending:
  assumes "conn_counts i c ps" and "0 < total_of (at_stage not_writing i) ps"
  shows "total_of (writers i) ps = 0" "total_of (handlers i) ps = 0" "total_of (toks i) ps = {#}"
proof -
  have "total_of (at_stage not_writing i) ps + total_of (at_stage {1} i) ps \<le> total_of (at_stage UNIV i) ps"
    by (induction ps) (auto simp: at_stage_def split: role.splits)
  then have 0: "total_of (at_stage {1} i) ps = 0" "total_of (writers i) ps = 0"
    using assms by (auto simp: conn_counts_def conn_ok_def)
  then have "total_of (handlers i) ps = 0"
    using assms(1) by (cases "live c") (auto simp: conn_counts_def conn_ok_def)
  moreover have "toks i p = {#}" if "p \<in> set ps" for p
    using toks_role [of i p] total_pos [OF that, of "at_stage {1} i"] total_pos [OF that, of "writers i"] total_pos [OF that, of "handlers i"]
      0 calculation by (cases "toks i p = {#}") auto
  ultimately show "total_of (writers i) ps = 0" "total_of (handlers i) ps = 0" "total_of (toks i) ps = {#}"
    using 0 by (auto intro: total_of_0)
qed



text \<open>Some goroutine of connection \<open>i\<close> can go on.\<close>

definition can_step ::
    "('m, 'v) Codec registry \<Rightarrow> Compressor registry \<Rightarrow> (('m, 'v) Request \<Rightarrow> ('m, 'v) Response or_error \<Rightarrow> bool)
     \<Rightarrow> ('m, 'v) srv_sys \<Rightarrow> nat \<Rightarrow> bool" where
  "can_step codecs comps handler y i \<longleftrightarrow>
     (\<exists>p \<in> set (sy_procs y). \<exists>ch. role_of p \<noteq> Outside \<and> about i p \<and> srv_step1 codecs comps handler ch p (sy_server y) \<noteq> None)"

lemma can_stepI:
  assumes "p \<in> set (sy_procs y)" "role_of p \<noteq> Outside" "about i p" "\<exists>ch. srv_step1 codecs comps handler ch p (sy_server y) \<noteq> None"
  shows "can_step codecs comps handler y i"
  using assms unfolding can_step_def by blast

lemma writer_can_step:
  assumes w: "w \<in> set (sy_procs y)" "role_of w = Writer i" and wc: "sc_writeCh (conn_of (sy_server y) i) = Some wc"
    and work: "chan_buf wc \<noteq> [] \<or> chan_closed wc"
  shows "can_step codecs comps handler y i"
proof -
  have "\<exists>ch. srv_step1 codecs comps handler ch w (sy_server y) \<noteq> None"
  proof (cases w)
    case (Writing j)
    then show ?thesis
      using w(2) wc work by (auto simp: srv_step1_def writer_step_def try_recv_def split: list.splits)
  next
    case (WriteOne j x)
    then show ?thesis
      by (cases "EncodeResponse (sv_codec (sy_server y)) (reply_resp x)")
        (auto simp: srv_step1_def writer_step_def intro: exI [of _ "SWriteErr 0 e" for e])
  next
    case (WriteFail j)
    then show ?thesis
      by (simp add: srv_step1_def writer_step_def)
  next
    case (WriteCancel j)
    then show ?thesis
      by (simp add: srv_step1_def writer_step_def)
  qed (use w(2) in simp_all)
  then show ?thesis
    by (intro can_stepI [OF w(1)]) (simp_all add: w(2) about_def)
qed

text \<open>A goroutine at a send can go on, or the writer can.\<close>

lemma send_can_step:
  assumes counts: "server_counts (sy_server y) (sy_procs y)" and p: "p \<in> set (sy_procs y)" "role_of p = Reader i 1 \<or> role_of p = Handler i"
    and step: "\<And>ch. srv_step1 codecs comps handler ch p (sy_server y) = send_or_done ch i n x p1 p2 (sy_server y)"
  shows "can_step codecs comps handler y i"
proof -
  let ?s = "sy_server y"
  obtain qs where qs: "mset (sy_procs y) = mset (p # qs)"
    using p(1) by (metis ex_mset mset.simps(2) mset_add set_mset_mset)
  obtain wc where wc: "i < length (sv_conns ?s)" "sc_writeCh (conn_of ?s i) = Some wc" "\<not> chan_closed wc"
    using live_sender [OF _ p(2)] counts server_counts_perm [OF qs] by blast
  show ?thesis
  proof (cases "length (chan_buf wc) < chan_cap wc \<or> conn_done ?s i")
    case True
    then have "\<exists>ch. srv_step1 codecs comps handler ch p ?s \<noteq> None"
      unfolding step
    proof
      assume "length (chan_buf wc) < chan_cap wc"
      then have "send_or_done (SGo 0) i n x p1 p2 ?s \<noteq> None"
        using wc by (simp add: send_or_done_def try_send_def)
      then show "\<exists>ch. send_or_done ch i n x p1 p2 ?s \<noteq> None"
        by blast
    next
      assume "conn_done ?s i"
      then have "send_or_done SDone i n x p1 p2 ?s \<noteq> None"
        by (simp add: send_or_done_def)
      then show "\<exists>ch. send_or_done ch i n x p1 p2 ?s \<noteq> None"
        by blast
    qed
    then show ?thesis
      using p(2) by (intro can_stepI [OF p(1)]) (auto simp: about_def)
  next
    case False
    have c: "conn_counts i (conn_of ?s i) (sy_procs y)"
      using counts wc(1) by (simp add: server_counts_def)
    then have "chan_cap wc = 64" "total_of (writers i) (sy_procs y) \<noteq> 0"
      using wc False by (auto simp: conn_counts_def conn_ok_def conn_done_def)
    then obtain w where "w \<in> set (sy_procs y)" "role_of w = Writer i"
      using has_writer by blast
    then show ?thesis
      using wc False \<open>chan_cap wc = 64\<close> by (intro writer_can_step) auto
  qed
qed

lemma handler_can_step:
  assumes counts: "server_counts (sy_server y) (sy_procs y)" and p: "p \<in> set (sy_procs y)" "role_of p = Handler i"
    and total: "\<forall>req. \<exists>r. handler req r" and nosem: "sv_reqSemaphore (sy_server y) = None"
  shows "can_step codecs comps handler y i"
proof (cases p)
  case (Handle j n)
  then obtain r where "handler (snd (taken (sy_server y) j n)) r"
    using total by blast
  then have "srv_step1 codecs comps handler (SHandled 0 r) p (sy_server y) \<noteq> None"
    using Handle by (simp add: srv_step1_def handler_step_def)
  then show ?thesis
    using p by (intro can_stepI [OF p(1)]) (auto simp: about_def)
next
  case (HReply j n r)
  then show ?thesis
    using p by (intro send_can_step [OF counts p(1)]) (auto simp: srv_step1_def handler_step_def)
next
  case (HRelease j)
  then show ?thesis
    using p nosem by (intro can_stepI [OF p(1)]) (auto simp: about_def srv_step1_def handler_step_def)
next
  case (HDone j)
  then show ?thesis
    using p by (intro can_stepI [OF p(1)]) (auto simp: about_def srv_step1_def handler_step_def)
qed (use p(2) in simp_all)

text \<open>The reader of a connection can go on, or one of those it waits for.\<close>

lemma reader_can_step:
  assumes counts: "server_counts (sy_server y) (sy_procs y)" and q: "q \<in> set (sy_procs y)" "role_of q = Reader i k" "q \<noteq> ConnGone i"
    and total: "\<forall>req. \<exists>r. handler req r" and nosem: "sv_reqSemaphore (sy_server y) = None"
  shows "can_step codecs comps handler y i"
proof -
  let ?s = "sy_server y"
  have "i < length (sv_conns ?s)"
    using counts q by (auto simp: server_counts_def in_range_def)
  then have c: "conn_counts i (conn_of ?s i) (sy_procs y)"
    using counts by (simp add: server_counts_def)
  have can: "can_step codecs comps handler y i" if "srv_step1 codecs comps handler ch q ?s \<noteq> None" for ch
    using that q(2) by (intro can_stepI [OF q(1)]) (auto simp: about_def)
  show ?thesis
  proof (cases q)
    case (Setup j)
    let ?k = "\<lparr>sk_isTCP = False, sk_SetKeepAlive = None, sk_SetKeepAlivePeriod = None, sk_SetNoDelay = None,
       sk_SetReadBuffer = None, sk_SetWriteBuffer = None\<rparr>"
    show ?thesis
      using Setup by (intro can [of "SSock ?k"]) (simp add: srv_step1_def reader_step_def setup_conn_def)
  next
    case (ReadFrame j)
    then show ?thesis
      by (intro can [of SReadErr]) (simp add: srv_step1_def reader_step_def)
  next
    case (SizeReply j n)
    then show ?thesis
      using q by (intro send_can_step [OF counts q(1)]) (auto simp: srv_step1_def reader_step_def)
  next
    case (SemReply j n)
    then show ?thesis
      using q by (intro send_can_step [OF counts q(1)]) (auto simp: srv_step1_def reader_step_def)
  next
    case (SemCheck j n)
    then show ?thesis
      using nosem by (intro can) (simp add: srv_step1_def reader_step_def)
  next
    case (WaitHandlers j)
    then have j: "j = i"
      using q(2) by simp
    show ?thesis
    proof (cases "total_of (handlers i) (sy_procs y) = 0")
      case True
      then have "sc_handlersWg (conn_of ?s i) = 0"
        using c by (simp add: conn_counts_def conn_ok_def)
      then show ?thesis
        using WaitHandlers j by (intro can) (simp add: srv_step1_def reader_step_def split: option.splits)
    next
      case False
      then obtain p where "p \<in> set (sy_procs y)" "role_of p = Handler i"
        using has_handler by blast
      then show ?thesis
        by (rule handler_can_step [OF counts _ _ total nosem])
    qed
  next
    case (WaitWriter j)
    then have j: "j = i" "0 < at_stage {2} i q"
      using q(2) by (simp_all add: at_stage_def)
    show ?thesis
    proof (cases "total_of (writers i) (sy_procs y) = 0")
      case True
      then have "sc_writerWg (conn_of ?s i) = 0"
        using c by (simp add: conn_counts_def conn_ok_def)
      then show ?thesis
        using WaitWriter j by (intro can) (simp add: srv_step1_def reader_step_def)
    next
      case False
      then obtain w where w: "w \<in> set (sy_procs y)" "role_of w = Writer i"
        using has_writer by blast
      have "total_of (at_stage {2} i) ps + total_of (at_stage {1} i) ps \<le> total_of (at_stage UNIV i) ps" for ps :: "('a, 'b) srv_proc list"
        by (induction ps) (auto simp: at_stage_def split: role.splits)
      from this [of "sy_procs y"] have "total_of (at_stage {1} i) (sy_procs y) = 0"
        using total_pos [OF q(1), of "at_stage {2} i"] j(2) c unfolding conn_counts_def conn_ok_def by linarith
      then obtain wc where "sc_writeCh (conn_of ?s i) = Some wc" "chan_closed wc"
        using c False by (cases "sc_writeCh (conn_of ?s i)") (auto simp: conn_counts_def conn_ok_def live_def)
      then show ?thesis
        using writer_can_step [OF w] by blast
    qed
  next
    case (ConnSem j)
    have "0 < total_of (staged 5) (sy_procs y)"
      using total_pos [OF q(1), of "staged 5"] ConnSem by (simp add: staged_def)
    then show ?thesis
      using ConnSem counts
      by (intro can) (auto simp: srv_step1_def CloseConnection_def server_counts_def try_recv_def split: option.splits list.splits)
  qed (use q(2,3) can in \<open>simp_all add: srv_step1_def reader_step_def CloseConnection_def\<close>)
qed

text \<open>
  (C6) The server does not deadlock when the number of concurrent requests is not limited, which is the
  default, and its handlers return: as long as a connection has a goroutine that has not returned, one of
  its goroutines can go on. With the previous property, \<open>Close\<close> is waiting for something that happens.
\<close>

theorem server_progress:
  assumes reach: "reach (srv_init lib codecs comps options) (srv_stp codecs comps handler) y"
    and nolimit: "tso_MaxConcurrentRequests (apply_options options DefaultServerOptions) \<le> 0" and total: "\<forall>req. \<exists>r. handler req r"
    and p: "p \<in> set (sy_procs y)" "role_of p \<noteq> Outside" "about i p" "p \<noteq> ConnGone i"
  shows "can_step codecs comps handler y i"
proof -
  note inv = server_reachD [OF reach]
  have nosem: "sv_reqSemaphore (sy_server y) = None"
    using inv(2,4) nolimit by (auto simp: server_history_def)
  have "i < length (sv_conns (sy_server y))"
    using inv(3) p by (auto simp: server_counts_def in_range_def about_def split: role.splits)
  then have c: "conn_counts i (conn_of (sy_server y) i) (sy_procs y)"
    using inv(3) by (simp add: server_counts_def)
  show ?thesis
  proof (cases "\<exists>k. role_of p = Reader i k")
    case True
    then show ?thesis
      using reader_can_step [OF inv(3) p(1) _ p(4) total nosem] by blast
  next
    case False
    then have role: "role_of p = Writer i \<or> role_of p = Handler i"
      using p(2,3) by (cases "role_of p") (auto simp: about_def)
    obtain q where q: "q \<in> set (sy_procs y)" "0 < at_stage UNIV i q"
      using has_reader [OF c] by blast
    have "q \<noteq> ConnGone i"
    proof
      assume "q = ConnGone i"
      then have "0 < total_of (at_stage not_writing i) (sy_procs y)"
        using total_pos [OF q(1), of "at_stage not_writing i"] by (simp add: at_stage_def)
      from nothing_pending(1,2) [OF c this] show False
        using role total_pos [OF p(1), of "writers i"] total_pos [OF p(1), of "handlers i"] by (auto simp: writers_def handlers_def)
    qed
    moreover obtain k where "role_of q = Reader i k"
      using q(2) by (cases "role_of q") (auto simp: at_stage_def split: if_splits)
    ultimately show ?thesis
      using reader_can_step [OF inv(3) q(1) _ _ total nosem] by blast
  qed
qed

section \<open>Runs\<close>

fun srv_run where
  "srv_run codecs comps handler [] y = Some y"
| "srv_run codecs comps handler (a # as) y = Option.bind (srv_exec codecs comps handler a y) (srv_run codecs comps handler as)"

lemma srv_run_reach:
  "reach ini (srv_stp codecs comps handler) y \<Longrightarrow> srv_run codecs comps handler as y = Some z \<Longrightarrow> reach ini (srv_stp codecs comps handler) z"
proof (induction as arbitrary: y)
  case (Cons a as)
  then obtain y1 where "srv_exec codecs comps handler a y = Some y1" "srv_run codecs comps handler as y1 = Some z"
    by (auto simp: bind_eq_Some_conv)
  then show ?case
    using Cons by (blast intro: reach_step srv_stp_def [THEN iffD2])
qed simp

definition sample_frame :: bytes where
  "sample_frame = frame (NewProtocolCodec sample_codecs sample_comps 1 1) MsgTypeRequest 7 [31, 3]"

definition sample_hdr :: Header where
  "sample_hdr = (NewHeader MsgTypeRequest 1 7 2)\<lparr>h_Compress := 1\<rparr>"

definition sample_recv :: "(unit, unit) Request" where
  "sample_recv = received_request ([1, 2], PayloadCodecRaw) sample_rq"

lemma sample_init: "init_codecs sample_lib = Some sample_codecs" "init_compressors sample_lib = Some sample_comps" "gzip_inverts sample_lib"
  by (simp_all add: init_codecs_eq init_compressors_eq sample_codecs_def sample_comps_def)
    (simp add: gzip_inverts_def sample_lib_def)

lemma sample_read: "ReadRequest sample_codecs sample_comps (sample_frame @ rest) = (Ok (sample_hdr, sample_recv), rest)"
proof -
  have "getCompressorByType 1 sample_comps = Some (NewGzipCompressor sample_lib (-1))"
    by (simp add: getCompressorByType_def sample_codec_defs)
  moreover have "Decompress (NewGzipCompressor sample_lib (-1)) [31, 3] = Inr [3]"
    by (simp add: NewGzipCompressor_def gzip_Decompress_def wrap_err_def sample_lib_def)
  ultimately have d: "DecodeFromReader sample_comps (sample_frame @ rest) = (Ok (sample_hdr, [3]), rest)"
    unfolding sample_frame_def
    using DecodeFromReader_frame [of "[31, 3]" "NewProtocolCodec sample_codecs sample_comps 1 1" sample_comps _ "[3]" MsgTypeRequest 7 rest]
    by (simp add: NewProtocolCodec_def sample_hdr_def)
  obtain h where "ReadRequest sample_codecs sample_comps (sample_frame @ rest) = (Ok (h, sample_recv), rest)"
    using read_request_back [OF sample_init sample_request_ok sample_encode(1), of rest]
    by (auto simp: sample_frame_def sample_recv_def length_frame HeaderLength_def)
  then show ?thesis
    using d by (cases "DecodeRequestWith sample_codecs (h_Codec sample_hdr) [3]")
      (auto simp: ReadRequest_def ctx_res_def split: if_splits)
qed

lemma sample_encode_error:
  "EncodeResponse (NewProtocolCodec sample_codecs sample_comps 0 9) (NewErrorResponse now k e)
     = Ok (frame (NewProtocolCodec sample_codecs sample_comps 0 9) MsgTypeResponse k [2])"
proof -
  have "EncodeResp (NewJSONCodec sample_lib) (NewErrorResponse now k e) = Inr [2]"
    by (simp add: json_encodeResponse_def response_to_wire_def encode_payload_def NewErrorResponse_def bind_err_def) (simp add: sample_lib_def)
  then show ?thesis
    by (simp add: EncodeResponse_def sample_codec_defs deref_def ctx_err_def NewNoneCompressor_def NewErrorResponse_def)
qed

definition plain_socket :: srv_sock where
  "plain_socket = \<lparr>sk_isTCP = False, sk_SetKeepAlive = None, sk_SetKeepAlivePeriod = None, sk_SetNoDelay = None,
     sk_SetReadBuffer = None, sk_SetWriteBuffer = None\<rparr>"

definition new_system :: "ServerOption list \<Rightarrow> (unit, unit) srv_sys" where
  "new_system options = \<lparr>sy_server = tcp_NewServer sample_codecs sample_comps 0 9 options, sy_procs = [SIdle, SIdle]\<rparr>"

lemma new_system_init: "srv_init sample_lib sample_codecs sample_comps options (new_system options)"
  using sample_init by (auto simp: srv_init_def new_system_def)

lemma new_system_reach:
  "reach (srv_init sample_lib sample_codecs sample_comps options) (srv_stp sample_codecs sample_comps handler) (new_system options)"
  by (rule reach_init, rule new_system_init)

lemmas srv_run_simps = srv_exec_def srv_step_defs srv_Listen_def serve_begin_def admit_conn_def new_conn_def upd_sc_def conn_of_def
  conn_done_def setup_conn_def plain_socket_def too_large_def taken_def refusal_def answer_to_def try_send_def try_recv_def make_chan_def
  close_chan_def drop_answer_def

text \<open>One request, answered, and the end of the connection.\<close>

definition one_request :: "(nat \<times> (unit, unit) srv_choice) list" where
  "one_request =
     [(0, SListen (Inr ''a'') ''a''), (0, SServe), (0, SAccept sample_frame None), (3, SSock plain_socket),
      (3, SGo 0), (3, SGo 0), (3, SGo 0), (3, SGo 0), (5, SHandled 0 (Inr sample_rs)), (5, SGo 0), (5, SGo 0), (5, SGo 0),
      (4, SGo 0), (4, SGo 0), (3, SGo 0), (3, SReadErr), (3, SGo 0), (4, SGo 0), (3, SGo 0)]"

lemma one_request_runs:
  "\<exists>y. srv_run sample_codecs sample_comps (\<lambda>_ _. True) one_request (new_system [WithMaxRequestBodySize 0]) = Some y
     \<and> sy_procs y = [Accept, SIdle, CtxWait, ConnClose 0, WriterGone 0, HGone] \<and> length (sv_conns (sy_server y)) = 1
     \<and> sc_taken (conn_of (sy_server y) 0) = [(sample_hdr, sample_recv)]
     \<and> sc_written (conn_of (sy_server y) 0) = [Answer 0 sample_rs] \<and> sv_ctxErr (sy_server y) = None \<and> \<not> sc_cancelled (conn_of (sy_server y) 0)"
  using sample_read [of "[]"] sample_encode(2)
  by (simp add: one_request_def new_system_def tcp_NewServer_def DefaultServerOptions_def WithMaxRequestBodySize_def srv_run_simps)

lemma one_request_reach:
  obtains y where "reach (srv_init sample_lib sample_codecs sample_comps [WithMaxRequestBodySize 0])
      (srv_stp sample_codecs sample_comps (\<lambda>_ _. True)) y"
    "sy_procs y = [Accept, SIdle, CtxWait, ConnClose 0, WriterGone 0, HGone]" "length (sv_conns (sy_server y)) = 1"
    "sc_taken (conn_of (sy_server y) 0) = [(sample_hdr, sample_recv)]" "sc_written (conn_of (sy_server y) 0) = [Answer 0 sample_rs]"
    "sv_ctxErr (sy_server y) = None" "\<not> sc_cancelled (conn_of (sy_server y) 0)"
  using one_request_runs srv_run_reach [OF new_system_reach] by blast



theorem server_progress_witness:
  "\<exists>y. reach (srv_init sample_lib sample_codecs sample_comps [WithMaxRequestBodySize 0])
      (srv_stp sample_codecs sample_comps (\<lambda>_ _. True)) y \<and> can_step sample_codecs sample_comps (\<lambda>_ _. True) y 0"
proof -
  obtain y where y: "reach (srv_init sample_lib sample_codecs sample_comps [WithMaxRequestBodySize 0])
      (srv_stp sample_codecs sample_comps (\<lambda>_ _. True)) y"
    "sy_procs y = [Accept, SIdle, CtxWait, ConnClose 0, WriterGone 0, HGone]"
    by (rule one_request_reach)
  have "tso_MaxConcurrentRequests (apply_options [WithMaxRequestBodySize 0] DefaultServerOptions) \<le> 0"
    by (simp add: WithMaxRequestBodySize_def DefaultServerOptions_def)
  then have "can_step sample_codecs sample_comps (\<lambda>_ _. True) y 0"
    using server_progress [OF y(1), of "ConnClose 0" 0] y(2) by (simp add: about_def)
  then show ?thesis
    using y(1) by blast
qed

text \<open>
  Two requests under a limit of one: the second gets no slot and is refused, its handler runs all the
  same and gives back the slot of the first, and the first finds none to give back.
\<close>

definition limited_options :: "ServerOption list" where
  "limited_options = [WithMaxConcurrentRequests 1, WithMaxRequestBodySize 0]"

definition slot_leak :: "(nat \<times> (unit, unit) srv_choice) list" where
  "slot_leak =
     [(0, SListen (Inr ''a'') ''a''), (0, SServe), (0, SAccept (sample_frame @ sample_frame) None), (3, SSock plain_socket),
      (3, SGo 0), (3, SGo 0), (3, SGo 0), (3, SGo 0), (3, SGo 0), (3, SGo 0), (3, SGo 0), (3, SGo 0), (3, SGo 0),
      (6, SHandled 0 (Inr sample_rs)), (6, SGo 0), (6, SGo 0), (6, SGo 0), (5, SHandled 0 (Inr sample_rs)), (5, SGo 0),
      (4, SGo 0), (4, SGo 0), (4, SGo 0), (4, SGo 0), (4, SGo 0), (4, SGo 0), (3, SGo 0), (3, SReadErr), (1, SClose), (1, SGo 0)]"

definition hung :: "(unit, unit) srv_sys \<Rightarrow> bool" where
  "hung y \<longleftrightarrow> (\<exists>p q. sy_procs y = [p, KWait, q, WaitHandlers 0, Writing 0, HRelease 0, HGone]
       \<and> (p = Accept \<or> (\<exists>r. p = ServeRet r) \<or> p = SIdle) \<and> (q = CtxWait \<or> q = CtxClosed \<or> q = CtxGone))
     \<and> sv_listener (sy_server y) = Some False \<and> sv_serving (sy_server y) \<and> sv_closed (sy_server y) \<and> sv_wg (sy_server y) = 1
     \<and> sv_reqSemaphore (sy_server y) = Some (make_chan 1)
     \<and> sc_handlersWg (conn_of (sy_server y) 0) = 1 \<and> sc_writeCh (conn_of (sy_server y) 0) = Some (make_chan 64)"

lemma slot_leak_hangs:
  "\<exists>y. srv_run sample_codecs sample_comps (\<lambda>_ _. True) slot_leak (new_system limited_options) = Some y \<and> hung y"
  using sample_read [of "[]"] sample_read [of sample_frame] sample_encode(2)
  by (simp add: slot_leak_def new_system_def tcp_NewServer_def DefaultServerOptions_def WithMaxRequestBodySize_def limited_options_def
      WithMaxConcurrentRequests_def srv_run_simps sample_encode_error hung_def)

lemma hung_forever:
  assumes "srv_stp sample_codecs sample_comps handler y z" and "hung y"
  shows "hung z"
proof -
  obtain p q where ps: "sy_procs y = [p, KWait, q, WaitHandlers 0, Writing 0, HRelease 0, HGone]"
    and p: "p = Accept \<or> (\<exists>r. p = ServeRet r) \<or> p = SIdle" and q: "q = CtxWait \<or> q = CtxClosed \<or> q = CtxGone"
    using assms(2) by (auto simp: hung_def)
  have s: "sv_listener (sy_server y) = Some False" "sv_serving (sy_server y)" "sv_closed (sy_server y)" "sv_wg (sy_server y) = 1"
    "sv_reqSemaphore (sy_server y) = Some (make_chan 1)"
    "sc_handlersWg (conn_of (sy_server y) 0) = 1" "sc_writeCh (conn_of (sy_server y) 0) = Some (make_chan 64)"
    using assms(2) by (auto simp: hung_def)
  obtain g ch s' p' ps' where g: "g < length (sy_procs y)"
    and st: "srv_step1 sample_codecs sample_comps handler ch (sy_procs y ! g) (sy_server y) = Some (s', p', ps')"
    and z: "z = \<lparr>sy_server = s', sy_procs = (sy_procs y)[g := p'] @ ps'\<rparr>"
    using assms(1) by (auto simp: srv_stp_def srv_exec_def split: if_splits)
  have "g = 0 \<or> g = 1 \<or> g = 2 \<or> g = 3 \<or> g = 4 \<or> g = 5 \<or> g = 6"
    using g ps by auto
  moreover have "g \<noteq> 1 \<and> g \<noteq> 3 \<and> g \<noteq> 4 \<and> g \<noteq> 5 \<and> g \<noteq> 6"
    using st ps s by (auto simp: srv_step_defs make_chan_def try_recv_def)
  moreover have "hung z" if "g = 2"
    using st ps s z q p that by (auto simp: hung_def srv_step1_def serve_step_def reader_step_def split: if_splits)
  moreover have "hung z" if "g = 0"
    using p
  proof (elim disjE exE)
    assume "p = Accept"
    then show ?thesis
      using st ps s z q that by (cases ch) (auto simp: hung_def srv_step1_def serve_step_def accept_failed_def)
  next
    fix r
    assume "p = ServeRet r"
    then show ?thesis
      using st ps s z q that by (auto simp: hung_def srv_step1_def)
  next
    assume "p = SIdle"
    then show ?thesis
      using st ps s z q that
      by (cases ch) (auto simp: hung_def srv_step1_def user_step_def srv_Listen_def serve_begin_def split: if_splits)
  qed
  ultimately show ?thesis
    by blast
qed

text \<open>
  The limit on concurrent requests is broken: with a limit of one and two requests at a time the
  server reaches a state from which, whatever happens, \<open>Close\<close> never returns, a handler waits for ever to
  give back its slot, and its connection is never closed.
\<close>

theorem request_limit_hangs:
  "\<exists>y. reach (srv_init sample_lib sample_codecs sample_comps limited_options) (srv_stp sample_codecs sample_comps (\<lambda>_ _. True)) y
     \<and> (\<forall>z. (srv_stp sample_codecs sample_comps (\<lambda>_ _. True))\<^sup>*\<^sup>* y z
          \<longrightarrow> sy_procs z ! 1 = KWait \<and> sy_procs z ! 5 = HRelease 0 \<and> sy_procs z ! 3 = WaitHandlers 0)"
proof -
  obtain y where y: "srv_run sample_codecs sample_comps (\<lambda>_ _. True) slot_leak (new_system limited_options) = Some y" "hung y"
    using slot_leak_hangs by blast
  have "hung z" if "(srv_stp sample_codecs sample_comps (\<lambda>_ _. True))\<^sup>*\<^sup>* y z" for z
    using that y(2) by (induction rule: rtranclp_induct) (auto intro: hung_forever)
  then have "sy_procs z ! 1 = KWait \<and> sy_procs z ! 5 = HRelease 0 \<and> sy_procs z ! 3 = WaitHandlers 0"
    if "(srv_stp sample_codecs sample_comps (\<lambda>_ _. True))\<^sup>*\<^sup>* y z" for z
    using that by (fastforce simp: hung_def)
  then show ?thesis
    using srv_run_reach [OF new_system_reach y(1)] by blast
qed

theorem request_limit_hangs_witness:
  "\<exists>y. reach (srv_init sample_lib sample_codecs sample_comps limited_options) (srv_stp sample_codecs sample_comps (\<lambda>_ _. True)) y
     \<and> sy_procs y ! 1 = KWait \<and> sy_procs y ! 5 = HRelease 0"
  using request_limit_hangs by blast

end
