(* ===== verification/Service_Registry.thy ===== *)
theory Service_Registry
  imports Interceptors Frame_Codec
begin

text \<open>
  The server's table of services (\<open>pkg/server/service.go\<close>): services and their methods, the
  registration of a Go value by reflection, and the handlers that decode a request's arguments and
  call the method. What the code asks of \<open>reflect\<close> is modelled: a type is its name, its kind, its
  element type and its method set. Every method holds its lock for its whole body, and is one step.
\<close>

named_theorems svc_defs \<open>the operations on the table of services\<close>

section \<open>Services\<close>

type_synonym ('c, 'm, 'v, 's) MethodHandler = "('c, 'm, 'v, 's) invoker"

record ('c, 'm, 'v, 's) Service =
  svc_name :: string
  svc_methods :: "string \<rightharpoonup> ('c, 'm, 'v, 's) MethodHandler"

definition NewService :: "string \<Rightarrow> ('c, 'm, 'v, 's) Service" where
  [svc_defs]: "NewService name = \<lparr>svc_name = name, svc_methods = Map.empty\<rparr>"

definition Service_RegisterMethod ::
    "string \<Rightarrow> ('c, 'm, 'v, 's) MethodHandler \<Rightarrow> ('c, 'm, 'v, 's) Service \<Rightarrow> ('c, 'm, 'v, 's) Service \<times> go_error option" where
  [svc_defs]: "Service_RegisterMethod meth handler s =
     (if svc_methods s meth \<noteq> None
      then (s, Some (Errorf (''method '' @ meth @ '' already registered in service '' @ svc_name s)))
      else (s\<lparr>svc_methods := (svc_methods s)(meth \<mapsto> handler)\<rparr>, None))"

definition GetMethod :: "string \<Rightarrow> ('c, 'm, 'v, 's) Service \<Rightarrow> ('c, 'm, 'v, 's) MethodHandler option" where
  [svc_defs]: "GetMethod meth s = svc_methods s meth"

text \<open>\<open>ks\<close> is the order in which the runtime visits the map.\<close>

definition Service_Methods :: "string list \<Rightarrow> ('c, 'm, 'v, 's) Service \<Rightarrow> string list" where
  "Service_Methods ks s = fold (\<lambda>m methods. methods @ [m]) ks []"

record ('c, 'm, 'v, 's) ServiceRegistry =
  sr_services :: "string \<rightharpoonup> ('c, 'm, 'v, 's) Service"

definition newServiceRegistry :: "('c, 'm, 'v, 's) ServiceRegistry" where
  [svc_defs]: "newServiceRegistry = \<lparr>sr_services = Map.empty\<rparr>"

text \<open>A new service is stored before its method is registered.\<close>

definition RegisterMethod ::
    "string \<Rightarrow> string \<Rightarrow> ('c, 'm, 'v, 's) MethodHandler \<Rightarrow> ('c, 'm, 'v, 's) ServiceRegistry
     \<Rightarrow> ('c, 'm, 'v, 's) ServiceRegistry \<times> go_error option" where
  [svc_defs]: "RegisterMethod service meth handler sr =
     (let svc = (case sr_services sr service of None \<Rightarrow> NewService service | Some svc \<Rightarrow> svc) in
      case Service_RegisterMethod meth handler svc of
        (svc', err) \<Rightarrow> (sr\<lparr>sr_services := (sr_services sr)(service \<mapsto> svc')\<rparr>, err))"

definition GetHandler ::
    "string \<Rightarrow> string \<Rightarrow> ('c, 'm, 'v, 's) ServiceRegistry \<Rightarrow> ('c, 'm, 'v, 's) MethodHandler or_error" where
  [svc_defs]: "GetHandler service meth sr =
     (case sr_services sr service of
        None \<Rightarrow> Inl (Wrapped [] (Sentinel ErrNotFound) ('': service='' @ service))
      | Some svc \<Rightarrow>
          (case GetMethod meth svc of
             None \<Rightarrow> Inl (Wrapped [] (Sentinel ErrNotFound) ('': service='' @ service @ '' method='' @ meth))
           | Some handler \<Rightarrow> Inr handler))"

definition Services :: "string list \<Rightarrow> ('c, 'm, 'v, 's) ServiceRegistry \<Rightarrow> string list" where
  "Services ks sr = fold (\<lambda>s services. services @ [s]) ks []"

section \<open>Reflection\<close>

datatype kind = KPtr | KStruct | KInterface | KMap | KSlice | KChan | KFunc | KBasic

datatype rtype = RType (rt_String: string) (rt_Kind: kind) (rt_Elem: "rtype option") (rt_Methods: "(string \<times> string) list")

text \<open>\<open>Type.Implements\<close>: the method set has every method of the interface, by name and signature.\<close>

definition Implements :: "rtype \<Rightarrow> rtype \<Rightarrow> bool" where
  "Implements t u \<longleftrightarrow> list_all (\<lambda>m. m \<in> set (rt_Methods t)) (rt_Methods u)"

text \<open>\<open>Type.AssignableTo\<close>, for the types of arguments: the same type, or an interface that it implements.\<close>

definition AssignableTo :: "rtype \<Rightarrow> rtype \<Rightarrow> bool" where
  "AssignableTo t u \<longleftrightarrow> t = u \<or> rt_Kind u = KInterface \<and> Implements t u"

definition errType :: rtype where
  "errType = RType ''error'' KInterface None [(''Error'', ''func() string'')]"

definition ctxType :: rtype where
  "ctxType = RType ''context.Context'' KInterface None
     [(''Deadline'', ''func() (time.Time, bool)''), (''Done'', ''func() <-chan struct {}''),
      (''Err'', ''func() error''), (''Value'', ''func(interface {}) interface {}'')]"

definition emptyIface :: rtype where
  "emptyIface = RType ''interface {}'' KInterface None []"

lemma Implements_emptyIface [simp]: "Implements t emptyIface"
  by (simp add: Implements_def emptyIface_def)

lemma AssignableTo_emptyIface [simp]: "AssignableTo t emptyIface"
  by (simp add: AssignableTo_def) (simp add: emptyIface_def)

text \<open>
  A method of a type: its name, its package path (empty when exported), the types of its parameters,
  of which the first is the receiver, and of its results, and its code, which gets the context (if
  it takes one) and its argument.
\<close>

record ('c, 'm, 'v, 's) Method =
  m_Name :: string
  m_PkgPath :: string
  m_In :: "rtype list"
  m_Out :: "rtype list"
  m_Func :: "'c option \<Rightarrow> ('m, 'v) iface \<Rightarrow> 's \<Rightarrow> 's \<times> ('m, 'v) outcome"

text \<open>
  What reflection finds out about values: the types of a context and of an argument, the type
  \<open>proto.Message\<close>, and what \<open>reflect.New\<close> of a type holds.
\<close>

record ('c, 'm, 'v) reflection =
  rf_ctx :: "'c \<Rightarrow> rtype"
  rf_TypeOf :: "('m, 'v) iface \<Rightarrow> rtype"
  rf_protoMsgType :: rtype
  rf_New :: "rtype \<Rightarrow> ('m, 'v) iface"

datatype rpcMethodKind = rpcMethodArgsOnly | rpcMethodCtxArgs | rpcMethodTyped

definition isTypedMethod :: "rtype \<Rightarrow> rtype \<Rightarrow> rtype \<Rightarrow> bool" where
  "isTypedMethod inType outType protoMsgType =
     (if rt_Kind inType \<noteq> KPtr \<or> rt_Kind outType \<noteq> KPtr then False
      else if Implements inType protoMsgType \<and> Implements outType protoMsgType then True
      else False)"

definition methodKind :: "rtype \<Rightarrow> rtype list \<Rightarrow> rtype list \<Rightarrow> rpcMethodKind option" where
  "methodKind protoMsgType ins outs =
     (if length outs \<noteq> 2 then None
      else if \<not> Implements (outs ! 1) errType then None
      else if length ins = 2 then
        (if ins ! 1 = emptyIface \<and> outs ! 0 = emptyIface then Some rpcMethodArgsOnly else None)
      else if length ins = 3 then
        (if \<not> Implements (ins ! 1) ctxType then None
         else if ins ! 2 = emptyIface \<and> outs ! 0 = emptyIface then Some rpcMethodCtxArgs
         else if isTypedMethod (ins ! 2) (outs ! 0) protoMsgType then Some rpcMethodTyped
         else None)
      else None)"

section \<open>Calls\<close>

text \<open>
  \<open>Value.Call\<close> panics on a zero \<open>Value\<close> among the arguments, and then on the first argument that cannot
  be assigned to its parameter; \<open>dyn\<close> is the list of the arguments' types, \<open>None\<close> for a zero \<open>Value\<close>.
\<close>

fun unassignable :: "rtype list \<Rightarrow> rtype list \<Rightarrow> (rtype \<times> rtype) option" where
  "unassignable (p # ps) (t # ts) = (if AssignableTo t p then unassignable ps ts else Some (t, p))"
| "unassignable _ _ = None"

definition call_panic :: "rtype list \<Rightarrow> rtype option list \<Rightarrow> string option" where
  "call_panic params dyn =
     (if None \<in> set dyn then Some ''reflect: Call using zero Value argument''
      else case unassignable params (map the dyn) of
        None \<Rightarrow> None
      | Some (t, p) \<Rightarrow> Some (''reflect: Call using '' @ rt_String t @ '' as type '' @ rt_String p))"

text \<open>\<open>Value.IsNil\<close> is defined on the kinds that have a nil.\<close>

definition nilable :: "kind \<Rightarrow> bool" where
  "nilable k \<longleftrightarrow> k \<in> {KPtr, KInterface, KMap, KSlice, KChan, KFunc}"

text \<open>\<open>reflect.ValueOf\<close> of a nil interface is the zero \<open>Value\<close>.\<close>

definition value_type :: "('c, 'm, 'v) reflection \<Rightarrow> ('m, 'v) iface \<Rightarrow> rtype option" where
  "value_type rf v = (if v = INil then None else Some (rf_TypeOf rf v))"

definition call_method ::
    "('c, 'm, 'v, 's) Method \<Rightarrow> rtype option list \<Rightarrow> 'c option \<Rightarrow> ('m, 'v) iface \<Rightarrow> 's \<Rightarrow> 's \<times> ('m, 'v) outcome" where
  "call_method m dyn ctx arg s =
     (case call_panic (tl (m_In m)) dyn of
        Some msg \<Rightarrow> (s, Panic msg)
      | None \<Rightarrow>
          (case m_Func m ctx arg s of
             (s', Panic msg) \<Rightarrow> (s', Panic msg)
           | (s', Ret v err) \<Rightarrow>
               if \<not> nilable (rt_Kind (m_Out m ! 1)) then (s', Panic ''reflect: call of reflect.Value.IsNil on struct Value'')
               else if err \<noteq> None then (s', Ret INil err)
               else (s', Ret v None)))"

text \<open>
  \<open>proto.Unmarshal\<close> into the message behind \<open>reqPtr\<close>, which the code asserts to be a \<open>proto.Message\<close>.
\<close>

definition proto_unmarshal_ptr :: "('m, 'v) lib \<Rightarrow> bytes \<Rightarrow> ('m, 'v) iface \<Rightarrow> ('m, 'v) iface result" where
  "proto_unmarshal_ptr lib b reqPtr =
     (case reqPtr of
        IProto z \<Rightarrow> (case proto_value_un lib b z of Inl e \<Rightarrow> Err e | Inr msg \<Rightarrow> Ok (IProto msg))
      | _ \<Rightarrow> RPanic)"

definition json_unmarshal_ptr :: "('m, 'v) lib \<Rightarrow> bytes \<Rightarrow> ('m, 'v) iface \<Rightarrow> ('m, 'v) iface result" where
  "json_unmarshal_ptr lib b reqPtr = (case json_value_un lib b reqPtr of Inl e \<Rightarrow> Err e | Inr v \<Rightarrow> Ok v)"

definition wrap_res :: "string \<Rightarrow> 'a result \<Rightarrow> 'a result" where
  "wrap_res msg r = (case r of Err e \<Rightarrow> Err (Wrapped msg e []) | _ \<Rightarrow> r)"

definition marshal_args :: "bytes or_error \<Rightarrow> (bytes \<Rightarrow> 'a result) \<Rightarrow> 'a result" where
  "marshal_args r f = (case r of Inl e \<Rightarrow> Err (Wrapped ''marshal args: '' e []) | Inr b \<Rightarrow> f b)"

text \<open>The first part of \<open>callTypedMethod\<close>: the request value from the arguments of the request.\<close>

definition typed_request ::
    "('m, 'v) lib \<Rightarrow> bool \<Rightarrow> ('m, 'v) iface \<Rightarrow> ('m, 'v) Request \<Rightarrow> ('m, 'v) iface result" where
  "typed_request lib isProtoMsg reqPtr req =
     (case rq_Args req of
        IBytes b \<Rightarrow>
          if rq_ArgsCodec req = PayloadCodecProtobuf then
            (if \<not> isProtoMsg then Err (Errorf ''args codec is protobuf but target type does not implement proto.Message'')
             else wrap_res ''unmarshal request: '' (proto_unmarshal_ptr lib b reqPtr))
          else if rq_ArgsCodec req = PayloadCodecJSON then wrap_res ''unmarshal request: '' (json_unmarshal_ptr lib b reqPtr)
          else if rq_ArgsCodec req = PayloadCodecRaw then Err (Errorf ''cannot unmarshal raw bytes into typed request'')
          else if isProtoMsg then wrap_res ''unmarshal request: '' (proto_unmarshal_ptr lib b reqPtr)
          else wrap_res ''unmarshal request: '' (json_unmarshal_ptr lib b reqPtr)
      | IMap v \<Rightarrow> marshal_args (json_value lib (IMap v)) (\<lambda>b. wrap_res ''unmarshal request: '' (json_unmarshal_ptr lib b reqPtr))
      | args \<Rightarrow>
          (case (args, isProtoMsg) of
             (IProto p, True) \<Rightarrow> marshal_args (proto_value lib p) (\<lambda>b. wrap_res ''unmarshal request: '' (proto_unmarshal_ptr lib b reqPtr))
           | _ \<Rightarrow> marshal_args (json_value lib args) (\<lambda>b. wrap_res ''unmarshal request: '' (json_unmarshal_ptr lib b reqPtr))))"

definition callTypedMethod ::
    "('c, 'm, 'v) reflection \<Rightarrow> ('m, 'v) lib \<Rightarrow> ('c, 'm, 'v, 's) Method \<Rightarrow> 'c \<Rightarrow> ('m, 'v) Request \<Rightarrow> 's \<Rightarrow> 's \<times> ('m, 'v) outcome" where
  "callTypedMethod rf lib m ctx req s =
     (let reqType = m_In m ! 2; reqPtr = rf_New rf (the (rt_Elem reqType)) in
      case typed_request lib (Implements reqType (rf_protoMsgType rf)) reqPtr req of
        RPanic \<Rightarrow> (s, Panic ''interface conversion'')
      | Err e \<Rightarrow> (s, Ret INil (Some e))
      | Ok reqValue \<Rightarrow> call_method m [Some (rf_ctx rf ctx), Some reqType] (Some ctx) reqValue s)"

definition makeMethodHandler ::
    "('c, 'm, 'v) reflection \<Rightarrow> ('m, 'v) lib \<Rightarrow> ('c, 'm, 'v, 's) Method \<Rightarrow> rpcMethodKind \<Rightarrow> ('c, 'm, 'v, 's) MethodHandler" where
  "makeMethodHandler rf lib m kind ctx req s =
     (case kind of
        rpcMethodArgsOnly \<Rightarrow> call_method m [value_type rf (rq_Args req)] None (rq_Args req) s
      | rpcMethodCtxArgs \<Rightarrow> call_method m [Some (rf_ctx rf ctx), value_type rf (rq_Args req)] (Some ctx) (rq_Args req) s
      | rpcMethodTyped \<Rightarrow> callTypedMethod rf lib m ctx req s)"

section \<open>Registering a Go value\<close>

text \<open>
  A service implementation: nil, or a value of a type with its methods, as \<open>reflect\<close> lists them. The
  loop counts the methods it registered; it stops at the first one that cannot be.
\<close>

datatype ('c, 'm, 'v, 's) impl = NilImpl | Impl rtype "('c, 'm, 'v, 's) Method list"

fun register_methods ::
    "('c, 'm, 'v) reflection \<Rightarrow> ('m, 'v) lib \<Rightarrow> string \<Rightarrow> ('c, 'm, 'v, 's) Method list \<Rightarrow> nat \<Rightarrow> ('c, 'm, 'v, 's) ServiceRegistry
     \<Rightarrow> ('c, 'm, 'v, 's) ServiceRegistry \<times> nat or_error" where
  "register_methods rf lib serviceName [] registered sr = (sr, Inr registered)"
| "register_methods rf lib serviceName (m # ms) registered sr =
     (if m_PkgPath m \<noteq> [] then register_methods rf lib serviceName ms registered sr
      else case methodKind (rf_protoMsgType rf) (m_In m) (m_Out m) of
        None \<Rightarrow> register_methods rf lib serviceName ms registered sr
      | Some kind \<Rightarrow>
          (case RegisterMethod serviceName (m_Name m) (makeMethodHandler rf lib m kind) sr of
             (sr', Some e) \<Rightarrow>
               (sr', Inl (Wrapped (''register method '' @ serviceName @ ''.'' @ m_Name m @ '': '') e []))
           | (sr', None) \<Rightarrow> register_methods rf lib serviceName ms (registered + 1) sr'))"

text \<open>\<open>quoted\<close> is the service name as \<open>%q\<close> prints it.\<close>

definition RegisterService ::
    "('c, 'm, 'v) reflection \<Rightarrow> ('m, 'v) lib \<Rightarrow> (string \<Rightarrow> string) \<Rightarrow> string \<Rightarrow> ('c, 'm, 'v, 's) impl
     \<Rightarrow> ('c, 'm, 'v, 's) ServiceRegistry \<Rightarrow> ('c, 'm, 'v, 's) ServiceRegistry \<times> go_error option" where
  "RegisterService rf lib quoted serviceName serviceImpl sr =
     (case serviceImpl of
        NilImpl \<Rightarrow> (sr, Some (Errorf ''service implementation is nil''))
      | Impl typ ms \<Rightarrow>
          if rt_Kind typ \<noteq> KPtr \<or> map_option rt_Kind (rt_Elem typ) \<noteq> Some KStruct
          then (sr, Some (Errorf (''service must be a pointer to struct, got '' @ rt_String typ)))
          else (case register_methods rf lib serviceName ms 0 sr of
             (sr', Inl e) \<Rightarrow> (sr', Some e)
           | (sr', Inr registered) \<Rightarrow>
               if registered = 0
               then (sr', Some (Errorf (''no valid rpc methods found in service '' @ quoted serviceName @ '' ('' @ rt_String typ @ '')'')))
               else (sr', None)))"

section \<open>The table as a map from names to handlers\<close>

definition handler_of :: "('c, 'm, 'v, 's) ServiceRegistry \<Rightarrow> string \<times> string \<Rightarrow> ('c, 'm, 'v, 's) MethodHandler option" where
  "handler_of sr = (\<lambda>(service, meth). Option.bind (sr_services sr service) (\<lambda>svc. svc_methods svc meth))"

text \<open>
  The contract of a table of handlers, over what it holds: a name that is not there gives an error
  that is \<open>registry.ErrNotFound\<close>; storing a new name adds it and nothing else; storing a name again
  fails and changes nothing.
\<close>

locale handler_table =
  fixes new :: 't
    and put :: "string \<Rightarrow> string \<Rightarrow> 'h \<Rightarrow> 't \<Rightarrow> 't \<times> go_error option"
    and get :: "string \<Rightarrow> string \<Rightarrow> 't \<Rightarrow> 'h or_error"
    and holds :: "'t \<Rightarrow> string \<times> string \<Rightarrow> 'h option"
  assumes holds_new: "holds new k = None"
    and get_present: "holds t (s, m) = Some h \<Longrightarrow> get s m t = Inr h"
    and get_absent: "holds t (s, m) = None \<Longrightarrow> \<exists>e. get s m t = Inl e \<and> errors_Is e ErrNotFound"
    and put_absent: "holds t (s, m) = None \<Longrightarrow> \<exists>t'. put s m h t = (t', None) \<and> holds t' = (holds t)((s, m) \<mapsto> h)"
    and put_present: "holds t (s, m) = Some h' \<Longrightarrow> \<exists>t' e. put s m h t = (t', Some e) \<and> holds t' = holds t"
begin

lemma put_keeps: "holds t k = Some h \<Longrightarrow> holds (fst (put s m h' t)) k = Some h"
  using put_absent [of t s m h'] put_present [of t s m _ h'] by (cases "holds t (s, m)") auto

lemma put_get: "get s m (fst (put s m h t)) = Inr (case holds t (s, m) of None \<Rightarrow> h | Some h' \<Rightarrow> h')"
  using put_absent [of t s m h] put_present [of t s m _ h] get_present
  by (cases "holds t (s, m)") auto

lemma get_iff: "get s m t = Inr h \<longleftrightarrow> holds t (s, m) = Some h"
  using get_present [of t s m] get_absent [of t s m] by (cases "holds t (s, m)") auto

end

interpretation methods: handler_table newServiceRegistry RegisterMethod GetHandler handler_of
  by unfold_locales (auto simp: svc_defs handler_of_def fun_eq_iff bind_eq_Some_conv split: option.splits)

section \<open>What reflection registers\<close>

definition eligible :: "('c, 'm, 'v) reflection \<Rightarrow> ('c, 'm, 'v, 's) Method \<Rightarrow> bool" where
  "eligible rf m \<longleftrightarrow> m_PkgPath m = [] \<and> methodKind (rf_protoMsgType rf) (m_In m) (m_Out m) \<noteq> None"

definition handler_for :: "('c, 'm, 'v) reflection \<Rightarrow> ('m, 'v) lib \<Rightarrow> ('c, 'm, 'v, 's) Method \<Rightarrow> ('c, 'm, 'v, 's) MethodHandler" where
  "handler_for rf lib m = makeMethodHandler rf lib m (the (methodKind (rf_protoMsgType rf) (m_In m) (m_Out m)))"

text \<open>The handlers of a list of methods, by their names in the service.\<close>

definition handlers_for ::
    "('c, 'm, 'v) reflection \<Rightarrow> ('m, 'v) lib \<Rightarrow> string \<Rightarrow> ('c, 'm, 'v, 's) Method list \<Rightarrow> string \<times> string \<rightharpoonup> ('c, 'm, 'v, 's) MethodHandler" where
  "handlers_for rf lib service ms = map_of (map (\<lambda>m. ((service, m_Name m), handler_for rf lib m)) (filter (eligible rf) ms))"

lemma register_methods_skip:
  "\<not> eligible rf m \<Longrightarrow> register_methods rf lib service (m # ms) n sr = register_methods rf lib service ms n sr"
  by (auto simp: eligible_def split: option.splits)

lemma register_methods_take:
  "eligible rf m \<Longrightarrow> register_methods rf lib service (m # ms) n sr =
     (case RegisterMethod service (m_Name m) (handler_for rf lib m) sr of
        (sr', Some e) \<Rightarrow> (sr', Inl (Wrapped (''register method '' @ service @ ''.'' @ m_Name m @ '': '') e []))
      | (sr', None) \<Rightarrow> register_methods rf lib service ms (n + 1) sr')"
  by (auto simp: eligible_def handler_for_def split: option.splits)

lemma register_methods_keep:
  "handler_of sr k = Some h \<Longrightarrow> handler_of (fst (register_methods rf lib service ms n sr)) k = Some h"
proof (induction ms arbitrary: n sr)
  case (Cons m ms)
  show ?case
  proof (cases "eligible rf m")
    case True
    obtain sr' err where r: "RegisterMethod service (m_Name m) (handler_for rf lib m) sr = (sr', err)"
      by force
    have "handler_of sr' k = Some h"
      using methods.put_keeps [OF Cons.prems, of service "m_Name m" "handler_for rf lib m"] by (simp add: r)
    then show ?thesis
      by (simp add: register_methods_take [OF True] r Cons.IH split: option.splits del: register_methods.simps)
  next
    case False
    then show ?thesis
      using Cons by (simp add: register_methods_skip del: register_methods.simps)
  qed
qed simp

lemma register_methods_all:
  assumes "distinct (map m_Name (filter (eligible rf) ms))"
    and "\<And>m. m \<in> set (filter (eligible rf) ms) \<Longrightarrow> handler_of sr (service, m_Name m) = None"
  shows "\<exists>sr'. register_methods rf lib service ms n sr = (sr', Inr (n + length (filter (eligible rf) ms)))
    \<and> handler_of sr' = handler_of sr ++ handlers_for rf lib service ms"
  using assms
proof (induction ms arbitrary: n sr)
  case Nil
  then show ?case
    by (simp add: handlers_for_def)
next
  case (Cons m ms)
  show ?case
  proof (cases "eligible rf m")
    case True
    let ?h = "handler_for rf lib m"
    obtain sr1 where sr1: "RegisterMethod service (m_Name m) ?h sr = (sr1, None)"
      "handler_of sr1 = (handler_of sr)((service, m_Name m) \<mapsto> ?h)"
      using methods.put_absent [of sr service "m_Name m" ?h] Cons.prems(2) [of m] True by auto
    have "handler_of sr1 (service, m_Name m') = None" if "m' \<in> set (filter (eligible rf) ms)" for m'
      using that Cons.prems(1) Cons.prems(2) [of m'] True by (auto simp: sr1(2) image_iff)
    then obtain sr' where sr': "register_methods rf lib service ms (n + 1) sr1 = (sr', Inr (n + 1 + length (filter (eligible rf) ms)))"
      "handler_of sr' = handler_of sr1 ++ handlers_for rf lib service ms"
      using Cons.IH [of sr1 "n + 1"] Cons.prems(1) True by auto
    have "handlers_for rf lib service ms (service, m_Name m) = None"
      using Cons.prems(1) True by (auto simp: handlers_for_def map_of_eq_None_iff)
    then have "handler_of sr' = handler_of sr ++ handlers_for rf lib service (m # ms)"
      using True by (auto simp: sr'(2) sr1(2) handlers_for_def map_add_def fun_eq_iff split: option.splits)
    then show ?thesis
      using sr'(1) by (simp add: register_methods_take [OF True] sr1(1) True del: register_methods.simps)
  next
    case False
    then show ?thesis
      using Cons by (simp add: register_methods_skip handlers_for_def del: register_methods.simps)
  qed
qed

section \<open>Calls that reflection accepts\<close>

text \<open>
  A method in one of the documented forms: the context parameter is \<open>context.Context\<close> itself, the
  request is a pointer to something, and the error result can be nil.
\<close>

definition documented_form :: "('c, 'm, 'v, 's) Method \<Rightarrow> rpcMethodKind \<Rightarrow> bool" where
  "documented_form m kind \<longleftrightarrow>
     (kind \<noteq> rpcMethodArgsOnly \<longrightarrow> m_In m ! 1 = ctxType) \<and> (kind = rpcMethodTyped \<longrightarrow> rt_Elem (m_In m ! 2) \<noteq> None)
     \<and> nilable (rt_Kind (m_Out m ! 1))"

text \<open>What reflection says of every context, and of a pointer to a new message.\<close>

definition reflection_ok :: "('c, 'm, 'v) reflection \<Rightarrow> bool" where
  "reflection_ok rf \<longleftrightarrow> (\<forall>ctx. Implements (rf_ctx rf ctx) ctxType)
     \<and> (\<forall>t u. rt_Elem t = Some u \<longrightarrow> Implements t (rf_protoMsgType rf) \<longrightarrow> (\<exists>z. rf_New rf u = IProto z))"

lemma methodKind_In:
  "methodKind pm ins outs = Some rpcMethodArgsOnly \<Longrightarrow> tl ins = [emptyIface]"
  "methodKind pm ins outs = Some rpcMethodCtxArgs \<Longrightarrow> tl ins = [ins ! 1, emptyIface]"
  "methodKind pm ins outs = Some rpcMethodTyped \<Longrightarrow> tl ins = [ins ! 1, ins ! 2] \<and> rt_Kind (ins ! 2) = KPtr \<and> Implements (ins ! 2) pm"
  by (auto simp: methodKind_def isTypedMethod_def length_Suc_conv numeral_2_eq_2 numeral_3_eq_3 split: if_splits)

lemma AssignableTo_refl [simp]: "AssignableTo t t"
  by (simp add: AssignableTo_def)

lemma call_method_result:
  assumes "call_panic (tl (m_In m)) dyn = None" and "nilable (rt_Kind (m_Out m ! 1))"
  shows "call_method m dyn ctx arg s = (case m_Func m ctx arg s of
      (s', Ret v (Some e)) \<Rightarrow> (s', Ret INil (Some e)) | r \<Rightarrow> r)"
  using assms by (auto simp: call_method_def split: prod.splits outcome.splits option.splits)

lemma ctx_assignable: "reflection_ok rf \<Longrightarrow> AssignableTo (rf_ctx rf ctx) ctxType"
  by (simp add: reflection_ok_def AssignableTo_def) (simp add: ctxType_def)

lemma typed_request_safe [simp]: "typed_request lib isProto (IProto z) req \<noteq> RPanic"
  by (auto simp: typed_request_def wrap_res_def marshal_args_def proto_unmarshal_ptr_def json_unmarshal_ptr_def
      split: iface.splits result.splits sum.splits bool.splits)

section \<open>Properties of the table of services\<close>


text \<open>
  (C34) A handler made by reflection from a method in a documented form never panics by itself, with one
  exception: a method that takes its argument as \<open>any\<close> panics in \<open>reflect\<close>, before its code runs, on a
  request without arguments. In every other case a panic is one of the method's own code.
\<close>

theorem reflected_call_safe:
  assumes "reflection_ok rf" and "methodKind (rf_protoMsgType rf) (m_In m) (m_Out m) = Some kind"
    and "documented_form m kind"
  shows "(kind \<noteq> rpcMethodTyped \<and> rq_Args req = INil \<longrightarrow>
      makeMethodHandler rf lib m kind ctx req s = (s, Panic ''reflect: Call using zero Value argument''))
    \<and> (kind = rpcMethodTyped \<or> rq_Args req \<noteq> INil \<longrightarrow> makeMethodHandler rf lib m kind ctx req s = (s', Panic msg) \<longrightarrow>
      (\<exists>c arg. m_Func m c arg s = (s', Panic msg)))"
proof -
  note defs = makeMethodHandler_def call_method_result call_panic_def value_type_def documented_form_def
  note splits = prod.splits outcome.splits option.splits result.splits
  show ?thesis
  proof (cases kind)
    case rpcMethodArgsOnly
    then show ?thesis
      using assms(2,3) methodKind_In(1) [of "rf_protoMsgType rf" "m_In m" "m_Out m"]
      by (cases "rq_Args req = INil") (auto simp: defs call_method_def split: splits)
  next
    case rpcMethodCtxArgs
    then show ?thesis
      using assms(2,3) methodKind_In(2) [of "rf_protoMsgType rf" "m_In m" "m_Out m"] ctx_assignable [OF assms(1), of ctx]
      by (cases "rq_Args req = INil") (auto simp: defs call_method_def split: splits)
  next
    case rpcMethodTyped
    have ins: "tl (m_In m) = [ctxType, m_In m ! 2]" "Implements (m_In m ! 2) (rf_protoMsgType rf)"
      using assms(2,3) rpcMethodTyped methodKind_In(3) [of "rf_protoMsgType rf" "m_In m" "m_Out m"]
      by (auto simp: documented_form_def)
    obtain el where el: "rt_Elem (m_In m ! 2) = Some el"
      using assms(3) rpcMethodTyped by (auto simp: documented_form_def)
    then obtain z where "rf_New rf el = IProto z"
      using assms(1) ins(2) unfolding reflection_ok_def by blast
    then show ?thesis
      using assms(3) rpcMethodTyped ins ctx_assignable [OF assms(1), of ctx] el
      by (auto simp: defs callTypedMethod_def Let_def split: splits)
  qed
qed

definition sample_msgType :: rtype where
  "sample_msgType = RType ''proto.Message'' KInterface None [(''ProtoReflect'', ''func() protoreflect.Message'')]"

definition sample_ptrType :: rtype where
  "sample_ptrType = RType ''*pb.Req'' KPtr (Some (RType ''pb.Req'' KStruct None [])) [(''ProtoReflect'', ''func() protoreflect.Message'')]"

definition sample_reflection :: "(unit, unit, unit) reflection" where
  "sample_reflection = \<lparr>rf_ctx = (\<lambda>_. ctxType), rf_TypeOf = (\<lambda>_. emptyIface), rf_protoMsgType = sample_msgType,
     rf_New = (\<lambda>_. IProto ())\<rparr>"

text \<open>A typed method, one that takes its argument as \<open>any\<close>, and one that is no RPC method.\<close>

definition sample_method :: "string \<Rightarrow> rtype list \<Rightarrow> rtype list \<Rightarrow> (unit, unit, unit, nat) Method" where
  "sample_method name ins outs = \<lparr>m_Name = name, m_PkgPath = [], m_In = ins, m_Out = outs,
     m_Func = (\<lambda>_ arg n. (n + 1, Ret arg None))\<rparr>"

definition sample_methods :: "(unit, unit, unit, nat) Method list" where
  "sample_methods =
     [sample_method ''Echo'' [sample_ptrType, ctxType, sample_ptrType] [sample_ptrType, errType],
      sample_method ''Any'' [sample_ptrType, emptyIface] [emptyIface, errType],
      sample_method ''Name'' [sample_ptrType] [emptyIface]]"

lemmas sample_defs = sample_msgType_def sample_ptrType_def sample_reflection_def sample_method_def sample_methods_def
  errType_def ctxType_def emptyIface_def

lemma sample_reflection_ok: "reflection_ok sample_reflection"
  by (simp add: reflection_ok_def sample_reflection_def Implements_def list.pred_set)


theorem reflected_call_safe_witness:
  "makeMethodHandler sample_reflection sample_lib (sample_methods ! 1) rpcMethodArgsOnly () sample_request 0
     = (0, Panic ''reflect: Call using zero Value argument'')"
proof -
  have "methodKind (rf_protoMsgType sample_reflection) (m_In (sample_methods ! 1)) (m_Out (sample_methods ! 1)) = Some rpcMethodArgsOnly"
    "documented_form (sample_methods ! 1) rpcMethodArgsOnly"
    by (simp_all add: methodKind_def Implements_def documented_form_def nilable_def sample_defs)
  from reflected_call_safe [OF sample_reflection_ok this, of sample_request sample_lib "()" 0] show ?thesis
    by (simp add: sample_request_def NewRequest_def)
qed

end
