(* ===== verification/Net_Address.thy ===== *)
theory Net_Address
  imports Service_Instance
begin

text \<open>
  What the server uses of \<open>net\<close> and \<open>strconv\<close> to turn the address of its listener into the address and
  port of a service instance: \<open>net.SplitHostPort\<close> and \<open>strconv.Atoi\<close>.
\<close>

section \<open>Bytes in strings\<close>

definition IndexByte :: "char \<Rightarrow> string \<Rightarrow> nat option" where
  "IndexByte c s = (if c \<in> set s then Some (length (takeWhile (\<lambda>x. x \<noteq> c) s)) else None)"

definition LastIndexByte :: "char \<Rightarrow> string \<Rightarrow> nat option" where
  "LastIndexByte c s = map_option (\<lambda>i. length s - 1 - i) (IndexByte c (rev s))"

lemma IndexByte_None [simp]: "IndexByte c s = None \<longleftrightarrow> c \<notin> set s"
  by (simp add: IndexByte_def)

lemma IndexByte_append: "c \<notin> set xs \<Longrightarrow> IndexByte c (xs @ c # ys) = Some (length xs)"
  by (induction xs) (auto simp: IndexByte_def)

lemma LastIndexByte_append: "c \<notin> set ys \<Longrightarrow> LastIndexByte c (xs @ c # ys) = Some (length xs)"
  using IndexByte_append [of c "rev ys" "rev xs"] by (simp add: LastIndexByte_def)

section \<open>Hosts and ports\<close>

definition addrErr :: "string \<Rightarrow> string \<Rightarrow> 'a or_error" where
  "addrErr addr why = Inl (Errorf (''address '' @ addr @ '': '' @ why))"

definition split_tail :: "string \<Rightarrow> string \<Rightarrow> nat \<Rightarrow> nat \<Rightarrow> nat \<Rightarrow> (string \<times> string) or_error" where
  "split_tail hostport host i j k =
     (if CHR ''['' \<in> set (drop j hostport) then addrErr hostport ''unexpected '[' in address''
      else if CHR '']'' \<in> set (drop k hostport) then addrErr hostport ''unexpected ']' in address''
      else Inr (host, drop (i + 1) hostport))"

definition SplitHostPort :: "string \<Rightarrow> (string \<times> string) or_error" where
  "SplitHostPort hostport =
     (case LastIndexByte CHR '':'' hostport of
        None \<Rightarrow> addrErr hostport ''missing port in address''
      | Some i \<Rightarrow>
          if hd hostport = CHR ''['' then
            (case IndexByte CHR '']'' hostport of
               None \<Rightarrow> addrErr hostport ''missing ']' in address''
             | Some end' \<Rightarrow>
                 if end' + 1 = length hostport then addrErr hostport ''missing port in address''
                 else if end' + 1 = i then split_tail hostport (take (end' - 1) (drop 1 hostport)) i 1 (end' + 1)
                 else if hostport ! (end' + 1) = CHR '':'' then addrErr hostport ''too many colons in address''
                 else addrErr hostport ''missing port in address'')
          else if CHR '':'' \<in> set (take i hostport) then addrErr hostport ''too many colons in address''
          else split_tail hostport (take i hostport) i 0 0)"

text \<open>The dialler of a client splits the endpoint of an instance in the same way.\<close>

definition dialable :: "string \<Rightarrow> bool" where
  "dialable hostport \<longleftrightarrow> (case SplitHostPort hostport of Inl _ \<Rightarrow> False | Inr _ \<Rightarrow> True)"

section \<open>Numbers\<close>

definition is_digit :: "char \<Rightarrow> bool" where
  "is_digit c \<longleftrightarrow> 48 \<le> (of_char c :: nat) \<and> (of_char c :: nat) \<le> 57"

text \<open>\<open>quoted\<close> is the text as \<open>strconv.Quote\<close> prints it.\<close>

definition Atoi :: "(string \<Rightarrow> string) \<Rightarrow> string \<Rightarrow> int or_error" where
  "Atoi quoted s =
     (let neg = (s \<noteq> [] \<and> hd s = CHR ''-'');
          ds = (if s \<noteq> [] \<and> (hd s = CHR ''-'' \<or> hd s = CHR ''+'') then tl s else s);
          n = int (foldl (\<lambda>a c. 10 * a + digit_val c) 0 ds);
          v = (if neg then - n else n)
      in if ds = [] \<or> \<not> list_all is_digit ds
           then Inl (Errorf (''strconv.Atoi: parsing '' @ quoted s @ '': invalid syntax''))
         else if \<not> in64 v then Inl (Errorf (''strconv.Atoi: parsing '' @ quoted s @ '': value out of range''))
         else Inr v)"

section \<open>Round trips\<close>

lemma is_digit_digit_char: "d < 10 \<Longrightarrow> is_digit (digit_char d)"
  by (simp add: is_digit_def digit_char_def)

lemma nat_base_is_digit: "list_all is_digit (nat_base 10 n)"
proof (induction n rule: less_induct)
  case (less n)
  then show ?case
    by (cases "n < 10") (simp_all add: nat_base.simps [of 10 n] is_digit_digit_char)
qed

lemma nat_base_ne_Nil [simp]: "nat_base 10 n \<noteq> []"
  by (simp add: nat_base.simps [of 10 n])

lemma is_digit_not_sign: "is_digit c \<Longrightarrow> c \<noteq> CHR ''-'' \<and> c \<noteq> CHR ''+'' \<and> c \<noteq> CHR ''['' \<and> c \<noteq> CHR '']'' \<and> c \<noteq> CHR '':''"
  by (auto simp: is_digit_def)

lemma hd_nat_base: "is_digit (hd (nat_base 10 n))"
  using nat_base_is_digit [of n] nat_base_ne_Nil [of n] by (cases "nat_base 10 n") auto

lemma Atoi_fmt_d: "in64 i \<Longrightarrow> Atoi quoted (fmt_d i) = Inr i"
  using nat_base_is_digit [of "nat i"] nat_base_is_digit [of "nat (- i)"] is_digit_not_sign [OF hd_nat_base]
  by (auto simp: Atoi_def fmt_d_def Let_def nat_base_value)

lemma fmt_d_plain: "CHR ''['' \<notin> set (fmt_d i) \<and> CHR '']'' \<notin> set (fmt_d i)"
  using nat_base_is_digit [of "nat i"] nat_base_is_digit [of "nat (- i)"] is_digit_not_sign
  by (auto simp: fmt_d_def list.pred_set)

text \<open>A host without colon or bracket, as it is; any host without bracket, in brackets.\<close>

lemma SplitHostPort_plain:
  assumes "set host \<inter> {CHR '':'', CHR ''['', CHR '']''} = {}"
  shows "SplitHostPort (host @ '':'' @ fmt_d port) = Inr (host, fmt_d port)"
proof -
  have "hd (host @ '':'' @ fmt_d port) \<noteq> CHR ''[''"
    using assms by (cases host) auto
  then show ?thesis
    using assms fmt_d_plain [of port] LastIndexByte_append [OF fmt_d_no_colon, of host port]
    by (auto simp: SplitHostPort_def split_tail_def)
qed

lemma SplitHostPort_bracketed:
  assumes "set host \<inter> {CHR ''['', CHR '']''} = {}"
  shows "SplitHostPort (''['' @ host @ '']:'' @ fmt_d port) = Inr (host, fmt_d port)"
proof -
  let ?a = "''['' @ host @ '']:'' @ fmt_d port"
  have "LastIndexByte CHR '':'' ?a = Some (length host + 2)"
    using LastIndexByte_append [OF fmt_d_no_colon, of "''['' @ host @ '']''" port] by simp
  moreover have "IndexByte CHR '']'' ?a = Some (length host + 1)"
    using IndexByte_append [of "CHR '']''" "''['' @ host" "'':'' @ fmt_d port"] assms by simp
  ultimately show ?thesis
    using assms fmt_d_plain [of port] by (auto simp: SplitHostPort_def split_tail_def)
qed

text \<open>The endpoint of an instance whose address has a colon is not an address.\<close>

lemma Endpoint_dialable:
  assumes "set (si_Address si) \<inter> {CHR ''['', CHR '']''} = {}"
  shows "dialable (Endpoint si) \<longleftrightarrow> CHR '':'' \<notin> set (si_Address si)"
proof (cases "CHR '':'' \<in> set (si_Address si)")
  case True
  have "hd (Endpoint si) \<noteq> CHR ''[''"
    using assms by (cases "si_Address si") (auto simp: Endpoint_def)
  then show ?thesis
    using True LastIndexByte_append [OF fmt_d_no_colon, of "si_Address si" "si_Port si"]
    by (simp add: dialable_def SplitHostPort_def Endpoint_def addrErr_def)
next
  case False
  then show ?thesis
    using SplitHostPort_plain [of "si_Address si" "si_Port si"] assms by (simp add: dialable_def Endpoint_def)
qed

end
