(* ===== verification/Tracing.thy ===== *)
theory Tracing
  imports Interceptors
begin

text \<open>
  The tracing interceptors (\<open>pkg/interceptor/tracing.go\<close>) and the trace identifier that the logging
  interceptor prints (\<open>pkg/tracing/tracing.go\<close>). OpenTelemetry is the parameter \<open>tr\<close>. Both interceptors
  write to the request that their caller also holds: \<open>getR\<close> and \<open>putR\<close> are that request in the state.
\<close>

section \<open>The carrier\<close>

definition carrier_Get :: "Metadata \<Rightarrow> string \<Rightarrow> string" where
  "carrier_Get m key = fst (Metadata_Get m key)"

definition carrier_Set :: "Metadata \<Rightarrow> string \<Rightarrow> string \<Rightarrow> Metadata option" where
  "carrier_Set m key val = Metadata_Set m key val"

definition carrier_Keys :: "string list \<Rightarrow> Metadata \<Rightarrow> string list" where
  "carrier_Keys ks m = fold (\<lambda>k keys. keys @ [k]) ks []"

section \<open>Spans\<close>

text \<open>
  A context carries the current span. \<open>tr_Inject\<close> gives the entries that the propagator sets on its
  carrier, in this order; \<open>tr_Extract\<close> reads a carrier.
\<close>

record 'c tracer =
  tr_Start :: "'c \<Rightarrow> string \<Rightarrow> 'c"
  tr_SpanID :: "'c \<Rightarrow> string"
  tr_IsValid :: "'c \<Rightarrow> bool"
  tr_TraceID :: "'c \<Rightarrow> string"
  tr_Inject :: "'c \<Rightarrow> (string \<times> string) list"
  tr_Extract :: "'c \<Rightarrow> (string \<Rightarrow> string) \<Rightarrow> 'c"

record span =
  sp_name :: string
  sp_attributes :: "(string \<times> string) list"
  sp_error :: "go_error option"
  sp_status :: "string option"

definition TraceID :: "'c tracer \<Rightarrow> 'c \<Rightarrow> string" where
  "TraceID tr ctx = (if \<not> tr_IsValid tr ctx then [] else tr_TraceID tr ctx)"

fun inject_all :: "(string \<times> string) list \<Rightarrow> Metadata \<Rightarrow> Metadata option" where
  "inject_all [] m = Some m"
| "inject_all ((k, v) # kvs) m = Option.bind (carrier_Set m k v) (inject_all kvs)"

text \<open>The span that ends with the call; a panic ends it as well, before its outcome is recorded.\<close>

definition ended_span :: "string \<Rightarrow> ('m, 'v) Request \<Rightarrow> ('m, 'v) outcome \<Rightarrow> span" where
  "ended_span name req r =
     \<lparr>sp_name = name, sp_attributes = [(''rpc.service'', rq_Service req), (''rpc.method'', rq_Method req)],
      sp_error = (case r of Ret _ err \<Rightarrow> err | Panic _ \<Rightarrow> None),
      sp_status = (case r of Ret _ (Some err) \<Rightarrow> Some (error_msg err) | _ \<Rightarrow> None)\<rparr>"

definition TracingClient ::
    "'c tracer \<Rightarrow> ('s \<Rightarrow> span list) \<Rightarrow> (span list \<Rightarrow> 's \<Rightarrow> 's) \<Rightarrow> (('m, 'v) Request \<Rightarrow> 's \<Rightarrow> 's) \<Rightarrow> ('c, 'm, 'v, 's) interceptor" where
  "TracingClient tr get put putR ctx req invoker s =
     (let name = ''rpc.client/'' @ rq_Service req @ ''/'' @ rq_Method req; ctx1 = tr_Start tr ctx name in
      case (case inject_all (tr_Inject tr ctx1) (rq_Metadata req) of
          None \<Rightarrow> (s, Panic ''assignment to entry in nil map'')
        | Some md \<Rightarrow> (let req1 = req\<lparr>rq_Metadata := md\<rparr> in invoker ctx1 req1 (putR req1 s))) of
        (s1, r) \<Rightarrow> (put (get s1 @ [ended_span name req r]) s1, r))"

definition TracingServer ::
    "'c tracer \<Rightarrow> ('s \<Rightarrow> span list) \<Rightarrow> (span list \<Rightarrow> 's \<Rightarrow> 's) \<Rightarrow> (('m, 'v) Request \<Rightarrow> 's \<Rightarrow> 's) \<Rightarrow> ('c, 'm, 'v, 's) interceptor" where
  "TracingServer tr get put putR ctx req invoker s =
     (let name = ''rpc.server/'' @ rq_Service req @ ''/'' @ rq_Method req;
          ctx0 = tr_Extract tr ctx (carrier_Get (rq_Metadata req));
          ctx1 = tr_Start tr ctx0 name;
          req1 = Request_SetMetadata MetaKeySpanID (tr_SpanID tr ctx1) req in
      case invoker ctx1 req1 (putR req1 s) of
        (s1, r) \<Rightarrow> (put (get s1 @ [ended_span name req r]) s1, r))"

section \<open>Propagation\<close>

text \<open>
  Whatever the client's propagator sets, on metadata that are not nil, reaches a server's propagator
  that reads the same metadata; the last value set for a key counts.
\<close>

lemma inject_all_Some: "inject_all kvs (Some m) = Some (Some (m ++ map_of (rev kvs)))"
  by (induction kvs arbitrary: m) (auto simp: carrier_Set_def Metadata_Set_def map_add_def fun_eq_iff split: option.splits)

lemma inject_extract:
  "\<exists>md. inject_all kvs (Some m) = Some md \<and>
     carrier_Get md k = (case map_of (rev kvs) k of Some v \<Rightarrow> v | None \<Rightarrow> carrier_Get (Some m) k)"
  by (auto simp: inject_all_Some carrier_Get_def Metadata_Get_def md_map_def map_add_def split: option.splits)

lemma TracingServer_sets_span:
  assumes "\<And>r s. getR (putR r s) = r" and "\<And>x s. getR (put x s) = getR s"
    and "\<And>ctx req s. getR (fst (invoker ctx req s)) = getR s"
  shows "Request_GetMetadata (getR (fst (TracingServer tr get put putR ctx req invoker s))) MetaKeySpanID =
    (tr_SpanID tr (tr_Start tr (tr_Extract tr ctx (carrier_Get (rq_Metadata req)))
       (''rpc.server/'' @ rq_Service req @ ''/'' @ rq_Method req)), True)"
  using assms(3) by (auto simp: TracingServer_def Let_def assms(1,2) split: prod.splits) (metis assms(1) fst_conv Request_metadata_lookup)

end
