(* ===== verification/RPC_Server.thy ===== *)
theory RPC_Server
  imports Service_Registry Net_Address Memory_Registry TCP_Server Tracing
begin

text \<open>
  The high-level server: its options (\<open>pkg/server/options.go\<close>), and its construction, request handling
  and registry integration (\<open>pkg/server/server.go\<close>). A registry is a value of the interface of
  \<open>pkg/registry/registry.go\<close>: a record of operations on the state \<open>'w\<close> behind it.
\<close>

named_theorems server_defs \<open>the options and operations of the server\<close>

section \<open>The registry interface\<close>

text \<open>
  An instance is passed by pointer: its address and what it points to. The operations that read the
  clock are given the time. \<open>None\<close> is a panic.
\<close>

record 'w Registry_iface =
  rg_Register :: "nat \<Rightarrow> ServiceInstance \<Rightarrow> 'w \<Rightarrow> ('w \<times> go_error option) option"
  rg_Deregister :: "string \<Rightarrow> string \<Rightarrow> 'w \<Rightarrow> ('w \<times> go_error option) option"
  rg_Update :: "instant \<Rightarrow> nat \<Rightarrow> ServiceInstance \<Rightarrow> 'w \<Rightarrow> ('w \<times> go_error option) option"
  rg_Heartbeat :: "instant \<Rightarrow> string \<Rightarrow> string \<Rightarrow> 'w \<Rightarrow> ('w \<times> go_error option) option"
  rg_Close :: "'w \<Rightarrow> ('w \<times> go_error option) option"

definition at_address :: "nat \<Rightarrow> ServiceInstance \<Rightarrow> Registry \<Rightarrow> Registry" where
  "at_address p inst r = r\<lparr>mr_heap := (mr_heap r)(p := inst)\<rparr>"

text \<open>The in-memory registry as a value of the interface; \<open>services\<close> is the order \<open>Close\<close> visits.\<close>

definition memory_iface :: "string list \<Rightarrow> Registry Registry_iface" where
  "memory_iface services =
     \<lparr>rg_Register = (\<lambda>p inst r. Register p (at_address p inst r)), rg_Deregister = Deregister,
      rg_Update = (\<lambda>now p inst r. Registry_Update now p (at_address p inst r)), rg_Heartbeat = Heartbeat,
      rg_Close = (\<lambda>r. map_option (\<lambda>r'. (r', None)) (Registry_Close services r))\<rparr>"

section \<open>Options\<close>

record ('c, 'm, 'v, 's, 'w, 'l) serverOptions =
  so_address :: string
  so_codecType :: byte
  so_compressType :: byte
  so_readTimeout :: duration
  so_writeTimeout :: duration
  so_handlerTimeout :: duration
  so_maxConcurrent :: int
  so_workerPoolSize :: int
  so_transportOptions :: "ServerOption list"
  so_interceptors :: "('c, 'm, 'v, 's) interceptor list"
  so_logger :: "'l option"
  so_serviceName :: string
  so_serviceVersion :: string
  so_registry :: "'w Registry_iface option"
  so_enableRegistry :: bool
  so_heartbeatInterval :: duration

definition defaultServerOptions :: "('c, 'm, 'v, 's, 'w, 'l) serverOptions" where
  [server_defs]: "defaultServerOptions =
     \<lparr>so_address = '':8080'', so_codecType = CodecTypeJSON, so_compressType = CompressTypeNone,
      so_readTimeout = 10 * Second, so_writeTimeout = 10 * Second, so_handlerTimeout = 0,
      so_maxConcurrent = 0, so_workerPoolSize = 8, so_transportOptions = [], so_interceptors = [], so_logger = None,
      so_serviceName = [], so_serviceVersion = [], so_registry = None,
      so_enableRegistry = False, so_heartbeatInterval = 5 * Second\<rparr>"

type_synonym ('c, 'm, 'v, 's, 'w, 'l) server_Option =
  "('c, 'm, 'v, 's, 'w, 'l) serverOptions \<Rightarrow> ('c, 'm, 'v, 's, 'w, 'l) serverOptions"

definition server_WithAddress :: "string \<Rightarrow> ('c, 'm, 'v, 's, 'w, 'l) server_Option" where
  [server_defs]: "server_WithAddress addr opts = opts\<lparr>so_address := addr\<rparr>"

definition server_WithCodec :: "byte \<Rightarrow> byte \<Rightarrow> ('c, 'm, 'v, 's, 'w, 'l) server_Option" where
  [server_defs]: "server_WithCodec codec compress opts = opts\<lparr>so_codecType := codec, so_compressType := compress\<rparr>"

definition server_WithTimeout :: "duration \<Rightarrow> duration \<Rightarrow> ('c, 'm, 'v, 's, 'w, 'l) server_Option" where
  [server_defs]: "server_WithTimeout rd wr opts = opts\<lparr>so_readTimeout := rd, so_writeTimeout := wr\<rparr>"

definition server_WithHandlerTimeout :: "duration \<Rightarrow> ('c, 'm, 'v, 's, 'w, 'l) server_Option" where
  [server_defs]: "server_WithHandlerTimeout timeout opts = opts\<lparr>so_handlerTimeout := timeout\<rparr>"

definition WithTransportOptions :: "ServerOption list \<Rightarrow> ('c, 'm, 'v, 's, 'w, 'l) server_Option" where
  [server_defs]: "WithTransportOptions tos opts = opts\<lparr>so_transportOptions := so_transportOptions opts @ tos\<rparr>"

definition WithConcurrency :: "int \<Rightarrow> int \<Rightarrow> ('c, 'm, 'v, 's, 'w, 'l) server_Option" where
  [server_defs]: "WithConcurrency maxConcurrent workerPoolSize opts =
     opts\<lparr>so_maxConcurrent := maxConcurrent, so_workerPoolSize := workerPoolSize\<rparr>"

definition WithRegistry :: "string \<Rightarrow> string \<Rightarrow> 'w Registry_iface option \<Rightarrow> ('c, 'm, 'v, 's, 'w, 'l) server_Option" where
  [server_defs]: "WithRegistry serviceName version reg opts =
     opts\<lparr>so_serviceName := serviceName, so_serviceVersion := version, so_registry := reg, so_enableRegistry := True\<rparr>"

definition WithHeartbeatInterval :: "duration \<Rightarrow> ('c, 'm, 'v, 's, 'w, 'l) server_Option" where
  [server_defs]: "WithHeartbeatInterval interval opts = opts\<lparr>so_heartbeatInterval := interval\<rparr>"

definition WithInterceptors :: "('c, 'm, 'v, 's) interceptor list \<Rightarrow> ('c, 'm, 'v, 's, 'w, 'l) server_Option" where
  [server_defs]: "WithInterceptors is opts = opts\<lparr>so_interceptors := so_interceptors opts @ is\<rparr>"

text \<open>\<open>limiting\<close> is \<open>interceptor.RateLimit(limiter)\<close> for the limiter given.\<close>

definition server_WithRateLimit :: "('c, 'm, 'v, 's) interceptor \<Rightarrow> ('c, 'm, 'v, 's, 'w, 'l) server_Option" where
  [server_defs]: "server_WithRateLimit limiting opts = opts\<lparr>so_interceptors := limiting # so_interceptors opts\<rparr>"

definition WithLogger :: "'l option \<Rightarrow> ('c, 'm, 'v, 's, 'w, 'l) server_Option" where
  [server_defs]: "WithLogger l opts = opts\<lparr>so_logger := l\<rparr>"

section \<open>The server\<close>

text \<open>
  \<open>rs_stopHeartbeat\<close> is the channel, \<open>rs_stopOnce\<close> whether the \<open>sync.Once\<close> has run. Of the instance the
  server only reads the ID after registration; no registry changes it.
\<close>

record ('c, 'm, 'v, 's, 'w, 'l) Server =
  srv_opts :: "('c, 'm, 'v, 's, 'w, 'l) serverOptions"
  srv_registry :: "('c, 'm, 'v, 's) ServiceRegistry"
  srv_Transport :: "('m, 'v) tcp_Server"
  srv_codec :: "('m, 'v) Codec option"
  srv_log :: 'l
  srv_serviceInstance :: "ServiceInstance option"
  srv_stopHeartbeat :: "unit chan"
  srv_stopOnce :: bool
  srv_interceptors :: "('c, 'm, 'v, 's) interceptor list"

definition transport_opts :: "('c, 'm, 'v, 's, 'w, 'l) serverOptions \<Rightarrow> ServerOption list" where
  "transport_opts options =
     [WithServerTimeout (so_readTimeout options) (so_writeTimeout options),
      WithHandlerTimeout (so_handlerTimeout options),
      WithWorkerPool (so_workerPoolSize options),
      WithMaxConcurrentRequests (so_maxConcurrent options)] @ so_transportOptions options"

definition NewServer ::
    "('m, 'v) Codec registry \<Rightarrow> Compressor registry \<Rightarrow> 'l \<Rightarrow> ('c, 'm, 'v, 's, 'w, 'l) server_Option list
     \<Rightarrow> ('c, 'm, 'v, 's, 'w, 'l) Server" where
  "NewServer codecs comps newLogger opts =
     (let options = apply_options opts defaultServerOptions in
      \<lparr>srv_opts = options, srv_registry = newServiceRegistry,
       srv_Transport = tcp_NewServer codecs comps (so_codecType options) (so_compressType options) (transport_opts options),
       srv_codec = codec_Get (so_codecType options) codecs,
       srv_log = (case so_logger options of None \<Rightarrow> newLogger | Some l \<Rightarrow> l),
       srv_serviceInstance = None, srv_stopHeartbeat = make_chan 0, srv_stopOnce = False,
       srv_interceptors = so_interceptors options\<rparr>)"

definition Server_RegisterMethod ::
    "string \<Rightarrow> string \<Rightarrow> ('c, 'm, 'v, 's) MethodHandler \<Rightarrow> ('c, 'm, 'v, 's, 'w, 'l) Server \<Rightarrow> ('c, 'm, 'v, 's, 'w, 'l) Server \<times> go_error option" where
  "Server_RegisterMethod service meth handler srv =
     (case RegisterMethod service meth handler (srv_registry srv) of (sr, err) \<Rightarrow> (srv\<lparr>srv_registry := sr\<rparr>, err))"

definition Server_RegisterService ::
    "('c, 'm, 'v) reflection \<Rightarrow> ('m, 'v) lib \<Rightarrow> (string \<Rightarrow> string) \<Rightarrow> string \<Rightarrow> ('c, 'm, 'v, 's) impl
     \<Rightarrow> ('c, 'm, 'v, 's, 'w, 'l) Server \<Rightarrow> ('c, 'm, 'v, 's, 'w, 'l) Server \<times> go_error option" where
  "Server_RegisterService rf lib quoted serviceName serviceImpl srv =
     (case RegisterService rf lib quoted serviceName serviceImpl (srv_registry srv) of (sr, err) \<Rightarrow> (srv\<lparr>srv_registry := sr\<rparr>, err))"

definition Server_Use :: "('c, 'm, 'v, 's) interceptor list \<Rightarrow> ('c, 'm, 'v, 's, 'w, 'l) Server \<Rightarrow> ('c, 'm, 'v, 's, 'w, 'l) Server" where
  "Server_Use is srv = srv\<lparr>srv_interceptors := srv_interceptors srv @ is\<rparr>"

section \<open>Requests\<close>

definition dispatch :: "('c, 'm, 'v, 's) ServiceRegistry \<Rightarrow> ('c, 'm, 'v, 's) invoker" where
  "dispatch sr ctx request s =
     (case GetHandler (rq_Service request) (rq_Method request) sr of
        Inl err \<Rightarrow> (s, Ret INil (Some (Wrapped ''get handler: '' err [])))
      | Inr handler \<Rightarrow> handler ctx request s)"

text \<open>
  The request is shared with the interceptors, which may write to it: \<open>getR\<close> and \<open>putR\<close> are the
  request in the state. \<open>RPanic\<close> is a panic that no interceptor recovered.
\<close>

definition HandleRequest ::
    "('s \<Rightarrow> ('m, 'v) Request) \<Rightarrow> (('m, 'v) Request \<Rightarrow> 's \<Rightarrow> 's) \<Rightarrow> instant \<Rightarrow> ('c, 'm, 'v, 's, 'w, 'l) Server
     \<Rightarrow> 'c \<Rightarrow> ('m, 'v) Request \<Rightarrow> 's \<Rightarrow> 's \<times> ('m, 'v) Response result" where
  "HandleRequest getR putR now srv ctx req s =
     (case Intercept (NewChain (srv_interceptors srv)) ctx req (dispatch (srv_registry srv)) (putR req s) of
        (s1, Panic msg) \<Rightarrow> (s1, RPanic)
      | (s1, Ret res (Some err)) \<Rightarrow>
          (case mapError err (rq_Service (getR s1)) (rq_Method (getR s1)) of
             (code, msg) \<Rightarrow> (s1, Ok (NewErrorResponse now (rq_ID (getR s1)) (Some (NewError code msg)))))
      | (s1, Ret res None) \<Rightarrow>
          (let resp = NewSuccessResponse now (rq_ID (getR s1)) res in
           case Request_GetMetadata (getR s1) MetaKeySpanID of
             (spanID, present) \<Rightarrow>
               (s1, Ok (if present \<and> spanID \<noteq> [] then Response_SetMetadata MetaKeySpanID spanID resp else resp))))"

definition Server_Addr :: "('c, 'm, 'v, 's, 'w, 'l) Server \<Rightarrow> string" where
  "Server_Addr srv = (case srv_Addr (srv_Transport srv) of Some a \<Rightarrow> a | None \<Rightarrow> [])"

section \<open>Registration and heartbeats\<close>

text \<open>The clock is read three times for the instance; \<open>p\<close> is the address of the new instance.\<close>

definition registerService ::
    "(string \<Rightarrow> string) \<Rightarrow> instant \<times> instant \<times> instant \<Rightarrow> nat \<Rightarrow> ('c, 'm, 'v, 's, 'w, 'l) Server \<Rightarrow> 'w
     \<Rightarrow> (('c, 'm, 'v, 's, 'w, 'l) Server \<times> 'w \<times> go_error option) option" where
  "registerService quoted clock p srv w =
     (case srv_Addr (srv_Transport srv) of
        None \<Rightarrow> None
      | Some addr \<Rightarrow>
          (case SplitHostPort addr of
             Inl err \<Rightarrow> Some (srv, w, Some (Wrapped ''invalid address format: '' err []))
           | Inr (host, portStr) \<Rightarrow>
               (case Atoi quoted portStr of
                  Inl err \<Rightarrow> Some (srv, w, Some (Wrapped (''invalid port '' @ quoted portStr @ '': '') err []))
                | Inr port \<Rightarrow>
                    (case clock of (t1, t2, t3) \<Rightarrow>
                     let opts = srv_opts srv;
                         inst = NewServiceInstance t1 t2 t3 (so_serviceName opts) host port;
                         inst = (if so_serviceVersion opts \<noteq> [] then inst\<lparr>si_Version := so_serviceVersion opts\<rparr> else inst);
                         srv = srv\<lparr>srv_serviceInstance := Some inst\<rparr> in
                     Option.bind (so_registry opts) (\<lambda>reg.
                       map_option (\<lambda>(w', err). (srv, w', map_option (\<lambda>e. Wrapped ''register to registry: '' e []) err))
                         (rg_Register reg p inst w))))))"

text \<open>
  What the heartbeat goroutine meets in its \<open>select\<close>: the stop channel, or a tick at a time of the
  clock. \<open>hb_loop\<close> gives the error it returns, or \<open>HbRuns\<close> while it waits for more.
\<close>

datatype hb_event = HbStop | HbTick instant
datatype hb_result = HbRuns | HbRet "go_error option"

fun hb_loop ::
    "('c, 'm, 'v, 's, 'w, 'l) Server \<Rightarrow> hb_event list \<Rightarrow> 'w \<Rightarrow> ('w \<times> hb_result) option" where
  "hb_loop srv [] w = Some (w, HbRuns)"
| "hb_loop srv (HbStop # evs) w = Some (w, HbRet None)"
| "hb_loop srv (HbTick now # evs) w =
     Option.bind (so_registry (srv_opts srv)) (\<lambda>reg. Option.bind (srv_serviceInstance srv) (\<lambda>inst.
       Option.bind (rg_Heartbeat reg now (so_serviceName (srv_opts srv)) (si_ID inst) w) (\<lambda>(w', err).
         case err of
           Some e \<Rightarrow> Some (w', HbRet (Some (Wrapped ''heartbeat failed: '' e [])))
         | None \<Rightarrow> hb_loop srv evs w')))"

text \<open>\<open>time.NewTicker\<close> panics on an interval that is not positive.\<close>

definition startHeartbeat ::
    "('c, 'm, 'v, 's, 'w, 'l) Server \<Rightarrow> hb_event list \<Rightarrow> 'w \<Rightarrow> ('w \<times> hb_result) option" where
  "startHeartbeat srv evs w = (if so_heartbeatInterval (srv_opts srv) \<le> 0 then None else hb_loop srv evs w)"

text \<open>
  \<open>Start\<close> up to the accept loop: whether the heartbeat goroutine was started, and the error, if any,
  that it returns without serving.
\<close>

definition Start ::
    "(string \<Rightarrow> string) \<Rightarrow> string or_error \<Rightarrow> instant \<times> instant \<times> instant \<Rightarrow> nat \<Rightarrow> ('c, 'm, 'v, 's, 'w, 'l) Server \<Rightarrow> 'w
     \<Rightarrow> (('c, 'm, 'v, 's, 'w, 'l) Server \<times> 'w \<times> bool \<times> go_error option) option" where
  "Start quoted bound clock p srv w =
     (case srv_Listen bound (so_address (srv_opts srv)) (srv_Transport srv) of
        (t, Some err) \<Rightarrow> Some (srv\<lparr>srv_Transport := t\<rparr>, w, False, Some (Wrapped ''failed to listen tcp transport: '' err []))
      | (t, None) \<Rightarrow>
          (let srv = srv\<lparr>srv_Transport := t\<rparr>; opts = srv_opts srv;
               serve = (\<lambda>hb srv w. case serve_begin (srv_Transport srv) of (t', err) \<Rightarrow> Some (srv\<lparr>srv_Transport := t'\<rparr>, w, hb, err)) in
           if so_enableRegistry opts \<and> so_registry opts \<noteq> None then
             Option.bind (registerService quoted clock p srv w) (\<lambda>(srv, w, err).
               case err of
                 Some e \<Rightarrow> Some (srv, w, False, Some (Errorf (''register service: '' @ error_msg e)))
               | None \<Rightarrow> serve True srv w)
           else serve False srv w))"

text \<open>\<open>Stop\<close> up to the closing of the transport: whether it goes on to it, and the error if it does not.\<close>

definition Stop ::
    "('c, 'm, 'v, 's, 'w, 'l) Server \<Rightarrow> 'w \<Rightarrow> (('c, 'm, 'v, 's, 'w, 'l) Server \<times> 'w \<times> go_error option \<times> bool) option" where
  "Stop srv w =
     Option.bind (if srv_stopOnce srv then Some srv
         else map_option (\<lambda>ch. srv\<lparr>srv_stopHeartbeat := ch, srv_stopOnce := True\<rparr>) (close_chan (srv_stopHeartbeat srv))) (\<lambda>srv.
       (case (so_enableRegistry (srv_opts srv), so_registry (srv_opts srv), srv_serviceInstance srv) of
          (True, Some reg, Some inst) \<Rightarrow>
            map_option (\<lambda>(w', err). case err of
                Some e \<Rightarrow> (srv, w', Some (Wrapped ''deregister from registry: '' e []), False)
              | None \<Rightarrow> (srv, w', None, True))
              (rg_Deregister reg (so_serviceName (srv_opts srv)) (si_ID inst) w)
        | _ \<Rightarrow> Some (srv, w, None, True)))"

section \<open>What a registry promises its server\<close>

text \<open>
  The contract of a registry backend, over the instances it holds: registering a new instance adds
  it, a heartbeat for an instance that is there succeeds and leaves its identity and its endpoint, a
  deregistration removes it; and an unknown ID is an error.
\<close>

locale registry_backend =
  fixes reg :: "'w Registry_iface"
    and registered :: "'w \<Rightarrow> string \<rightharpoonup> ServiceInstance"
    and healthy :: "'w \<Rightarrow> bool"
    and unused :: "nat \<Rightarrow> 'w \<Rightarrow> bool"
  assumes register_ok: "healthy w \<Longrightarrow> unused p w \<Longrightarrow>
      \<exists>w'. rg_Register reg p inst w = Some (w', None) \<and> healthy w' \<and> registered w' = (registered w)(si_ID inst \<mapsto> inst)"
    and heartbeat_ok: "healthy w \<Longrightarrow> registered w i = Some inst \<Longrightarrow>
      \<exists>w' inst'. rg_Heartbeat reg now service i w = Some (w', None) \<and> healthy w' \<and> registered w' i = Some inst'
        \<and> si_ID inst' = si_ID inst \<and> si_Service inst' = si_Service inst \<and> Endpoint inst' = Endpoint inst"
    and deregister_ok: "healthy w \<Longrightarrow> registered w i \<noteq> None \<Longrightarrow>
      \<exists>w'. rg_Deregister reg service i w = Some (w', None) \<and> healthy w' \<and> registered w' = (registered w)(i := None)"
    and deregister_missing: "healthy w \<Longrightarrow> registered w i = None \<Longrightarrow>
      \<exists>w' e. rg_Deregister reg service i w = Some (w', Some e) \<and> healthy w' \<and> registered w' = registered w"
begin

lemma heartbeats_keep:
  assumes "so_registry (srv_opts srv) = Some reg" and "srv_serviceInstance srv = Some inst"
    and "healthy w" and "registered w (si_ID inst) = Some inst0"
  shows "\<exists>w' inst'. hb_loop srv (map HbTick ts) w = Some (w', HbRuns) \<and> healthy w'
    \<and> registered w' (si_ID inst) = Some inst' \<and> Endpoint inst' = Endpoint inst0 \<and> si_Service inst' = si_Service inst0"
  using assms
proof (induction ts arbitrary: w inst0)
  case (Cons t ts)
  obtain w1 inst1 where "rg_Heartbeat reg t (so_serviceName (srv_opts srv)) (si_ID inst) w = Some (w1, None)" "healthy w1"
    "registered w1 (si_ID inst) = Some inst1" "si_Service inst1 = si_Service inst0" "Endpoint inst1 = Endpoint inst0"
    using heartbeat_ok [OF Cons.prems(3,4)] by blast
  then show ?case
    using Cons.IH [of w1 inst1] Cons.prems(1,2) by simp
qed simp

lemma stop_deregisters:
  assumes "so_enableRegistry (srv_opts srv)" and "so_registry (srv_opts srv) = Some reg" and "srv_serviceInstance srv = Some inst"
    and "\<not> srv_stopOnce srv" and "\<not> chan_closed (srv_stopHeartbeat srv)" and "healthy w" and "registered w (si_ID inst) \<noteq> None"
  shows "\<exists>srv' w'. Stop srv w = Some (srv', w', None, True) \<and> healthy w' \<and> registered w' = (registered w)(si_ID inst := None)
    \<and> chan_closed (srv_stopHeartbeat srv') \<and> (\<exists>w'' e. Stop srv' w' = Some (srv', w'', Some e, False))"
proof -
  obtain w1 where w1: "rg_Deregister reg (so_serviceName (srv_opts srv)) (si_ID inst) w = Some (w1, None)" "healthy w1"
    "registered w1 = (registered w)(si_ID inst := None)"
    using deregister_ok [OF assms(6,7)] by blast
  then obtain w2 e where "rg_Deregister reg (so_serviceName (srv_opts srv)) (si_ID inst) w1 = Some (w2, Some e)"
    using deregister_missing [of w1 "si_ID inst" "so_serviceName (srv_opts srv)"] by auto
  then show ?thesis
    using assms w1 by (auto simp: Stop_def close_chan_def)
qed

end

definition mem_registered :: "Registry \<Rightarrow> string \<rightharpoonup> ServiceInstance" where
  "mem_registered r i = map_option (mr_heap r) (mr_instances r i)"

definition mem_healthy :: "Registry \<Rightarrow> bool" where
  "mem_healthy r \<longleftrightarrow> mr_wf r \<and> mr_open r"

definition mem_unused :: "nat \<Rightarrow> Registry \<Rightarrow> bool" where
  "mem_unused p r \<longleftrightarrow> p \<notin> ran (mr_instances r)"

lemma mr_wf_delete: "mr_wf r \<Longrightarrow> mr_wf (r\<lparr>mr_instances := (mr_instances r)(i := None)\<rparr>)"
  by (auto simp: mr_wf_def)

lemma mr_wf_insert_new:
  "mr_wf r \<Longrightarrow> mem_unused p r \<Longrightarrow>
   mr_wf (r\<lparr>mr_heap := (mr_heap r)(p := inst), mr_instances := (mr_instances r)(si_ID inst \<mapsto> p)\<rparr>)"
  by (auto simp: mr_wf_def mem_unused_def ran_def)

lemma mr_open_simps [simp]: "mr_open (r\<lparr>mr_instances := m\<rparr>) \<longleftrightarrow> mr_open r" "mr_open (r\<lparr>mr_heap := h\<rparr>) \<longleftrightarrow> mr_open r"
  "mr_open (r\<lparr>mr_heap := h, mr_instances := m\<rparr>) \<longleftrightarrow> mr_open r"
  by (simp_all add: mr_open_def)

lemma mem_publish:
  assumes "mr_wf r" and "mr_open r"
  shows "\<exists>r'. notify sv ev r = Some r' \<and> mem_healthy r' \<and> mem_registered r' = mem_registered r"
proof -
  obtain chs where "notify sv ev r = Some (r\<lparr>mr_chans := chs\<rparr>)" "mr_wf (r\<lparr>mr_chans := chs\<rparr>)" "mr_open (r\<lparr>mr_chans := chs\<rparr>)"
    by (rule notify_effect [OF assms, of sv ev]) blast
  then show ?thesis
    by (auto simp: mem_healthy_def mem_registered_def fun_eq_iff)
qed

interpretation memory_backend: registry_backend "memory_iface services" mem_registered mem_healthy mem_unused
  for services
proof (unfold_locales, goal_cases)
  case (1 r p inst)
  let ?r = "r\<lparr>mr_heap := (mr_heap r)(p := inst), mr_instances := (mr_instances r)(si_ID inst \<mapsto> p)\<rparr>"
  have "mem_registered ?r = (mem_registered r)(si_ID inst \<mapsto> inst)"
    using 1(2) by (auto simp: mem_registered_def mem_unused_def ran_def fun_eq_iff map_option_case split: option.splits)
  then show ?case
    using 1 mem_publish [of ?r "si_Service inst" "\<lparr>ev_Type = EventTypeAdd, ev_Instance = p\<rparr>"] mr_wf_insert_new [of r p inst]
    by (auto simp: memory_iface_def Register_def at_address_def mem_healthy_def)
next
  case (2 r i inst now service)
  then obtain q where q: "mr_instances r i = Some q" "inst = mr_heap r q"
    by (auto simp: mem_registered_def)
  then have "rg_Heartbeat (memory_iface services) now service i r = Some (touch now q r, None)"
    by (simp add: memory_iface_def Heartbeat_def)
  moreover have "mem_registered (touch now q r) i = Some (inst\<lparr>si_UpdateTime := now\<rparr>)"
    using q by (simp add: mem_registered_def touch_def)
  moreover have "mem_healthy (touch now q r)"
    using 2(1) by (simp add: mem_healthy_def)
  ultimately show ?case
    by (intro exI [of _ "touch now q r"] exI [of _ "inst\<lparr>si_UpdateTime := now\<rparr>"]) (simp add: Endpoint_def)
next
  case (3 r i service)
  then obtain q where q: "mr_instances r i = Some q"
    by (auto simp: mem_registered_def)
  let ?r = "r\<lparr>mr_instances := (mr_instances r)(i := None)\<rparr>"
  obtain r' where "notify (si_Service (mr_heap r q)) \<lparr>ev_Type = EventTypeDelete, ev_Instance = q\<rparr> ?r = Some r'"
    "mem_healthy r'" "mem_registered r' = mem_registered ?r"
    using mem_publish [of ?r] mr_wf_delete [of r i] 3(1) by (auto simp: mem_healthy_def)
  moreover have "mem_registered ?r = (mem_registered r)(i := None)"
    by (auto simp: mem_registered_def fun_eq_iff)
  ultimately show ?case
    using q by (simp add: memory_iface_def Deregister_def)
next
  case (4 r i service)
  then show ?case
    by (auto simp: memory_iface_def Deregister_def mem_registered_def)
qed

section \<open>Properties of the server\<close>

lemma Intercept_Recovery:
  "Intercept (NewChain [Recovery stack]) ctx req invoker s = Recovery stack ctx req invoker s"
  by (simp add: Intercept_Cons)

lemma mapError_NotFound: "errors_Is e ErrNotFound \<Longrightarrow> fst (mapError e service meth) = ErrorCodeNotFound"
  using errors_Is_unique [of e ErrNotFound] by (fastforce simp: mapError_def errorTable_def)

lemma error_response_simps [simp]:
  "rs_ID (NewErrorResponse now i e) = i" "rs_Error (NewErrorResponse now i e) = e" "e_Code (NewError c m) = c"
  by (simp_all add: NewErrorResponse_def NewError_def)

lemma success_response_simps [simp]:
  "rs_ID (NewSuccessResponse now i d) = i" "rs_Error (NewSuccessResponse now i d) = None" "rs_Data (NewSuccessResponse now i d) = d"
  by (simp_all add: NewSuccessResponse_def)

lemma Response_SetMetadata_simps [simp]:
  "rs_ID (Response_SetMetadata k v r) = rs_ID r" "rs_Error (Response_SetMetadata k v r) = rs_Error r"
  "rs_Data (Response_SetMetadata k v r) = rs_Data r" "rs_ServerTime (Response_SetMetadata k v r) = rs_ServerTime r"
  "rs_DataCodec (Response_SetMetadata k v r) = rs_DataCodec r"
  by (simp_all add: Response_SetMetadata_def Let_def)

text \<open>How a server behind its recovery interceptor answers each outcome of the dispatch.\<close>

lemma HandleRequest_error:
  assumes "srv_interceptors srv = [Recovery stack]"
    and "dispatch (srv_registry srv) ctx req (putR req s) = (s1, Ret v (Some e))" and "getR s1 = req"
  shows "\<exists>resp. HandleRequest getR putR now srv ctx req s = (s1, Ok resp) \<and> rs_ID resp = rq_ID req
    \<and> map_option e_Code (rs_Error resp) = Some (fst (mapError e (rq_Service req) (rq_Method req)))"
  using assms by (simp add: HandleRequest_def Intercept_Recovery Recovery_def split: prod.splits)

lemma HandleRequest_panic:
  assumes "srv_interceptors srv = [Recovery stack]"
    and "dispatch (srv_registry srv) ctx req (putR req s) = (s1, Panic m)" and "getR s1 = req"
  shows "\<exists>resp. HandleRequest getR putR now srv ctx req s = (s1, Ok resp) \<and> rs_ID resp = rq_ID req
    \<and> map_option e_Code (rs_Error resp) = Some ErrorCodeInternal"
  using assms by (simp add: HandleRequest_def Intercept_Recovery Recovery_def mapError_def errorTable_def split: prod.splits)

lemma HandleRequest_success:
  assumes "srv_interceptors srv = [Recovery stack]"
    and "dispatch (srv_registry srv) ctx req (putR req s) = (s1, Ret v None)" and "getR s1 = req"
  shows "\<exists>resp. HandleRequest getR putR now srv ctx req s = (s1, Ok resp) \<and> rs_ID resp = rq_ID req
    \<and> rs_Error resp = None \<and> rs_Data resp = v"
  using assms by (auto simp: HandleRequest_def Intercept_Recovery Recovery_def Let_def split: prod.splits)

text \<open>
  (C4) A server that runs behind its recovery interceptor answers every request it dispatches with a
  response of the same ID: not-found for a service or method that is not registered, the handler's
  value on success, the code of the handler's error, and an internal error when the handler panics.
  No outcome of a handler takes the server down.
\<close>

theorem server_answers_every_outcome:
  assumes "srv_interceptors srv = [Recovery stack]" and "\<forall>r s. getR (putR r s) = r"
    and "handler_of (srv_registry srv) (rq_Service req, rq_Method req) = h"
    and "\<forall>f. h = Some f \<longrightarrow> getR (fst (f ctx req (putR req s))) = req"
  shows "\<exists>s1 resp. HandleRequest getR putR now srv ctx req s = (s1, Ok resp) \<and> rs_ID resp = rq_ID req \<and>
    (case h of
       None \<Rightarrow> s1 = putR req s \<and> map_option e_Code (rs_Error resp) = Some ErrorCodeNotFound
     | Some f \<Rightarrow> s1 = fst (f ctx req (putR req s)) \<and>
         (case snd (f ctx req (putR req s)) of
            Ret v None \<Rightarrow> rs_Error resp = None \<and> rs_Data resp = v
          | Ret v (Some e) \<Rightarrow> map_option e_Code (rs_Error resp) = Some (fst (mapError e (rq_Service req) (rq_Method req)))
          | Panic m \<Rightarrow> map_option e_Code (rs_Error resp) = Some ErrorCodeInternal))"
proof (cases h)
  case None
  then obtain e where e: "GetHandler (rq_Service req) (rq_Method req) (srv_registry srv) = Inl e" "errors_Is e ErrNotFound"
    using methods.get_absent assms(3) by blast
  then have "dispatch (srv_registry srv) ctx req (putR req s) = (putR req s, Ret INil (Some (Wrapped ''get handler: '' e [])))"
    by (simp add: dispatch_def)
  from HandleRequest_error [where getR = getR and putR = putR and s = s, OF assms(1) this] show ?thesis
    using None assms(2) e(2) by (auto simp: mapError_NotFound)
next
  case (Some f)
  obtain s1 r where f: "f ctx req (putR req s) = (s1, r)"
    by force
  have d: "dispatch (srv_registry srv) ctx req (putR req s) = (s1, r)"
    using methods.get_present [of "srv_registry srv"] assms(3) Some f by (simp add: dispatch_def)
  have g: "getR s1 = req"
    using assms(4) Some f by auto
  show ?thesis
  proof (cases r)
    case (Panic m)
    then show ?thesis
      using HandleRequest_panic [where getR = getR and putR = putR and s = s, OF assms(1) d [unfolded Panic] g] Some f by auto
  next
    case (Ret v err)
    then show ?thesis
      using HandleRequest_error [where getR = getR and putR = putR and s = s, OF assms(1) _ g] HandleRequest_success [where getR = getR and putR = putR and s = s, OF assms(1) _ g]
        d Some f by (cases err) fastforce+
  qed
qed

definition sample_server :: "(unit, unit, unit, (unit, unit) Request, unit, unit) Server" where
  "sample_server = Server_Use [Recovery ''stack'']
     (fst (Server_RegisterMethod ''S'' ''M'' (\<lambda>ctx req s. (s, Panic ''index out of range''))
       (NewServer Map.empty Map.empty () [])))"

theorem server_answers_every_outcome_witness:
  "\<exists>s1 resp. HandleRequest id (\<lambda>r s. r) 0 sample_server () (NewRequest 0 ''S'' ''M'' INil) sample_request = (s1, Ok resp)
     \<and> rs_ID resp = 0 \<and> map_option e_Code (rs_Error resp) = Some ErrorCodeInternal"
proof -
  have "srv_interceptors sample_server = [Recovery ''stack'']"
    "handler_of (srv_registry sample_server) (''S'', ''M'') = Some (\<lambda>ctx req s. (s, Panic ''index out of range''))"
    by (simp_all add: sample_server_def Server_Use_def Server_RegisterMethod_def NewServer_def server_defs svc_defs handler_of_def Let_def)
  then show ?thesis
    using server_answers_every_outcome [of sample_server "''stack''" id "\<lambda>r s. r" "NewRequest 0 ''S'' ''M'' INil" _ "()" sample_request 0]
    by (simp add: NewRequest_def) blast
qed

section \<open>From start to stop\<close>

definition instance_at ::
    "('c, 'm, 'v, 's, 'w, 'l) serverOptions \<Rightarrow> instant \<times> instant \<times> instant \<Rightarrow> string \<Rightarrow> int \<Rightarrow> ServiceInstance" where
  "instance_at opts clock host port = (case clock of (t1, t2, t3) \<Rightarrow>
     (NewServiceInstance t1 t2 t3 (so_serviceName opts) host port)
       \<lparr>si_Version := so_serviceVersion opts\<rparr>)"

lemma registerService_effect:
  assumes "srv_Addr (srv_Transport srv) = Some addr" and "SplitHostPort addr = Inr (host, fmt_d port)" and "in64 port"
    and "so_registry (srv_opts srv) = Some reg"
    and "rg_Register reg p (instance_at (srv_opts srv) clock host port) w = Some (w', None)"
  shows "registerService quoted clock p srv w =
    Some (srv\<lparr>srv_serviceInstance := Some (instance_at (srv_opts srv) clock host port)\<rparr>, w', None)"
proof -
  obtain t1 t2 t3 where "clock = (t1, t2, t3)"
    by (cases clock)
  moreover from this have "(if so_serviceVersion (srv_opts srv) \<noteq> []
        then NewServiceInstance t1 t2 t3 (so_serviceName (srv_opts srv)) host port\<lparr>si_Version := so_serviceVersion (srv_opts srv)\<rparr>
        else NewServiceInstance t1 t2 t3 (so_serviceName (srv_opts srv)) host port) = instance_at (srv_opts srv) clock host port"
    by (simp add: instance_at_def NewServiceInstance_def)
  ultimately show ?thesis
    using assms by (simp add: registerService_def Atoi_fmt_d Let_def)
qed

lemma Start_effect:
  assumes "sv_listener (srv_Transport srv) = None" and "\<not> sv_serving (srv_Transport srv)"
    and "SplitHostPort addr = Inr (host, fmt_d port)" and "in64 port"
    and "so_enableRegistry (srv_opts srv)" and "so_registry (srv_opts srv) = Some reg"
    and "rg_Register reg p (instance_at (srv_opts srv) clock host port) w = Some (w', None)"
  shows "\<exists>t. Start quoted (Inr addr) clock p srv w =
    Some (srv\<lparr>srv_Transport := t, srv_serviceInstance := Some (instance_at (srv_opts srv) clock host port)\<rparr>, w', True, None)
    \<and> sv_serving t"
proof -
  let ?t = "(srv_Transport srv)\<lparr>sv_listener := Some True, sv_address := addr\<rparr>"
  have "registerService quoted clock p (srv\<lparr>srv_Transport := ?t\<rparr>) w =
      Some (srv\<lparr>srv_Transport := ?t, srv_serviceInstance := Some (instance_at (srv_opts srv) clock host port)\<rparr>, w', None)"
    using registerService_effect [of "srv\<lparr>srv_Transport := ?t\<rparr>" addr host port reg p clock w w' quoted] assms(3-7)
    by (simp add: srv_Addr_def)
  then show ?thesis
    using assms(1,2,5,6) by (intro exI [of _ "?t\<lparr>sv_serving := True\<rparr>"]) (simp add: Start_def srv_Listen_def serve_begin_def Let_def)
qed

lemma NewServer_simps [simp]:
  "sv_listener (srv_Transport (NewServer codecs comps lg opts)) = None"
  "sv_serving (srv_Transport (NewServer codecs comps lg opts)) = False"
  "srv_opts (NewServer codecs comps lg opts) = apply_options opts defaultServerOptions"
  "srv_stopOnce (NewServer codecs comps lg opts) = False"
  "chan_closed (srv_stopHeartbeat (NewServer codecs comps lg opts)) = False"
  by (simp_all add: NewServer_def tcp_NewServer_def make_chan_def Let_def)

lemma Endpoint_instance_at [simp]: "Endpoint (instance_at opts clock host port) = host @ '':'' @ fmt_d port"
  by (simp add: instance_at_def NewServiceInstance_def Endpoint_def split: prod.splits)


definition sample_options :: "(unit, unit, unit, unit, Registry, unit) server_Option list" where
  "sample_options = [server_WithAddress ''127.0.0.1:9000'', WithRegistry ''S'' ''v1'' (Some (memory_iface []))]"

definition sample_instance :: ServiceInstance where
  "sample_instance = NewServiceInstance 0 0 0 ''S'' ''h'' 1"


text \<open>
  A server that listens on an address with colons, such as the unspecified address \<open>[::]\<close> that a
  listener on the default \<open>:8080\<close> reports, registers an endpoint that no client can dial: the brackets
  are dropped.
\<close>

theorem wildcard_endpoint_not_dialable:
  assumes "so_enableRegistry (apply_options options defaultServerOptions)"
    and "so_registry (apply_options options defaultServerOptions) = Some (memory_iface services)"
    and "set host \<inter> {CHR ''['', CHR '']''} = {}" and "CHR '':'' \<in> set host" and "in64 port"
    and "mem_healthy w" and "mem_unused p w"
  shows "\<exists>srv1 w1 inst. Start quoted (Inr (''['' @ host @ '']:'' @ fmt_d port)) clock p (NewServer codecs comps lg options) w
      = Some (srv1, w1, True, None)
    \<and> mem_registered w1 (si_ID inst) = Some inst \<and> \<not> dialable (Endpoint inst)"
proof -
  let ?srv = "NewServer codecs comps lg options" and ?inst = "instance_at (apply_options options defaultServerOptions) clock host port"
  obtain w1 where w1: "rg_Register (memory_iface services) p ?inst w = Some (w1, None)" "mem_registered w1 (si_ID ?inst) = Some ?inst"
    using memory_backend.register_ok [OF assms(6,7), of services ?inst] by auto
  have "si_Address ?inst = host"
    by (simp add: instance_at_def NewServiceInstance_def split: prod.splits)
  then have "\<not> dialable (Endpoint ?inst)"
    using Endpoint_dialable [of ?inst] assms(3,4) by simp
  moreover have "\<exists>t. Start quoted (Inr (''['' @ host @ '']:'' @ fmt_d port)) clock p ?srv w =
      Some (?srv\<lparr>srv_Transport := t, srv_serviceInstance := Some ?inst\<rparr>, w1, True, None)"
    using Start_effect [of ?srv _ host port "memory_iface services" p clock w w1 quoted] SplitHostPort_bracketed [OF assms(3)] assms(1,2,5) w1(1)
    by auto
  ultimately show ?thesis
    using w1(2) by blast
qed

section \<open>Options and tracing\<close>

text \<open>
  The transport runs with the named options of the server, and the raw transport options, which come
  last, have the final word on every field.
\<close>

lemma NewServer_transport_options:
  assumes "opts = apply_options options defaultServerOptions"
  shows "sv_opts (srv_Transport (NewServer codecs comps lg options)) = apply_options (so_transportOptions opts)
    (DefaultServerOptions\<lparr>tso_ReadTimeout := so_readTimeout opts, tso_WriteTimeout := so_writeTimeout opts,
      tso_HandlerTimeout := so_handlerTimeout opts, tso_WorkerPoolSize := so_workerPoolSize opts,
      tso_MaxConcurrentRequests := so_maxConcurrent opts\<rparr>)"
  using assms by (simp add: NewServer_def tcp_NewServer_def transport_opts_def WithServerTimeout_def WithHandlerTimeout_def
      WithWorkerPool_def WithMaxConcurrentRequests_def Let_def)

text \<open>A successful response of a server that traces carries the ID of the span of its call.\<close>

theorem traced_response_span:
  assumes "srv_interceptors srv = [TracingServer tr get put putR]"
    and "\<And>r s. getR (putR r s) = r" and "\<And>x s. getR (put x s) = getR s"
    and "\<And>ctx req s. getR (fst (dispatch (srv_registry srv) ctx req s)) = getR s"
    and "HandleRequest getR putR now srv ctx req s = (s', Ok resp)" and "rs_Error resp = None"
    and "tr_SpanID tr (tr_Start tr (tr_Extract tr ctx (carrier_Get (rq_Metadata req)))
       (''rpc.server/'' @ rq_Service req @ ''/'' @ rq_Method req)) = spanID" and "spanID \<noteq> []"
  shows "Response_GetMetadata resp MetaKeySpanID = (spanID, True)"
proof -
  obtain s1 r where r: "TracingServer tr get put putR ctx req (dispatch (srv_registry srv)) (putR req s) = (s1, r)"
    by force
  have "Request_GetMetadata (getR s1) MetaKeySpanID = (spanID, True)"
    using TracingServer_sets_span [of getR putR put "dispatch (srv_registry srv)" tr get ctx req "putR req s"] assms(2-4,7) r by simp
  then show ?thesis
    using assms(1,5,6,8) r
    by (auto simp: HandleRequest_def Intercept_Cons Let_def split: outcome.splits option.splits prod.splits)
qed

text \<open>
  What the transport may see of this server as its handler: any response it gives, in any state of
  the program and for any context.
\<close>

definition serves ::
    "('s \<Rightarrow> ('m, 'v) Request) \<Rightarrow> (('m, 'v) Request \<Rightarrow> 's \<Rightarrow> 's) \<Rightarrow> ('c, 'm, 'v, 's, 'w, 'l) Server
     \<Rightarrow> ('m, 'v) Request \<Rightarrow> ('m, 'v) Response or_error \<Rightarrow> bool" where
  "serves getR putR srv req r \<longleftrightarrow>
     (\<exists>now ctx s s' resp. HandleRequest getR putR now srv ctx req s = (s', Ok resp) \<and> r = Inr resp)"

end
