(* ===== verification/Pool_Manager.thy ===== *)
theory Pool_Manager
  imports Conn_Pool
begin

text \<open>
  The pool manager of a discovery client (\<open>pkg/pool/pool_manager.go\<close>): one pool per endpoint, made on
  first use. Pools are shared by pointer, so the map holds numbers into the list of all pools made,
  and a goroutine that has looked a pool up goes on with it even after the pool was removed. The
  goroutines are cut at the manager's lock, and inside a pool they take the steps of the pool.
\<close>

section \<open>The manager\<close>

record PoolManager =
  pm_pools :: "string \<rightharpoonup> nat"
  pm_codecType :: CodecType
  pm_compressType :: CompressType
  pm_maxPoolSize :: int
  pm_minPoolSize :: int
  pm_heap :: "ConnectionPool list"

type_synonym PoolManagerOption = "PoolManager \<Rightarrow> PoolManager"

definition WithManagerPoolSize :: "int \<Rightarrow> int \<Rightarrow> PoolManagerOption" where
  "WithManagerPoolSize mx mn pm =
     (let pm = (if mx > 0 then pm\<lparr>pm_maxPoolSize := mx\<rparr> else pm)
      in if mn \<ge> 0 then pm\<lparr>pm_minPoolSize := mn\<rparr> else pm)"

definition NewPoolManager :: "CodecType \<Rightarrow> CompressType \<Rightarrow> PoolManagerOption list \<Rightarrow> PoolManager" where
  "NewPoolManager codecType compressType opts =
     apply_options opts \<lparr>pm_pools = Map.empty, pm_codecType = codecType, pm_compressType = compressType,
       pm_maxPoolSize = 100, pm_minPoolSize = 10, pm_heap = []\<rparr>"

definition pool_at :: "PoolManager \<Rightarrow> nat \<Rightarrow> ConnectionPool" where
  "pool_at pm k = pm_heap pm ! k"

definition upd_pool :: "nat \<Rightarrow> ConnectionPool \<Rightarrow> PoolManager \<Rightarrow> PoolManager" where
  "upd_pool k p pm = pm\<lparr>pm_heap := (pm_heap pm)[k := p]\<rparr>"

definition RemovePool :: "string \<Rightarrow> PoolManager \<Rightarrow> PoolManager" where
  "RemovePool addr pm =
     (case pm_pools pm addr of
        None \<Rightarrow> pm
      | Some k \<Rightarrow> upd_pool k (pool_Close (pool_at pm k)) (pm\<lparr>pm_pools := (pm_pools pm)(addr := None)\<rparr>))"

text \<open>\<open>addrs\<close> is the order in which the runtime visits the map; closing a pool never fails.\<close>

definition Manager_Close :: "string list \<Rightarrow> PoolManager \<Rightarrow> PoolManager" where
  "Manager_Close addrs pm = (fold RemovePool addrs pm)\<lparr>pm_pools := Map.empty\<rparr>"

definition Manager_Stats :: "PoolManager \<Rightarrow> string \<rightharpoonup> PoolStats" where
  "Manager_Stats pm addr = map_option (\<lambda>k. pool_Stats (pool_at pm k)) (pm_pools pm addr)"

definition pool_options :: "PoolManager \<Rightarrow> PoolOption list" where
  "pool_options pm = [WithPoolSize (pm_maxPoolSize pm) (pm_minPoolSize pm), WithPoolCodec (pm_codecType pm) (pm_compressType pm)]"

section \<open>Goroutines\<close>

text \<open>
  Where a goroutine stands: in \<open>GetConnection\<close> before the first look, before the second one under the
  write lock, in a pool; and the background routines of a pool, of which the first cleans up and the
  second checks the health.
\<close>

datatype mgr_proc =
    MIdle | MRead string | MLocked string | MUse string nat pool_proc | MErr go_error | MBack bool nat pool_proc

text \<open>
  What the environment decides: a call of the manager, the state of the world in which a pool is
  made, a choice inside a pool, a connection that is lost.
\<close>

datatype 'f mgr_choice =
    MGet string | MRemove string | MCloseAll "string list" | MWorld 'f | MPool pool_choice | MLost nat nat | MGo

definition enter_pool :: "string \<Rightarrow> nat \<Rightarrow> PoolManager \<Rightarrow> (PoolManager \<times> mgr_proc \<times> mgr_proc list) option" where
  "enter_pool addr k pm =
     map_option (\<lambda>(p, g). (upd_pool k p pm, MUse addr k g, [])) (pool_step1 PGet PIdle (pool_at pm k))"

definition GetConnection ::
    "('f, 'c) pool_env \<Rightarrow> 'f mgr_choice \<Rightarrow> mgr_proc \<Rightarrow> PoolManager \<Rightarrow> (PoolManager \<times> mgr_proc \<times> mgr_proc list) option" where
  "GetConnection env ch g pm =
     (case g of
        MRead addr \<Rightarrow>
          (case pm_pools pm addr of Some k \<Rightarrow> enter_pool addr k pm | None \<Rightarrow> Some (pm, MLocked addr, []))
      | MLocked addr \<Rightarrow>
          (case pm_pools pm addr of
             Some k \<Rightarrow> enter_pool addr k pm
           | None \<Rightarrow>
               (case ch of
                  MWorld w \<Rightarrow>
                    Option.bind (NewConnectionPool env addr (pool_options pm) w) (\<lambda>(w', r).
                      case r of
                        Inl e \<Rightarrow> Some (pm, MErr (Wrapped ''new pool: '' e []), [])
                      | Inr p \<Rightarrow>
                          (let k = length (pm_heap pm);
                               pm1 = pm\<lparr>pm_pools := (pm_pools pm)(addr \<mapsto> k), pm_heap := pm_heap pm @ [p]\<rparr>;
                               spawned = MBack True k PIdle # (if pl_EnableHealthCheck (cp_opts p) then [MBack False k PIdle] else [])
                           in map_option (\<lambda>(pm2, g', _). (pm2, g', spawned)) (enter_pool addr k pm1)))
                | _ \<Rightarrow> None))
      | _ \<Rightarrow> None)"

text \<open>A goroutine inside a pool, until it has given its connection back or got an error.\<close>

definition in_pool :: "pool_choice \<Rightarrow> nat \<Rightarrow> pool_proc \<Rightarrow> (pool_proc \<Rightarrow> mgr_proc) \<Rightarrow> PoolManager
    \<Rightarrow> (PoolManager \<times> mgr_proc \<times> mgr_proc list) option" where
  "in_pool a k g resume pm =
     (if g = PIdle then None
      else map_option (\<lambda>(p, g'). (upd_pool k p pm, resume g', [])) (pool_step1 a g (pool_at pm k)))"

definition mgr_step1 ::
    "('f, 'c) pool_env \<Rightarrow> 'f mgr_choice \<Rightarrow> mgr_proc \<Rightarrow> PoolManager \<Rightarrow> (PoolManager \<times> mgr_proc \<times> mgr_proc list) option" where
  "mgr_step1 env ch g pm =
     (case g of
        MIdle \<Rightarrow>
          (case ch of
             MGet addr \<Rightarrow> Some (pm, MRead addr, [])
           | MRemove addr \<Rightarrow>
               if \<exists>k. pm_pools pm addr = Some k \<and> cp_locked (pool_at pm k) then None else Some (RemovePool addr pm, MIdle, [])
           | MCloseAll addrs \<Rightarrow>
               if \<not> range_order (pm_pools pm) addrs \<or> (\<exists>k \<in> ran (pm_pools pm). cp_locked (pool_at pm k)) then None
               else Some (Manager_Close addrs pm, MIdle, [])
           | MLost k c \<Rightarrow>
               if k < length (pm_heap pm)
               then map_option (\<lambda>(p, _). (upd_pool k p pm, MIdle, [])) (pool_step1 (PLost c) PIdle (pool_at pm k)) else None
           | _ \<Rightarrow> None)
      | MRead addr \<Rightarrow> GetConnection env ch g pm
      | MLocked addr \<Rightarrow> GetConnection env ch g pm
      | MUse addr k g' \<Rightarrow>
          if g' = PIdle then Some (pm, MIdle, [])
          else (case ch of MPool a \<Rightarrow> in_pool a k g' (MUse addr k) pm | _ \<Rightarrow> None)
      | MErr e \<Rightarrow> Some (pm, MIdle, [])
      | MBack clean k g' \<Rightarrow>
          if g' = PIdle
          then (if cp_stopCleanup (pool_at pm k) then None
                else map_option (\<lambda>(p, g''). (upd_pool k p pm, MBack clean k g'', [])) (pool_step1 (PTick clean) PIdle (pool_at pm k)))
          else (case ch of MPool a \<Rightarrow> in_pool a k g' (MBack clean k) pm | _ \<Rightarrow> None))"

record mgr_sys =
  ms_manager :: PoolManager
  ms_procs :: "mgr_proc list"

definition mgr_exec :: "('f, 'c) pool_env \<Rightarrow> nat \<times> 'f mgr_choice \<Rightarrow> mgr_sys \<Rightarrow> mgr_sys option" where
  "mgr_exec env a s =
     (case a of (i, ch) \<Rightarrow>
        if i < length (ms_procs s)
        then map_option (\<lambda>(pm, g, gs). \<lparr>ms_manager = pm, ms_procs = (ms_procs s)[i := g] @ gs\<rparr>)
          (mgr_step1 env ch (ms_procs s ! i) (ms_manager s))
        else None)"

definition mgr_stp :: "('f, 'c) pool_env \<Rightarrow> mgr_sys \<Rightarrow> mgr_sys \<Rightarrow> bool" where
  "mgr_stp env s t \<longleftrightarrow> (\<exists>a. mgr_exec env a s = Some t)"

definition mgr_init :: "mgr_sys \<Rightarrow> bool" where
  "mgr_init s \<longleftrightarrow> (\<exists>ct zt opts. ms_manager s = NewPoolManager ct zt opts \<and> set opts \<subseteq> {f. \<exists>mx mn. f = WithManagerPoolSize mx mn})
     \<and> set (ms_procs s) \<subseteq> {MIdle}"

section \<open>What a step of a pool leaves\<close>

definition same_pool :: "ConnectionPool \<Rightarrow> ConnectionPool \<Rightarrow> bool" where
  "same_pool p p' \<longleftrightarrow> cp_address p' = cp_address p \<and> cp_opts p' = cp_opts p \<and> cp_closed p' = cp_closed p"

lemma same_pool_upd [simp]:
  "same_pool p p" "same_pool p (upd_conn f c q) \<longleftrightarrow> same_pool p q" "same_pool p (discard c q) \<longleftrightarrow> same_pool p q"
  "same_pool p (shrink q) \<longleftrightarrow> same_pool p q" "same_pool p (q\<lparr>cp_pool := ch\<rparr>) \<longleftrightarrow> same_pool p q"
  "same_pool p (q\<lparr>cp_conns := cs\<rparr>) \<longleftrightarrow> same_pool p q" "same_pool p (q\<lparr>cp_locked := b\<rparr>) \<longleftrightarrow> same_pool p q"
  "same_pool p (q\<lparr>cp_getCount := n\<rparr>) \<longleftrightarrow> same_pool p q" "same_pool p (q\<lparr>cp_putCount := n\<rparr>) \<longleftrightarrow> same_pool p q"
  "same_pool p (q\<lparr>cp_gone := j\<rparr>) \<longleftrightarrow> same_pool p q"
  "same_pool p (q\<lparr>cp_currentSize := n, cp_createCount := n'\<rparr>) \<longleftrightarrow> same_pool p q"
  by (simp_all add: same_pool_def upd_conn_def discard_def shrink_def)

lemma pool_chan_same: "pool_recv p = (p', r) \<Longrightarrow> same_pool q p' \<longleftrightarrow> same_pool q p" "pool_send c p = (p', r') \<Longrightarrow> same_pool q p' \<longleftrightarrow> same_pool q p"
  by (auto simp: pool_recv_def pool_send_def split: prod.splits)

lemma pool_step1_same:
  assumes "pool_step1 a g p = Some (p', g')" and "a \<noteq> PClose \<or> g \<noteq> PIdle"
  shows "same_pool p p'"
  using assms
  by (cases g; cases a)
    (auto simp: pool_step_defs add_conn_def pool_chan_same
      split: if_splits prod.splits recv_result.splits send_result.splits option.splits sum.splits list.splits nat.splits)

lemma precreate_same: "precreate env factory n p w = Some (w', p') \<Longrightarrow> same_pool p p'"
proof (induction n arbitrary: p w)
  case (Suc n)
  obtain w1 r where r: "createConnection env factory (cp_address p) w = (w1, r)"
    by fastforce
  show ?case
  proof (cases r)
    case (Inl e)
    then show ?thesis
      using Suc.prems r by simp
  next
    case (Inr pc)
    obtain p2 where p2: "pool_send (length (cp_conns p)) (p\<lparr>cp_conns := cp_conns p @ [pc]\<rparr>) = (p2, Sent)"
      "precreate env factory n (p2\<lparr>cp_currentSize := cp_currentSize p2 + 1, cp_createCount := wrap64 (cp_createCount p2 + 1)\<rparr>) w1
         = Some (w', p')"
      using Suc.prems r Inr by (auto simp: add_conn_def split: prod.splits send_result.splits)
    then have "same_pool p p2"
      using pool_chan_same(2) [OF p2(1), of p] by simp
    then show ?thesis
      using Suc.IH [OF p2(2)] by (simp add: same_pool_def)
  qed
qed simp

lemma NewConnectionPool_same:
  assumes "NewConnectionPool env address options w = Some (w', Inr p)"
  shows "cp_address p = address" "cp_opts p = apply_options options DefaultPoolOptions" "\<not> cp_closed p"
  using assms
  by (auto simp: NewConnectionPool_def Let_def same_pool_def dest!: precreate_same split: option.splits)

section \<open>The invariant\<close>

definition has_options :: "PoolManager \<Rightarrow> ConnectionPool \<Rightarrow> bool" where
  "has_options pm p \<longleftrightarrow> cp_opts p = apply_options (pool_options pm) DefaultPoolOptions"

definition mgr_ok :: "PoolManager \<Rightarrow> bool" where
  "mgr_ok pm \<longleftrightarrow>
     (\<forall>a k. pm_pools pm a = Some k \<longrightarrow> k < length (pm_heap pm) \<and> cp_address (pool_at pm k) = a \<and> \<not> cp_closed (pool_at pm k))
     \<and> (\<forall>k < length (pm_heap pm). has_options pm (pool_at pm k)
          \<and> (cp_closed (pool_at pm k) \<or> pm_pools pm (cp_address (pool_at pm k)) = Some k))"

lemma mgr_okD:
  assumes "mgr_ok pm"
  shows "pm_pools pm a = Some k \<Longrightarrow> k < length (pm_heap pm) \<and> cp_address (pool_at pm k) = a \<and> \<not> cp_closed (pool_at pm k)"
    and "k < length (pm_heap pm) \<Longrightarrow> has_options pm (pool_at pm k)"
    and "k < length (pm_heap pm) \<Longrightarrow> \<not> cp_closed (pool_at pm k) \<Longrightarrow> pm_pools pm (cp_address (pool_at pm k)) = Some k"
  using assms unfolding mgr_ok_def by blast+

text \<open>Pools are never taken out of the list, and keep their address.\<close>

definition grows :: "PoolManager \<Rightarrow> PoolManager \<Rightarrow> bool" where
  "grows pm pm' \<longleftrightarrow> length (pm_heap pm) \<le> length (pm_heap pm')
     \<and> (\<forall>k < length (pm_heap pm). cp_address (pool_at pm' k) = cp_address (pool_at pm k))"

fun mproc_ok :: "PoolManager \<Rightarrow> mgr_proc \<Rightarrow> bool" where
  "mproc_ok pm (MUse a k g) \<longleftrightarrow> k < length (pm_heap pm) \<and> cp_address (pool_at pm k) = a"
| "mproc_ok pm (MBack clean k g) \<longleftrightarrow> k < length (pm_heap pm)"
| "mproc_ok pm _ \<longleftrightarrow> True"

lemma grows_refl [simp]: "grows pm pm"
  by (simp add: grows_def)

lemma grows_trans: "grows pm pm' \<Longrightarrow> grows pm' pm'' \<Longrightarrow> grows pm pm''"
  by (simp add: grows_def)

lemma mproc_ok_grows: "grows pm pm' \<Longrightarrow> mproc_ok pm g \<Longrightarrow> mproc_ok pm' g"
  by (cases g) (auto simp: grows_def)

lemma upd_pool_simps [simp]:
  "pm_pools (upd_pool k p pm) = pm_pools pm" "length (pm_heap (upd_pool k p pm)) = length (pm_heap pm)"
  "pool_options (upd_pool k p pm) = pool_options pm"
  "j < length (pm_heap pm) \<Longrightarrow> pool_at (upd_pool k p pm) j = (if j = k then p else pool_at pm j)"
  by (auto simp: upd_pool_def pool_at_def pool_options_def)

text \<open>A step inside one pool.\<close>

lemma mgr_ok_upd:
  assumes "mgr_ok pm" and "same_pool (pool_at pm k) p" and "k < length (pm_heap pm)"
  shows "mgr_ok (upd_pool k p pm) \<and> grows pm (upd_pool k p pm)"
proof
  have "has_options (upd_pool k p pm) q \<longleftrightarrow> has_options pm q" for q
    by (simp add: has_options_def)
  moreover have "has_options pm p \<longleftrightarrow> has_options pm (pool_at pm k)"
    using assms(2) by (simp add: has_options_def same_pool_def)
  ultimately show "mgr_ok (upd_pool k p pm)"
    using assms by (fastforce simp: mgr_ok_def same_pool_def)
qed (use assms in \<open>auto simp: grows_def same_pool_def\<close>)

text \<open>Closing a pool that the map has, and taking it out.\<close>

lemma pool_Close_simps [simp]:
  "cp_closed (pool_Close p)" "cp_opts (pool_Close p) = cp_opts p" "cp_address (pool_Close p) = cp_address p"
proof -
  have "cp_address (fold discard cs q) = cp_address q" for cs q
    by (induction cs arbitrary: q) (simp_all add: discard_def upd_conn_def)
  then show "cp_closed (pool_Close p)" "cp_opts (pool_Close p) = cp_opts p" "cp_address (pool_Close p) = cp_address p"
    by (simp_all add: pool_Close_def)
qed

lemma mgr_ok_remove:
  assumes "mgr_ok pm"
  shows "mgr_ok (RemovePool addr pm) \<and> grows pm (RemovePool addr pm) \<and> pm_pools (RemovePool addr pm) = (pm_pools pm)(addr := None)"
proof (cases "pm_pools pm addr")
  case None
  then show ?thesis
    using assms by (auto simp: RemovePool_def)
next
  case (Some k)
  have k: "k < length (pm_heap pm)" "cp_address (pool_at pm k) = addr"
    using mgr_okD(1) [OF assms Some] by auto
  define pm' where "pm' = RemovePool addr pm"
  have len: "length (pm_heap pm') = length (pm_heap pm)" and pools: "pm_pools pm' = (pm_pools pm)(addr := None)"
    and at: "\<And>j. j < length (pm_heap pm) \<Longrightarrow> pool_at pm' j = (if j = k then pool_Close (pool_at pm k) else pool_at pm j)"
    and opts: "\<And>q. has_options pm' q \<longleftrightarrow> has_options pm q"
    using Some by (auto simp: pm'_def RemovePool_def has_options_def pool_options_def upd_pool_def pool_at_def)
  have "j < length (pm_heap pm) \<and> cp_address (pool_at pm' j) = a \<and> \<not> cp_closed (pool_at pm' j)" if "pm_pools pm' a = Some j" for a j
  proof -
    have a: "a \<noteq> addr" "pm_pools pm a = Some j"
      using that by (auto simp: pools split: if_splits)
    then have "j < length (pm_heap pm) \<and> cp_address (pool_at pm j) = a \<and> \<not> cp_closed (pool_at pm j)"
      using mgr_okD(1) [OF assms] by blast
    then show ?thesis
      using a(1) k(2) by (auto simp: at)
  qed
  moreover have "has_options pm (pool_at pm' j) \<and> (cp_closed (pool_at pm' j) \<or> pm_pools pm' (cp_address (pool_at pm' j)) = Some j)"
    if "j < length (pm_heap pm)" for j
    using that Some k mgr_okD(2,3) [OF assms that] by (cases "cp_closed (pool_at pm j)") (auto simp: at pools has_options_def)
  ultimately have "mgr_ok pm'"
    by (simp add: mgr_ok_def len opts)
  then show ?thesis
    unfolding pm'_def [symmetric] by (simp add: pools grows_def len at)
qed

lemma mgr_ok_remove_all:
  "mgr_ok pm \<Longrightarrow> mgr_ok (fold RemovePool addrs pm) \<and> grows pm (fold RemovePool addrs pm)
     \<and> pm_pools (fold RemovePool addrs pm) = pm_pools pm |` (- set addrs)"
proof (induction addrs arbitrary: pm)
  case (Cons a addrs)
  have "grows pm (fold RemovePool addrs (RemovePool a pm))"
    using mgr_ok_remove [OF Cons.prems, of a] Cons.IH [of "RemovePool a pm"] by (blast intro: grows_trans)
  moreover have "pm_pools (fold RemovePool addrs (RemovePool a pm)) = pm_pools pm |` (- set (a # addrs))"
    using mgr_ok_remove [OF Cons.prems, of a] Cons.IH [of "RemovePool a pm"] by (auto simp: restrict_map_def)
  ultimately show ?case
    using mgr_ok_remove [OF Cons.prems, of a] Cons.IH [of "RemovePool a pm"] by simp
qed (simp add: restrict_map_def)

lemma mgr_ok_close:
  assumes "mgr_ok pm" and "range_order (pm_pools pm) addrs"
  shows "mgr_ok (Manager_Close addrs pm) \<and> grows pm (Manager_Close addrs pm)"
proof -
  have "pm_pools pm |` (- set addrs) = Map.empty"
    using assms(2) by (auto simp: range_order_def restrict_map_def fun_eq_iff domIff)
  then have "(fold RemovePool addrs pm)\<lparr>pm_pools := Map.empty\<rparr> = fold RemovePool addrs pm"
    using mgr_ok_remove_all [OF assms(1), of addrs] by simp
  then show ?thesis
    using mgr_ok_remove_all [OF assms(1), of addrs] by (simp add: Manager_Close_def)
qed

text \<open>A new pool for an endpoint that has none.\<close>

lemma mgr_ok_new:
  assumes "mgr_ok pm" and "pm_pools pm addr = None" and "NewConnectionPool env addr (pool_options pm) w = Some (w', Inr p)"
  defines "pm' \<equiv> pm\<lparr>pm_pools := (pm_pools pm)(addr \<mapsto> length (pm_heap pm)), pm_heap := pm_heap pm @ [p]\<rparr>"
  shows "mgr_ok pm' \<and> grows pm pm'"
proof -
  have p: "cp_address p = addr" "cp_opts p = apply_options (pool_options pm) DefaultPoolOptions" "\<not> cp_closed p"
    using NewConnectionPool_same [OF assms(3)] by simp_all
  let ?n = "length (pm_heap pm)"
  have len: "length (pm_heap pm') = Suc ?n" and pools: "pm_pools pm' = (pm_pools pm)(addr \<mapsto> ?n)"
    and new: "pool_at pm' ?n = p" and old: "\<And>k. k < ?n \<Longrightarrow> pool_at pm' k = pool_at pm k"
    and opts: "\<And>q. has_options pm' q \<longleftrightarrow> has_options pm q"
    by (simp_all add: pm'_def pool_at_def pool_options_def has_options_def nth_append)
  have free: "cp_closed (pool_at pm k) \<or> cp_address (pool_at pm k) \<noteq> addr" if "k < ?n" for k
    using mgr_okD(3) [OF assms(1) that] assms(2) by force
  have "k < Suc ?n \<and> cp_address (pool_at pm' k) = a \<and> \<not> cp_closed (pool_at pm' k)" if "pm_pools pm' a = Some k" for a k
  proof (cases "a = addr")
    case True
    then show ?thesis
      using that p new by (simp add: pools)
  next
    case False
    then have "k < ?n \<and> cp_address (pool_at pm k) = a \<and> \<not> cp_closed (pool_at pm k)"
      using that mgr_okD(1) [OF assms(1), of a k] by (simp add: pools)
    then show ?thesis
      by (simp add: old)
  qed
  moreover have "has_options pm (pool_at pm' k) \<and> (cp_closed (pool_at pm' k) \<or> pm_pools pm' (cp_address (pool_at pm' k)) = Some k)"
    if "k < Suc ?n" for k
  proof (cases "k = ?n")
    case True
    then show ?thesis
      using p new by (simp add: pools has_options_def)
  next
    case False
    then have "k < ?n"
      using that by simp
    then show ?thesis
      using free [of k] mgr_okD(2,3) [OF assms(1), of k] by (auto simp: old pools)
  qed
  ultimately show ?thesis
    by (simp add: mgr_ok_def len opts grows_def old)
qed

section \<open>Every step keeps the invariant\<close>

definition step_keeps :: "PoolManager \<Rightarrow> PoolManager \<times> mgr_proc \<times> mgr_proc list \<Rightarrow> bool" where
  "step_keeps pm r = (case r of (pm', g', gs) \<Rightarrow>
     mgr_ok pm' \<and> grows pm pm' \<and> (\<forall>x \<in> set (g' # gs). mproc_ok pm' x))"

lemma step_keeps_upd:
  assumes "mgr_ok pm" and "k < length (pm_heap pm)" and "same_pool (pool_at pm k) p"
    and "\<And>pm'. grows pm pm' \<Longrightarrow> mproc_ok pm' g"
  shows "step_keeps pm (upd_pool k p pm, g, [])"
  using mgr_ok_upd [OF assms(1,3,2)] assms(4) by (simp add: step_keeps_def)

lemma enter_pool_keeps:
  assumes "enter_pool addr k pm = Some r" and "mgr_ok pm" and "pm_pools pm addr = Some k"
  shows "step_keeps pm r \<and> (\<exists>pm' g'. r = (pm', g', []))"
proof -
  have k: "k < length (pm_heap pm)" "cp_address (pool_at pm k) = addr"
    using mgr_okD(1) [OF assms(2,3)] by auto
  obtain p g where p: "pool_step1 PGet PIdle (pool_at pm k) = Some (p, g)" "r = (upd_pool k p pm, MUse addr k g, [])"
    using assms(1) by (auto simp: enter_pool_def)
  have "same_pool (pool_at pm k) p"
    using pool_step1_same [OF p(1)] by simp
  then show ?thesis
    using step_keeps_upd [OF assms(2) k(1), of p "MUse addr k g"] k by (auto simp: p(2) grows_def)
qed

lemma in_pool_keeps:
  assumes "in_pool a k g resume pm = Some r" and "mgr_ok pm" and "k < length (pm_heap pm)"
    and "\<And>pm' g'. grows pm pm' \<Longrightarrow> mproc_ok pm' (resume g')"
  shows "step_keeps pm r"
proof -
  obtain p g' where p: "pool_step1 a g (pool_at pm k) = Some (p, g')" "g \<noteq> PIdle" "r = (upd_pool k p pm, resume g', [])"
    using assms(1) by (auto simp: in_pool_def split: if_splits)
  then show ?thesis
    using step_keeps_upd [OF assms(2,3) pool_step1_same [OF p(1)], of "resume g'"] assms(4) by auto
qed

lemma step_keeps_after: "grows pm pm1 \<Longrightarrow> step_keeps pm1 r \<Longrightarrow> step_keeps pm r"
  by (auto simp: step_keeps_def intro: grows_trans)

lemma GetConnection_keeps:
  assumes "GetConnection env ch g pm = Some r" and "mgr_ok pm"
  shows "step_keeps pm r"
proof (cases g)
  case (MRead addr)
  then show ?thesis
    using assms enter_pool_keeps [of addr _ pm r]
    by (cases "pm_pools pm addr") (auto simp: GetConnection_def step_keeps_def)
next
  case (MLocked addr)
  show ?thesis
  proof (cases "pm_pools pm addr")
    case None
    then obtain w w' r' where w: "ch = MWorld w" "NewConnectionPool env addr (pool_options pm) w = Some (w', r')"
      using assms(1) MLocked by (auto simp: GetConnection_def bind_eq_Some_conv split: mgr_choice.splits)
    show ?thesis
    proof (cases r')
      case (Inl e)
      then show ?thesis
        using assms MLocked None w by (auto simp: GetConnection_def step_keeps_def)
    next
      case (Inr p)
      let ?k = "length (pm_heap pm)"
      let ?pm = "pm\<lparr>pm_pools := (pm_pools pm)(addr \<mapsto> ?k), pm_heap := pm_heap pm @ [p]\<rparr>"
      have ok: "mgr_ok ?pm" "grows pm ?pm"
        using mgr_ok_new [OF assms(2) None w(2) [unfolded Inr]] by auto
      let ?spawned = "MBack True ?k PIdle # (if pl_EnableHealthCheck (cp_opts p) then [MBack False ?k PIdle] else [])"
      obtain pm2 g2 l2 where r: "enter_pool addr ?k ?pm = Some (pm2, g2, l2)" "r = (pm2, g2, ?spawned)"
        using assms(1) MLocked None w Inr by (auto simp: GetConnection_def Let_def)
      have "step_keeps ?pm (pm2, g2, l2)"
        using enter_pool_keeps [OF r(1) ok(1)] by auto
      moreover from this have "mproc_ok pm2 x" if "x \<in> set ?spawned" for x
        using that by (auto simp: step_keeps_def grows_def split: if_splits)
      ultimately have "step_keeps ?pm r"
        by (simp add: r(2) step_keeps_def)
      then show ?thesis
        by (rule step_keeps_after [OF ok(2)])
    qed
  next
    case (Some k)
    then show ?thesis
      using assms MLocked enter_pool_keeps [of addr k pm r] by (auto simp: GetConnection_def)
  qed
qed (use assms(1) in \<open>simp_all add: GetConnection_def\<close>)

lemma mgr_step_keeps:
  assumes "mgr_step1 env ch g pm = Some r" and "mgr_ok pm" and "mproc_ok pm g"
  shows "step_keeps pm r"
proof (cases g)
  case MIdle
  show ?thesis
  proof (cases ch)
    case (MLost k c)
    then obtain p g' where p: "k < length (pm_heap pm)" "pool_step1 (PLost c) PIdle (pool_at pm k) = Some (p, g')" "r = (upd_pool k p pm, MIdle, [])"
      using assms(1) MIdle by (auto simp: mgr_step1_def split: if_splits)
    then show ?thesis
      using step_keeps_upd [OF assms(2) p(1) pool_step1_same [OF p(2)], of MIdle] by simp
  qed (use assms MIdle mgr_ok_remove [OF assms(2)] mgr_ok_close [OF assms(2)] in
      \<open>auto simp: mgr_step1_def step_keeps_def split: if_splits\<close>)
next
  case (MUse addr k g')
  then show ?thesis
    using assms in_pool_keeps [OF _ assms(2), of _ k g' "MUse addr k" r]
    by (auto simp: mgr_step1_def step_keeps_def grows_def split: if_splits mgr_choice.splits)
next
  case (MBack clean k g')
  show ?thesis
  proof (cases "g' = PIdle")
    case True
    then obtain p g'' where p: "pool_step1 (PTick clean) PIdle (pool_at pm k) = Some (p, g'')" "r = (upd_pool k p pm, MBack clean k g'', [])"
      using assms(1) MBack by (auto simp: mgr_step1_def split: if_splits)
    then show ?thesis
      using step_keeps_upd [OF assms(2) _ pool_step1_same [OF p(1)], of "MBack clean k g''"] assms(3) MBack by (auto simp: grows_def)
  next
    case False
    then show ?thesis
      using assms MBack in_pool_keeps [OF _ assms(2), of _ k g' "MBack clean k" r]
      by (auto simp: mgr_step1_def grows_def split: mgr_choice.splits)
  qed
next
  case (MRead addr)
  then show ?thesis
    using assms(1) GetConnection_keeps [OF _ assms(2)] by (simp add: mgr_step1_def)
next
  case (MLocked addr)
  then show ?thesis
    using assms(1) GetConnection_keeps [OF _ assms(2)] by (simp add: mgr_step1_def)
qed (use assms in \<open>auto simp: mgr_step1_def step_keeps_def\<close>)

definition mgr_inv :: "mgr_sys \<Rightarrow> bool" where
  "mgr_inv s \<longleftrightarrow> mgr_ok (ms_manager s) \<and> (\<forall>g \<in> set (ms_procs s). mproc_ok (ms_manager s) g)"

lemma manager_options_empty:
  "set opts \<subseteq> {f. \<exists>mx mn. f = WithManagerPoolSize mx mn} \<Longrightarrow> pm_heap pm = [] \<Longrightarrow> pm_pools pm = Map.empty \<Longrightarrow>
   pm_heap (apply_options opts pm) = [] \<and> pm_pools (apply_options opts pm) = Map.empty"
  by (induction opts arbitrary: pm) (auto simp: WithManagerPoolSize_def Let_def)

lemma mgr_inv_init: "mgr_init s \<Longrightarrow> mgr_inv s"
  using manager_options_empty
  by (fastforce simp: mgr_init_def mgr_inv_def mgr_ok_def NewPoolManager_def)

lemma mgr_inv_step:
  assumes "mgr_stp env s t" and "mgr_inv s"
  shows "mgr_inv t"
proof -
  obtain i ch pm g gs where st: "i < length (ms_procs s)" "mgr_step1 env ch (ms_procs s ! i) (ms_manager s) = Some (pm, g, gs)"
    "t = \<lparr>ms_manager = pm, ms_procs = (ms_procs s)[i := g] @ gs\<rparr>"
    using assms(1) by (auto simp: mgr_stp_def mgr_exec_def split: if_splits)
  have "step_keeps (ms_manager s) (pm, g, gs)"
    using mgr_step_keeps [OF st(2)] assms(2) st(1) by (simp add: mgr_inv_def)
  moreover have "mproc_ok pm x" if "x \<in> set (ms_procs s)" "grows (ms_manager s) pm" for x
    using that assms(2) mproc_ok_grows by (auto simp: mgr_inv_def)
  ultimately show ?thesis
    by (auto simp: mgr_inv_def st(3) step_keeps_def dest: set_update_subset_insert [THEN subsetD])
qed

interpretation manager: invariant_system mgr_init "mgr_stp env" mgr_inv
  for env
  by unfold_locales (auto intro: mgr_inv_init mgr_inv_step)

section \<open>Properties of the manager\<close>

text \<open>
  (C27) Callers that ask for connections, endpoints that are removed and a manager that is closed, in any
  interleaving: the double check under the lock makes at most one open pool per endpoint, namely the
  one in the map; a caller works on a pool of the endpoint it asked for; every pool was made with the
  sizes and the codec of the manager.
\<close>

theorem one_pool_per_endpoint:
  assumes "reach mgr_init (mgr_stp env) s"
  shows "(\<forall>k < length (pm_heap (ms_manager s)). \<not> cp_closed (pool_at (ms_manager s) k) \<longrightarrow>
        pm_pools (ms_manager s) (cp_address (pool_at (ms_manager s) k)) = Some k)
    \<and> (\<forall>a k. pm_pools (ms_manager s) a = Some k \<longrightarrow>
        cp_address (pool_at (ms_manager s) k) = a \<and> \<not> cp_closed (pool_at (ms_manager s) k))
    \<and> (\<forall>a k g. MUse a k g \<in> set (ms_procs s) \<longrightarrow> cp_address (pool_at (ms_manager s) k) = a)
    \<and> (\<forall>k < length (pm_heap (ms_manager s)).
        cp_opts (pool_at (ms_manager s) k) = DefaultPoolOptions\<lparr>pl_MaxSize := pm_maxPoolSize (ms_manager s),
          pl_MinSize := pm_minPoolSize (ms_manager s), pl_CodecType := pm_codecType (ms_manager s),
          pl_CompressType := pm_compressType (ms_manager s)\<rparr>)"
proof -
  have "mgr_inv s"
    using assms by (rule manager.reach_inv)
  then have ok: "mgr_ok (ms_manager s)" and procs: "\<forall>g \<in> set (ms_procs s). mproc_ok (ms_manager s) g"
    by (simp_all add: mgr_inv_def)
  have "cp_opts (pool_at (ms_manager s) k) = DefaultPoolOptions\<lparr>pl_MaxSize := pm_maxPoolSize (ms_manager s),
      pl_MinSize := pm_minPoolSize (ms_manager s), pl_CodecType := pm_codecType (ms_manager s),
      pl_CompressType := pm_compressType (ms_manager s)\<rparr>" if "k < length (pm_heap (ms_manager s))" for k
    using mgr_okD(2) [OF ok that] by (simp add: has_options_def pool_options_def WithPoolSize_def WithPoolCodec_def)
  then show ?thesis
    using mgr_okD(1,3) [OF ok] procs by fastforce
qed

fun mgr_run :: "('f, 'c) pool_env \<Rightarrow> (nat \<times> 'f mgr_choice) list \<Rightarrow> mgr_sys \<Rightarrow> mgr_sys option" where
  "mgr_run env [] s = Some s"
| "mgr_run env (a # as) s = Option.bind (mgr_exec env a s) (mgr_run env as)"

lemma mgr_run_reach: "reach ini (mgr_stp env) s \<Longrightarrow> mgr_run env as s = Some t \<Longrightarrow> reach ini (mgr_stp env) t"
proof (induction as arbitrary: s)
  case (Cons a as)
  then obtain s1 where "mgr_exec env a s = Some s1" "mgr_run env as s1 = Some t"
    by (auto simp: bind_eq_Some_conv)
  then show ?case
    using Cons by (blast intro: reach_step mgr_stp_def [THEN iffD2])
qed simp

text \<open>Two callers find no pool; the first makes one under the lock, the second finds it there.\<close>

definition sample_manager :: mgr_sys where
  "sample_manager = \<lparr>ms_manager = NewPoolManager CodecTypeJSON CompressTypeNone [WithManagerPoolSize 1 0], ms_procs = [MIdle, MIdle]\<rparr>"

lemma sample_manager_pool:
  "NewConnectionPool sample_pool_env ''a'' [WithPoolSize 1 0, WithPoolCodec CodecTypeJSON CompressTypeNone] () = Some ((), Inr one_conn_pool)"
proof -
  have "apply_options [WithPoolSize 1 0, WithPoolCodec CodecTypeJSON CompressTypeNone] DefaultPoolOptions = apply_options [WithPoolSize 1 0] DefaultPoolOptions"
    by (simp add: WithPoolSize_def WithPoolCodec_def DefaultPoolOptions_def)
  then show ?thesis
    using one_conn_pool_built unfolding NewConnectionPool_def by simp
qed

lemma sample_manager_run:
  "\<exists>s. mgr_run sample_pool_env [(0, MGet ''a''), (1, MGet ''a''), (0, MGo), (1, MGo), (0, MWorld ()), (1, MWorld ())] sample_manager = Some s
     \<and> ms_procs s = [MUse ''a'' 0 GetCheck, MUse ''a'' 0 GetCheck, MBack True 0 PIdle, MBack False 0 PIdle]
     \<and> length (pm_heap (ms_manager s)) = 1"
  using sample_manager_pool
  by (simp add: sample_manager_def NewPoolManager_def WithManagerPoolSize_def mgr_exec_def mgr_step1_def GetConnection_def pool_options_def
      enter_pool_def pool_step1_def upd_pool_def pool_at_def Let_def)
    (simp add: one_conn_pool_def WithPoolSize_def DefaultPoolOptions_def)

theorem one_pool_per_endpoint_witness:
  "\<exists>s. reach mgr_init (mgr_stp sample_pool_env) s \<and> length (pm_heap (ms_manager s)) = 1
     \<and> ms_procs s = [MUse ''a'' 0 GetCheck, MUse ''a'' 0 GetCheck, MBack True 0 PIdle, MBack False 0 PIdle]
     \<and> cp_address (pool_at (ms_manager s) 0) = ''a''"
proof -
  obtain s where s: "mgr_run sample_pool_env [(0, MGet ''a''), (1, MGet ''a''), (0, MGo), (1, MGo), (0, MWorld ()), (1, MWorld ())] sample_manager = Some s"
    "ms_procs s = [MUse ''a'' 0 GetCheck, MUse ''a'' 0 GetCheck, MBack True 0 PIdle, MBack False 0 PIdle]" "length (pm_heap (ms_manager s)) = 1"
    using sample_manager_run by blast
  have "mgr_init sample_manager"
    unfolding mgr_init_def sample_manager_def
    by (intro conjI exI [of _ CodecTypeJSON] exI [of _ CompressTypeNone] exI [of _ "[WithManagerPoolSize 1 0]"]) auto
  then have r: "reach mgr_init (mgr_stp sample_pool_env) s"
    by (rule mgr_run_reach [OF reach_init s(1)])
  then show ?thesis
    using one_pool_per_endpoint [OF r] s(2,3) by (intro exI [of _ s]) simp
qed

end
