(* ===== verification/Discovery_Source.thy ===== *)
theory Discovery_Source
  imports Memory_Registry Load_Balancer Pool_Manager
begin

text \<open>
  Where the client gets its connections (\<open>pkg/client/source.go\<close>): a fixed pool, or discovery with a
  cache of instances that a watch keeps up to date, a balancer, and a pool per endpoint. A slice is
  the list of its elements, and an instance is an address into the store of instances, as in the
  registry. \<open>cacheMu\<close> and \<open>watchMu\<close> are held for single sections, which are the definitions here.
\<close>

section \<open>Interfaces\<close>

text \<open>
  Of \<open>registry.Discovery\<close> and of \<open>loadbalancer.LoadBalancer\<close>: a discovery acts on its state \<open>'w\<close>, a
  balancer on its state \<open>'b\<close>, and it may or may not be a \<open>BalancerWithOptions\<close>. \<open>None\<close> is a panic.
\<close>

record ('w, 'x) Discovery_iface =
  dv_deref :: "'w \<Rightarrow> nat \<Rightarrow> ServiceInstance"
  dv_GetInstances :: "string \<Rightarrow> 'w \<Rightarrow> nat list or_error"
  dv_Watch :: "string \<Rightarrow> 'w \<Rightarrow> 'w \<times> 'x or_error"
  dv_Stop :: "'x \<Rightarrow> 'x"

record 'b LoadBalancer_iface =
  lb_Pick :: "ServiceInstance list \<Rightarrow> 'b \<Rightarrow> ('b \<times> ServiceInstance or_error) option"
  lb_PickWithOptions :: "(ServiceInstance list \<Rightarrow> PickOptions option \<Rightarrow> 'b \<Rightarrow> ('b \<times> ServiceInstance or_error) option) option"

text \<open>The in-memory registry as a discovery; \<open>ks\<close> is the order in which the runtime visits its map.\<close>

definition memory_discovery :: "(Registry \<Rightarrow> string list) \<Rightarrow> (Registry, memoryWatcher) Discovery_iface" where
  "memory_discovery ks =
     \<lparr>dv_deref = mr_heap, dv_GetInstances = (\<lambda>service r. Inr (GetInstances (ks r) service r)),
      dv_Watch = (\<lambda>service r. case Watch service r of (r', w) \<Rightarrow> (r', Inr w)), dv_Stop = watcher_Stop\<rparr>"

section \<open>A fixed address\<close>

text \<open>What \<open>acquire\<close> makes of the result of the pool's \<open>GetWithContext\<close>.\<close>

definition fixed_acquire :: "nat or_error \<Rightarrow> nat or_error" where
  "fixed_acquire got = (case got of Inl e \<Rightarrow> Inl (Wrapped ''get connection: '' e []) | Inr conn \<Rightarrow> Inr conn)"

definition fixed_Close :: "ConnectionPool \<Rightarrow> ConnectionPool" where
  "fixed_Close p = pool_Close p"

section \<open>Discovery\<close>

record ('w, 'x, 'b) discoverySource =
  ds_poolManager :: PoolManager
  ds_discovery :: "('w, 'x) Discovery_iface option"
  ds_loadBalancer :: "'b LoadBalancer_iface"
  ds_balancer :: 'b
  ds_enableWatch :: bool
  ds_instanceCache :: "string \<rightharpoonup> nat list"
  ds_watchers :: "string \<rightharpoonup> 'x"

text \<open>The cache is used when it holds an instance for the service.\<close>

definition cached_instances :: "string \<Rightarrow> ('w, 'x, 'b) discoverySource \<Rightarrow> nat list option" where
  "cached_instances service s =
     (case ds_instanceCache s service of None \<Rightarrow> None | Some ps \<Rightarrow> if length ps > 0 then Some ps else None)"

definition store_instances :: "string \<Rightarrow> nat list \<Rightarrow> ('w, 'x, 'b) discoverySource \<Rightarrow> ('w, 'x, 'b) discoverySource" where
  "store_instances service ps s = s\<lparr>ds_instanceCache := (ds_instanceCache s)(service \<mapsto> ps)\<rparr>"

text \<open>The result, and whether a goroutine is started to watch the service.\<close>

definition getInstances ::
    "string \<Rightarrow> 'w \<Rightarrow> ('w, 'x, 'b) discoverySource \<Rightarrow> ('w, 'x, 'b) discoverySource \<times> nat list or_error \<times> bool" where
  "getInstances service w s =
     (case cached_instances service s of
        Some cached \<Rightarrow> (s, Inr cached, False)
      | None \<Rightarrow>
          (case ds_discovery s of
             None \<Rightarrow> (s, Inl (Errorf ''no discovery configured''), False)
           | Some dv \<Rightarrow>
               (case dv_GetInstances dv service w of
                  Inl err \<Rightarrow> (s, Inl (Wrapped ''discovery get instances: '' err []), False)
                | Inr instances \<Rightarrow> (store_instances service instances s, Inr instances, ds_enableWatch s))))"

definition source_pick ::
    "('m, 'v) Request \<Rightarrow> ServiceInstance list \<Rightarrow> ('w, 'x, 'b) discoverySource
     \<Rightarrow> (('w, 'x, 'b) discoverySource \<times> ServiceInstance or_error) option" where
  "source_pick req instances s =
     map_option (\<lambda>(b, r). (s\<lparr>ds_balancer := b\<rparr>, r))
       (case lb_PickWithOptions (ds_loadBalancer s) of
          Some bwo \<Rightarrow>
            (case Request_GetMetadata req MetaKeyHashKey of
               (key, has) \<Rightarrow>
                 if has \<and> key \<noteq> [] then bwo instances (Some (NewPickOptions key)) (ds_balancer s)
                 else lb_Pick (ds_loadBalancer s) instances (ds_balancer s))
        | None \<Rightarrow> lb_Pick (ds_loadBalancer s) instances (ds_balancer s))"

text \<open>
  \<open>acquire\<close> up to the pool manager: the endpoint it asks a connection for, or its error; and what it
  makes of the error of \<open>GetConnection\<close>.
\<close>

definition acquire_endpoint ::
    "('m, 'v) Request \<Rightarrow> 'w \<Rightarrow> ('w, 'x, 'b) discoverySource \<Rightarrow> (('w, 'x, 'b) discoverySource \<times> string or_error \<times> bool) option" where
  "acquire_endpoint req w s =
     (case getInstances (rq_Service req) w s of
        (s1, Inl err, watch) \<Rightarrow> Some (s1, Inl (Wrapped ''get instances: '' err []), watch)
      | (s1, Inr instances, watch) \<Rightarrow>
          if length instances = 0 then Some (s1, Inl (Errorf (''no available instances for '' @ rq_Service req)), watch)
          else Option.bind (ds_discovery s1) (\<lambda>dv.
            Option.bind (source_pick req (map (dv_deref dv w) instances) s1) (\<lambda>(s2, r).
              case r of
                Inl err \<Rightarrow> Some (s2, Inl (Wrapped ''pick instance: '' err []), watch)
              | Inr inst \<Rightarrow> Some (s2, Inr (Endpoint inst), watch))))"

definition acquire_conn :: "string \<Rightarrow> nat or_error \<Rightarrow> nat or_error" where
  "acquire_conn endpoint got =
     (case got of Inl e \<Rightarrow> Inl (Wrapped (''get connection to '' @ endpoint @ '': '') e []) | Inr conn \<Rightarrow> Inr conn)"

text \<open>\<open>watchService\<close> up to its loop: the goroutine goes on with the watcher, or ends.\<close>

definition watchService ::
    "string \<Rightarrow> 'w \<Rightarrow> ('w, 'x, 'b) discoverySource \<Rightarrow> ('w, 'x, 'b) discoverySource \<times> 'w \<times> 'x option" where
  "watchService service w s =
     (if ds_watchers s service \<noteq> None then (s, w, None)
      else case ds_discovery s of
        None \<Rightarrow> (s, w, None)
      | Some dv \<Rightarrow>
          (case dv_Watch dv service w of
             (w', Inl err) \<Rightarrow> (s, w', None)
           | (w', Inr watcher) \<Rightarrow> (s\<lparr>ds_watchers := (ds_watchers s)(service \<mapsto> watcher)\<rparr>, w', Some watcher)))"

text \<open>The loop of the update case replaces the first instance with the ID.\<close>

fun replace_first :: "(nat \<Rightarrow> bool) \<Rightarrow> nat \<Rightarrow> nat list \<Rightarrow> nat list" where
  "replace_first P x [] = []"
| "replace_first P x (p # ps) = (if P p then x # ps else p # replace_first P x ps)"

definition cache_event :: "(nat \<Rightarrow> ServiceInstance) \<Rightarrow> Event \<Rightarrow> nat list \<Rightarrow> nat list" where
  "cache_event h event instances =
     (case ev_Type event of
        EventTypeAdd \<Rightarrow> instances @ [ev_Instance event]
      | EventTypeDelete \<Rightarrow> filter (\<lambda>p. si_ID (h p) \<noteq> si_ID (h (ev_Instance event))) instances
      | EventTypeUpdate \<Rightarrow> replace_first (\<lambda>p. si_ID (h p) = si_ID (h (ev_Instance event))) (ev_Instance event) instances
      | EventTypeOther _ \<Rightarrow> instances)"

definition handleWatchEvent ::
    "(nat \<Rightarrow> ServiceInstance) \<Rightarrow> string \<Rightarrow> Event \<Rightarrow> ('w, 'x, 'b) discoverySource \<Rightarrow> ('w, 'x, 'b) discoverySource" where
  "handleWatchEvent h service event s =
     (let instances = (case ds_instanceCache s service of None \<Rightarrow> [] | Some ps \<Rightarrow> ps);
          s1 = (if ev_Type event = EventTypeDelete
             then s\<lparr>ds_poolManager := RemovePool (Endpoint (h (ev_Instance event))) (ds_poolManager s)\<rparr> else s)
      in store_instances service (cache_event h event instances) s1)"

text \<open>\<open>ks\<close> is the order in which the runtime visits the watchers, \<open>addrs\<close> that of the pools.\<close>

definition source_Close :: "string list \<Rightarrow> ('w, 'x, 'b) discoverySource \<Rightarrow> ('w, 'x, 'b) discoverySource" where
  "source_Close addrs s =
     s\<lparr>ds_watchers := (\<lambda>service. map_option (case ds_discovery s of Some dv \<Rightarrow> dv_Stop dv | None \<Rightarrow> id) (ds_watchers s service)),
       ds_poolManager := Manager_Close addrs (ds_poolManager s)\<rparr>"

section \<open>The cache follows the registry\<close>

definition ids_in :: "(nat \<Rightarrow> ServiceInstance) \<Rightarrow> nat list \<Rightarrow> string set" where
  "ids_in h ps = (\<lambda>p. si_ID (h p)) ` set ps"

lemma ids_in_simps [simp]: "ids_in h [] = {}" "ids_in h (p # ps) = insert (si_ID (h p)) (ids_in h ps)"
  "ids_in h (ps @ qs) = ids_in h ps \<union> ids_in h qs"
  by (auto simp: ids_in_def)

lemma ids_in_replace: "ids_in h (replace_first (\<lambda>p. si_ID (h p) = si_ID (h x)) x ps) = ids_in h ps"
  by (induction ps) auto

lemma ids_in_filter: "ids_in h (filter (\<lambda>p. si_ID (h p) \<noteq> i) ps) = ids_in h ps - {i}"
  by (auto simp: ids_in_def)

text \<open>One event does to the IDs in the cache what it does to the view of the service.\<close>

lemma cache_event_ids:
  assumes "known_update h v ev" and "ids_in h ps = dom v"
  shows "ids_in h (cache_event h ev ps) = dom (apply_event h v ev)"
  using assms
  by (cases "ev_Type ev")
    (auto simp: cache_event_def apply_event_def known_update_def ids_in_replace ids_in_filter)

lemma cache_events_ids:
  assumes "known_updates h v evs" and "ids_in h ps = dom v"
  shows "ids_in h (foldl (\<lambda>ps ev. cache_event h ev ps) ps evs) = dom (foldl (apply_event h) v evs)"
  using assms
proof (induction evs arbitrary: v ps)
  case (Cons ev evs)
  then show ?case
    using cache_event_ids [of h v ev ps] by simp
qed simp

lemma cache_event_cong: "same_ids h h' \<Longrightarrow> cache_event h' = cache_event h"
  by (simp add: cache_event_def same_ids_def fun_eq_iff split: EventType.splits)

lemma ids_in_cong: "same_ids h h' \<Longrightarrow> ids_in h' = ids_in h"
  by (simp add: ids_in_def same_ids_def fun_eq_iff)

lemma handle_events:
  assumes "ds_instanceCache s service = Some ps"
  shows "ds_instanceCache (foldl (\<lambda>s ev. handleWatchEvent h service ev s) s evs) service
    = Some (foldl (\<lambda>ps ev. cache_event h ev ps) ps evs)"
  using assms
proof (induction evs arbitrary: s ps)
  case (Cons ev evs)
  have "ds_instanceCache (handleWatchEvent h service ev s) service = Some (cache_event h ev ps)"
    using Cons.prems by (simp add: handleWatchEvent_def store_instances_def Let_def)
  then show ?case
    using Cons.IH by simp
qed simp

lemma ids_GetInstances:
  assumes "mr_wf r" and "range_order (mr_instances r) ks" and "\<forall>i p. mr_instances r i = Some p \<longrightarrow> si_Status (mr_heap r p) = StatusUp"
  shows "ids_in (mr_heap r) (GetInstances ks service r) = dom (service_view service r)"
proof -
  have ran: "set (range_vals (mr_instances r) ks) = ran (mr_instances r)"
    using set_range_vals [OF assms(2)] .
  have ids: "si_ID (mr_heap r p) = i" if "mr_instances r i = Some p" for i p
    using assms(1) that by (simp add: mr_wf_def)
  show ?thesis
    using ran ids assms(3)
    by (force simp: ids_in_def GetInstances_def service_view_def ran_def dom_def split: option.splits if_splits)
qed

section \<open>Properties of the discovery source\<close>

definition all_up :: "Registry \<Rightarrow> bool" where
  "all_up r \<longleftrightarrow> (\<forall>i p. mr_instances r i = Some p \<longrightarrow> si_Status (mr_heap r p) = StatusUp)"

text \<open>A source over the in-memory registry that has not met the service yet.\<close>

definition new_to :: "(Registry \<Rightarrow> string list) \<Rightarrow> string \<Rightarrow> (Registry, memoryWatcher, 'b) discoverySource \<Rightarrow> bool" where
  "new_to ks service s \<longleftrightarrow> ds_discovery s = Some (memory_discovery ks) \<and> ds_enableWatch s
     \<and> ds_instanceCache s service = None \<and> ds_watchers s service = None"

lemma getInstances_miss:
  assumes "new_to ks service s"
  shows "getInstances service r s = (store_instances service (GetInstances (ks r) service r) s, Inr (GetInstances (ks r) service r), True)"
  using assms by (simp add: getInstances_def new_to_def cached_instances_def memory_discovery_def)

lemma watchService_first:
  assumes "ds_discovery s = Some (memory_discovery ks)" and "ds_watchers s service = None" and "Watch service r = (r1, w)"
  shows "watchService service r s = (s\<lparr>ds_watchers := (ds_watchers s)(service \<mapsto> w)\<rparr>, r1, Some w)"
  using assms by (simp add: watchService_def memory_discovery_def)

text \<open>
  (C28) The client's cache of instances converges to the registry: when the watch of a service starts right
  after its first lookup, then after any operations on the registry that put no more than ten events
  into the watcher's channel, and once the events are handled, the cache holds exactly the instances
  that the registry has for the service.
\<close>

theorem discovery_cache_converges:
  assumes "mr_wf r" and "mr_open r" and "ids_one_service (mr_heap r)" and "all_up r"
    and "range_order (mr_instances r) (ks r)" and "new_to ks service s" and "length ops \<le> 10"
  shows "\<exists>s1 ps s2 r1 w r2 qs. getInstances service r s = (s1, Inr ps, True) \<and> watchService service r s1 = (s2, r1, Some w)
    \<and> mr_run ops r1 = Some r2
    \<and> ds_instanceCache (foldl (\<lambda>s ev. handleWatchEvent (mr_heap r2) service ev s) s2 (chan_events r2 (mw_ch w))) service = Some qs
    \<and> ids_in (mr_heap r2) qs = dom (service_view service r2)"
proof -
  let ?ps = "GetInstances (ks r) service r"
  let ?s1 = "store_instances service ?ps s"
  obtain r1 w where w: "Watch service r = (r1, w)"
    by force
  note eff = Watch_effect [OF assms(1,2) w]
  let ?s2 = "?s1\<lparr>ds_watchers := (ds_watchers ?s1)(service \<mapsto> w)\<rparr>"
  obtain r2 where r2: "mr_run ops r1 = Some r2" "same_ids (mr_heap r) (mr_heap r2)"
    "service_view service r2 = foldl (apply_event (mr_heap r)) (service_view service r) (chan_events r2 (mw_ch w))"
    "known_updates (mr_heap r) (service_view service r) (chan_events r2 (mw_ch w))"
    using mr_run_tracks [of r1 "mr_heap r" "mw_ch w" service ops "service_view service r"] eff assms(3,7) by auto
  have ids: "ids_in (mr_heap r) ?ps = dom (service_view service r)"
    using ids_GetInstances [OF assms(1,5)] assms(4) by (simp add: all_up_def)
  have "ids_in (mr_heap r2) (foldl (\<lambda>ps ev. cache_event (mr_heap r2) ev ps) ?ps (chan_events r2 (mw_ch w))) = dom (service_view service r2)"
    using cache_events_ids [OF r2(4) ids] by (simp add: r2(3) cache_event_cong [OF r2(2)] ids_in_cong [OF r2(2)])
  moreover have "ds_instanceCache ?s2 service = Some ?ps"
    by (simp add: store_instances_def)
  ultimately have "\<exists>qs. ds_instanceCache (foldl (\<lambda>s ev. handleWatchEvent (mr_heap r2) service ev s) ?s2 (chan_events r2 (mw_ch w))) service = Some qs
      \<and> ids_in (mr_heap r2) qs = dom (service_view service r2)"
    using handle_events [of ?s2 service ?ps "mr_heap r2" "chan_events r2 (mw_ch w)"] by simp
  moreover have "watchService service r ?s1 = (?s2, r1, Some w)"
    using assms(6) w by (intro watchService_first) (simp_all add: new_to_def store_instances_def)
  ultimately show ?thesis
    using getInstances_miss [OF assms(6), of r] r2(1) by blast
qed

definition sample_source :: "(Registry, memoryWatcher, unit) discoverySource" where
  "sample_source =
     \<lparr>ds_poolManager = NewPoolManager CodecTypeJSON CompressTypeNone [], ds_discovery = Some (memory_discovery (\<lambda>_. [])),
      ds_loadBalancer = \<lparr>lb_Pick = (\<lambda>instances b. Some (b, Inr (hd instances))), lb_PickWithOptions = None\<rparr>, ds_balancer = (),
      ds_enableWatch = True, ds_instanceCache = Map.empty, ds_watchers = Map.empty\<rparr>"

theorem discovery_cache_converges_witness:
  "\<exists>s1 ps s2 r1 w r2 qs. getInstances ''svc'' (NewRegistry sample_heap) sample_source = (s1, Inr ps, True)
    \<and> watchService ''svc'' (NewRegistry sample_heap) s1 = (s2, r1, Some w)
    \<and> mr_run [OpRegister 1, OpRegister 2, OpDeregister ''svc'' ''1'', OpUpdate 7 2] r1 = Some r2
    \<and> ds_instanceCache (foldl (\<lambda>s ev. handleWatchEvent (mr_heap r2) ''svc'' ev s) s2 (chan_events r2 (mw_ch w))) ''svc'' = Some qs
    \<and> ids_in (mr_heap r2) qs = dom (service_view ''svc'' r2)"
  by (rule discovery_cache_converges [where ks = "\<lambda>_. []"])
    (simp_all add: mr_wf_New, simp_all add: ids_one_service_def NewRegistry_def sample_heap_def NewServiceInstance_def all_up_def
      range_order_def new_to_def sample_source_def)

text \<open>
  The lookup and the start of the watch are two steps: an instance that registers in between is
  neither in the cache nor announced to the watcher, and since the cache is not empty no later call
  looks it up again.
\<close>

theorem instance_between_lookup_and_watch_is_missed:
  assumes "mr_wf r" and "mr_open r" and "range_order (mr_instances r) (ks r)" and "new_to ks service s"
    and "GetInstances (ks r) service r \<noteq> []" and "mr_instances r (si_ID (mr_heap r q)) = None" and "si_Service (mr_heap r q) = service"
  shows "\<exists>s1 ps r1 s2 r2 w. getInstances service r s = (s1, Inr ps, True) \<and> Register q r = Some (r1, None)
    \<and> watchService service r1 s1 = (s2, r2, Some w)
    \<and> service_view service r2 (si_ID (mr_heap r2 q)) = Some q \<and> chan_events r2 (mw_ch w) = []
    \<and> si_ID (mr_heap r2 q) \<notin> ids_in (mr_heap r2) ps \<and> (\<forall>r'. getInstances service r' s2 = (s2, Inr ps, False))"
proof -
  let ?ps = "GetInstances (ks r) service r"
  let ?s1 = "store_instances service ?ps s" and ?ra = "r\<lparr>mr_instances := (mr_instances r)(si_ID (mr_heap r q) \<mapsto> q)\<rparr>"
  obtain r1 where r1: "notify service \<lparr>ev_Type = EventTypeAdd, ev_Instance = q\<rparr> ?ra = Some r1"
    "mr_wf r1" "mr_open r1" "mr_instances r1 = mr_instances ?ra" "mr_heap r1 = mr_heap ?ra"
    by (rule notify_frame [of ?ra service "\<lparr>ev_Type = EventTypeAdd, ev_Instance = q\<rparr>"])
      (use assms(1,2) mr_wf_insert(1) in auto)
  obtain r2 w where w: "Watch service r1 = (r2, w)"
    by force
  note eff = Watch_effect [OF r1(2,3) w]
  let ?s2 = "?s1\<lparr>ds_watchers := (ds_watchers ?s1)(service \<mapsto> w)\<rparr>"
  have "si_ID (mr_heap r q) \<notin> ids_in (mr_heap r) ?ps"
    using assms(1,3,6) set_range_vals [OF assms(3)] by (auto simp: ids_in_def GetInstances_def ran_def mr_wf_def)
  moreover have "service_view service r1 (si_ID (mr_heap r q)) = Some q"
    using r1(4,5) assms(7) by (simp add: service_view_def)
  moreover have "watchService service r1 ?s1 = (?s2, r2, Some w)"
    using assms(4) w by (intro watchService_first) (simp_all add: new_to_def store_instances_def)
  moreover have "getInstances service r' ?s2 = (?s2, Inr ?ps, False)" for r'
    using assms(5) by (simp add: getInstances_def cached_instances_def store_instances_def)
  moreover have "Register q r = Some (r1, None)"
    using r1(1) assms(7) by (simp add: Register_def Let_def)
  moreover have "mr_heap r2 = mr_heap r"
    using eff(3) r1(5) by simp
  ultimately show ?thesis
    using getInstances_miss [OF assms(4), of r] eff(5,6) by (metis (no_types, lifting))
qed

end
