(* ===== verification/RPC_Client.thy ===== *)
theory RPC_Client
  imports Discovery_Source Interceptors
begin

text \<open>
  The high-level client: its options (\<open>pkg/client/options.go\<close>), the affinity key in a context
  (\<open>affinity.go\<close>) and the calls (\<open>client.go\<close>). A call acts on the state \<open>'s\<close> of the program, in which it
  finds the clock and the client's breakers; where its connection comes from, and what the connection
  does, are the operations of the interface \<open>connSource\<close> and of a pooled connection.
\<close>

named_theorems client_defs \<open>the options and operations of the client\<close>

section \<open>Contexts\<close>

text \<open>Of a context the client uses the affinity key and the deadline.\<close>

record call_ctx =
  cx_hashKey :: "string option"
  cx_deadline :: "instant option"

definition WithHashKey :: "call_ctx \<Rightarrow> string \<Rightarrow> call_ctx" where
  "WithHashKey ctx key = ctx\<lparr>cx_hashKey := Some key\<rparr>"

definition hashKeyFromContext :: "call_ctx \<Rightarrow> string \<times> bool" where
  "hashKeyFromContext ctx = (case cx_hashKey ctx of None \<Rightarrow> ([], False) | Some key \<Rightarrow> (key, key \<noteq> []))"

text \<open>\<open>context.WithTimeout\<close>: an earlier deadline of the parent stays.\<close>

definition ctx_WithTimeout :: "instant \<Rightarrow> duration \<Rightarrow> call_ctx \<Rightarrow> call_ctx" where
  "ctx_WithTimeout now d ctx =
     ctx\<lparr>cx_deadline := Some (case cx_deadline ctx of None \<Rightarrow> now + d | Some t \<Rightarrow> min t (now + d))\<rparr>"

section \<open>Options\<close>

record ('m, 'v, 's, 'w, 'x, 'b) clientOptions =
  co_codecType :: byte
  co_compressType :: byte
  co_maxConnections :: int
  co_minConnections :: int
  co_idleTimeout :: duration
  co_callTimeout :: duration
  co_discovery :: "('w, 'x) Discovery_iface option"
  co_loadBalancer :: "'b LoadBalancer_iface \<times> 'b"
  co_enableWatch :: bool
  co_enableCircuitBreaker :: bool
  co_interceptors :: "(call_ctx, 'm, 'v, 's) interceptor list"
  co_maxRetries :: int
  co_retryInterval :: duration

text \<open>\<open>rr\<close> is a new round-robin balancer.\<close>

definition defaultOptions :: "'b LoadBalancer_iface \<times> 'b \<Rightarrow> ('m, 'v, 's, 'w, 'x, 'b) clientOptions" where
  [client_defs]: "defaultOptions rr =
     \<lparr>co_codecType = CodecTypeJSON, co_compressType = CompressTypeNone, co_maxConnections = 100, co_minConnections = 10,
      co_idleTimeout = 90 * Second, co_callTimeout = 5 * Second, co_discovery = None, co_loadBalancer = rr,
      co_enableWatch = True, co_enableCircuitBreaker = True, co_interceptors = [], co_maxRetries = 0, co_retryInterval = 0\<rparr>"

type_synonym ('m, 'v, 's, 'w, 'x, 'b) client_Option =
  "('m, 'v, 's, 'w, 'x, 'b) clientOptions \<Rightarrow> ('m, 'v, 's, 'w, 'x, 'b) clientOptions"

definition client_WithCodec :: "byte \<Rightarrow> byte \<Rightarrow> ('m, 'v, 's, 'w, 'x, 'b) client_Option" where
  [client_defs]: "client_WithCodec codec compress opts = opts\<lparr>co_codecType := codec, co_compressType := compress\<rparr>"

definition client_WithPoolSize :: "int \<Rightarrow> int \<Rightarrow> ('m, 'v, 's, 'w, 'x, 'b) client_Option" where
  [client_defs]: "client_WithPoolSize mx mn opts = opts\<lparr>co_maxConnections := mx, co_minConnections := mn\<rparr>"

definition client_WithTimeout :: "duration \<Rightarrow> ('m, 'v, 's, 'w, 'x, 'b) client_Option" where
  [client_defs]: "client_WithTimeout timeout opts = opts\<lparr>co_callTimeout := timeout\<rparr>"

definition WithDiscovery :: "('w, 'x) Discovery_iface option \<Rightarrow> ('m, 'v, 's, 'w, 'x, 'b) client_Option" where
  [client_defs]: "WithDiscovery discovery opts = opts\<lparr>co_discovery := discovery\<rparr>"

definition WithLoadBalancer :: "'b LoadBalancer_iface \<times> 'b \<Rightarrow> ('m, 'v, 's, 'w, 'x, 'b) client_Option" where
  [client_defs]: "WithLoadBalancer lb opts = opts\<lparr>co_loadBalancer := lb\<rparr>"

definition WithWatch :: "bool \<Rightarrow> ('m, 'v, 's, 'w, 'x, 'b) client_Option" where
  [client_defs]: "WithWatch enable opts = opts\<lparr>co_enableWatch := enable\<rparr>"

definition WithCircuitBreaker :: "bool \<Rightarrow> ('m, 'v, 's, 'w, 'x, 'b) client_Option" where
  [client_defs]: "WithCircuitBreaker enable opts = opts\<lparr>co_enableCircuitBreaker := enable\<rparr>"

definition WithClientInterceptors :: "(call_ctx, 'm, 'v, 's) interceptor list \<Rightarrow> ('m, 'v, 's, 'w, 'x, 'b) client_Option" where
  [client_defs]: "WithClientInterceptors is opts = opts\<lparr>co_interceptors := co_interceptors opts @ is\<rparr>"

definition WithRetry :: "int \<Rightarrow> duration \<Rightarrow> ('m, 'v, 's, 'w, 'x, 'b) client_Option" where
  [client_defs]: "WithRetry maxRetries retryInterval opts = opts\<lparr>co_maxRetries := maxRetries, co_retryInterval := retryInterval\<rparr>"

definition client_WithRateLimit :: "(call_ctx, 'm, 'v, 's) interceptor \<Rightarrow> ('m, 'v, 's, 'w, 'x, 'b) client_Option" where
  [client_defs]: "client_WithRateLimit limiting opts = opts\<lparr>co_interceptors := limiting # co_interceptors opts\<rparr>"

section \<open>The client\<close>

datatype ('w, 'x, 'b) conn_source = FixedSource ConnectionPool | DiscSource "('w, 'x, 'b) discoverySource"

record ('m, 'v, 's, 'w, 'x, 'b) Client =
  cl_opts :: "('m, 'v, 's, 'w, 'x, 'b) clientOptions"
  cl_source :: "('w, 'x, 'b) conn_source"
  cl_breakerOn :: bool
  cl_codec :: "('m, 'v) Codec option"
  cl_interceptors :: "(call_ctx, 'm, 'v, 's) interceptor list"

text \<open>\<open>wait\<close> is the pause of the retry interceptor between two attempts.\<close>

definition buildInterceptors ::
    "(call_ctx \<Rightarrow> duration \<Rightarrow> 's \<Rightarrow> 's \<times> go_error option) \<Rightarrow> ('m, 'v, 's, 'w, 'x, 'b) clientOptions \<Rightarrow> (call_ctx, 'm, 'v, 's) interceptor list" where
  "buildInterceptors wait opts =
     (if co_maxRetries opts > 0 then [Retry wait (co_maxRetries opts) (co_retryInterval opts)] else []) @ co_interceptors opts"

text \<open>\<open>None\<close>: the constructor of the pool does not return.\<close>

definition NewClient ::
    "('f, 'c) pool_env \<Rightarrow> ('m, 'v) Codec registry \<Rightarrow> (call_ctx \<Rightarrow> duration \<Rightarrow> 's \<Rightarrow> 's \<times> go_error option) \<Rightarrow> 'b LoadBalancer_iface \<times> 'b
     \<Rightarrow> string \<Rightarrow> ('m, 'v, 's, 'w, 'x, 'b) client_Option list \<Rightarrow> 'f \<Rightarrow> ('f \<times> ('m, 'v, 's, 'w, 'x, 'b) Client or_error) option" where
  "NewClient env codecs wait rr address opts f =
     (let options = apply_options opts (defaultOptions rr) in
      if co_discovery options \<noteq> None
      then Some (f, Inl (Errorf ''NewClient is for fixed-address clients; use NewDiscoveryClient when supplying WithDiscovery''))
      else
        map_option (\<lambda>(f', r). (f', case r of
            Inl err \<Rightarrow> Inl err
          | Inr p \<Rightarrow> Inr \<lparr>cl_opts = options, cl_source = FixedSource p, cl_breakerOn = False,
              cl_codec = codec_Get (co_codecType options) codecs, cl_interceptors = buildInterceptors wait options\<rparr>))
          (NewConnectionPool env address
            [WithPoolSize (co_maxConnections options) (co_minConnections options),
             WithPoolCodec (co_codecType options) (co_compressType options), WithIdleTimeout (co_idleTimeout options)] f))"

definition NewDiscoveryClient ::
    "('m, 'v) Codec registry \<Rightarrow> (call_ctx \<Rightarrow> duration \<Rightarrow> 's \<Rightarrow> 's \<times> go_error option) \<Rightarrow> 'b LoadBalancer_iface \<times> 'b
     \<Rightarrow> ('m, 'v, 's, 'w, 'x, 'b) client_Option list \<Rightarrow> ('m, 'v, 's, 'w, 'x, 'b) Client or_error" where
  "NewDiscoveryClient codecs wait rr opts =
     (let options = apply_options opts (defaultOptions rr) in
      if co_discovery options = None then Inl (Errorf ''discovery is required'')
      else Inr
        \<lparr>cl_opts = options,
         cl_source = DiscSource
           \<lparr>ds_poolManager = NewPoolManager (co_codecType options) (co_compressType options)
              [WithManagerPoolSize (co_maxConnections options) (co_minConnections options)],
            ds_discovery = co_discovery options, ds_loadBalancer = fst (co_loadBalancer options),
            ds_balancer = snd (co_loadBalancer options), ds_enableWatch = co_enableWatch options,
            ds_instanceCache = Map.empty, ds_watchers = Map.empty\<rparr>,
         cl_breakerOn = co_enableCircuitBreaker options,
         cl_codec = codec_Get (co_codecType options) codecs, cl_interceptors = buildInterceptors wait options\<rparr>)"

definition Client_Use :: "(call_ctx, 'm, 'v, 's) interceptor list \<Rightarrow> ('m, 'v, 's, 'w, 'x, 'b) Client \<Rightarrow> ('m, 'v, 's, 'w, 'x, 'b) Client" where
  "Client_Use is c = c\<lparr>cl_interceptors := cl_interceptors c @ is\<rparr>"

text \<open>\<open>addrs\<close> is the order in which the runtime visits the pools of a discovery source.\<close>

definition Client_Close :: "string list \<Rightarrow> ('m, 'v, 's, 'w, 'x, 'b) Client \<Rightarrow> ('m, 'v, 's, 'w, 'x, 'b) Client" where
  "Client_Close addrs c =
     c\<lparr>cl_source := (case cl_source c of FixedSource p \<Rightarrow> FixedSource (fixed_Close p) | DiscSource s \<Rightarrow> DiscSource (source_Close addrs s))\<rparr>"

section \<open>Calls\<close>

text \<open>
  What a call finds in the program: how its source hands out a connection (\<open>connSource.acquire\<close>), what
  the connection does, the clock, the breakers of the client by service, and the rounding of the
  breaker's failure rate. A \<open>*protocol.Response\<close>, nil or not, inside an \<open>any\<close> is \<open>en_box\<close>, and \<open>en_unbox\<close>
  is the type assertion back.
\<close>

record ('m, 'v, 's) call_env =
  en_acquire :: "call_ctx \<Rightarrow> ('m, 'v) Request \<Rightarrow> 's \<Rightarrow> 's \<times> nat result"
  en_SendRequest :: "nat \<Rightarrow> call_ctx \<Rightarrow> ('m, 'v) Request \<Rightarrow> 's \<Rightarrow> 's \<times> ('m, 'v) Response result"
  en_Close :: "nat \<Rightarrow> 's \<Rightarrow> 's"
  en_Release :: "nat \<Rightarrow> 's \<Rightarrow> 's"
  en_now :: "'s \<Rightarrow> instant"
  en_breakers :: "'s \<Rightarrow> string \<rightharpoonup> CircuitBreaker"
  en_setBreakers :: "(string \<rightharpoonup> CircuitBreaker) \<Rightarrow> 's \<Rightarrow> 's"
  en_rnd :: "rat \<Rightarrow> rat"
  en_box :: "('m, 'v) Response option \<Rightarrow> ('m, 'v) iface"
  en_unbox :: "('m, 'v) iface \<Rightarrow> ('m, 'v) Response option option"

definition callOnce ::
    "('m, 'v, 's) call_env \<Rightarrow> call_ctx \<Rightarrow> ('m, 'v) Request \<Rightarrow> 's \<Rightarrow> 's \<times> ('m, 'v) Response result" where
  "callOnce en ctx req s =
     (case en_acquire en ctx req s of
        (s1, RPanic) \<Rightarrow> (s1, RPanic)
      | (s1, Err err) \<Rightarrow> (s1, Err err)
      | (s1, Ok conn) \<Rightarrow>
          (case en_SendRequest en conn ctx req s1 of
             (s2, RPanic) \<Rightarrow> (s2, RPanic)
           | (s2, Err err) \<Rightarrow> (en_Close en conn s2, Err (Wrapped ''send: '' err []))
           | (s2, Ok resp) \<Rightarrow>
               (case (IsError resp, client_unmapError resp) of
                  (True, Some e) \<Rightarrow> (en_Release en conn s2, Err e)
                | _ \<Rightarrow> (en_Release en conn s2, Ok resp))))"

text \<open>The double check is one look: the map is only added to, and a service once in it stays.\<close>

definition getCircuitBreaker :: "('m, 'v, 's) call_env \<Rightarrow> string \<Rightarrow> 's \<Rightarrow> 's \<times> CircuitBreaker" where
  "getCircuitBreaker en service s =
     (case en_breakers en s service of
        Some cb \<Rightarrow> (s, cb)
      | None \<Rightarrow>
          (let cb = CB_New (en_now en s) (Some CB_DefaultConfig)
           in (en_setBreakers en ((en_breakers en s)(service \<mapsto> cb)) s, cb)))"

definition set_breaker :: "('m, 'v, 's) call_env \<Rightarrow> string \<Rightarrow> CircuitBreaker \<Rightarrow> 's \<Rightarrow> 's" where
  "set_breaker en service cb s = en_setBreakers en ((en_breakers en s)(service \<mapsto> cb)) s"

text \<open>
  \<open>CallResponse\<close> of the breaker in the program: its lock is free while the call runs, and what it finds
  afterwards is the breaker as other calls have left it.
\<close>

definition guarded_call ::
    "('m, 'v, 's) call_env \<Rightarrow> call_ctx \<Rightarrow> ('m, 'v) Request \<Rightarrow> 's \<Rightarrow> 's \<times> ('m, 'v) Response result" where
  "guarded_call en ctx req s =
     (case getCircuitBreaker en (rq_Service req) s of
        (s0, cb) \<Rightarrow>
          (case beforeCall (en_now en s0) cb of
             (cb1, Some e) \<Rightarrow> (set_breaker en (rq_Service req) cb1 s0, Err e)
           | (cb1, None) \<Rightarrow>
               (case callOnce en ctx req (set_breaker en (rq_Service req) cb1 s0) of
                  (s1, RPanic) \<Rightarrow> (s1, RPanic)
                | (s1, r) \<Rightarrow>
                    (case Option.bind (en_breakers en s1 (rq_Service req))
                        (afterCall (en_rnd en) (en_now en s1) (en_now en s1) (case r of Err e \<Rightarrow> Some e | _ \<Rightarrow> None)) of
                       None \<Rightarrow> (s1, RPanic)
                     | Some cb2 \<Rightarrow> (set_breaker en (rq_Service req) cb2 s1, r)))))"

text \<open>The invoker of \<open>Call\<close>; with an error it returns a nil response in the interface.\<close>

definition call_invoker :: "('m, 'v, 's) call_env \<Rightarrow> bool \<Rightarrow> (call_ctx, 'm, 'v, 's) invoker" where
  "call_invoker en breakerOn ctx req s =
     (case (if breakerOn then guarded_call en ctx req s else callOnce en ctx req s) of
        (s1, RPanic) \<Rightarrow> (s1, Panic ''panic in a call'')
      | (s1, Err e) \<Rightarrow> (s1, Ret (en_box en None) (Some e))
      | (s1, Ok resp) \<Rightarrow> (s1, Ret (en_box en (Some resp)) None))"

definition call_request :: "instant \<Rightarrow> call_ctx \<Rightarrow> string \<Rightarrow> string \<Rightarrow> ('m, 'v) iface \<Rightarrow> ('m, 'v) Request" where
  "call_request now ctx service meth args =
     (let req = NewRequest now service meth args in
      case hashKeyFromContext ctx of
        (key, present) \<Rightarrow> if present then Request_SetMetadata MetaKeyHashKey key req else req)"

definition Call ::
    "('m, 'v, 's) call_env \<Rightarrow> ('m, 'v, 's, 'w, 'x, 'b) Client \<Rightarrow> call_ctx \<Rightarrow> string \<Rightarrow> string \<Rightarrow> ('m, 'v) iface \<Rightarrow> 's
     \<Rightarrow> 's \<times> ('m, 'v) Response option result" where
  "Call en c ctx service meth args s =
     (let ctx = (if co_callTimeout (cl_opts c) > 0 then ctx_WithTimeout (en_now en s) (co_callTimeout (cl_opts c)) ctx else ctx);
          req = call_request (en_now en s) ctx service meth args in
      case Intercept (NewChain (cl_interceptors c)) ctx req (call_invoker en (cl_breakerOn c)) s of
        (s1, Panic m) \<Rightarrow> (s1, RPanic)
      | (s1, Ret res (Some err)) \<Rightarrow> (s1, Err err)
      | (s1, Ret res None) \<Rightarrow>
          if res = INil then (s1, Ok None)
          else (case en_unbox en res of None \<Rightarrow> (s1, RPanic) | Some r \<Rightarrow> (s1, Ok r)))"

text \<open>
  The second part of \<open>CallTyped\<close>: the error it returns and what is in the caller's message then. A
  library that fails leaves the message as it was.
\<close>

definition typed_response :: "('m, 'v) lib \<Rightarrow> ('m, 'v) Response \<Rightarrow> 'm \<Rightarrow> go_error option \<times> 'm" where
  "typed_response lib r resp =
     (let by_proto = (\<lambda>b. case proto_value_un lib b resp of Inl e \<Rightarrow> (Some e, resp) | Inr msg \<Rightarrow> (None, msg));
          by_json = (\<lambda>b. case json_value_un lib b (IProto resp) of
             Inl e \<Rightarrow> (Some e, resp) | Inr (IProto msg) \<Rightarrow> (None, msg) | Inr _ \<Rightarrow> (None, resp)) in
      if IsError r then (Some (Errorf (''rpc error '' @ (case rs_Error r of Some e \<Rightarrow> Error_Error e | None \<Rightarrow> []))), resp)
      else if rs_Data r = INil then (None, resp)
      else case (case rs_Data r of IBytes b \<Rightarrow> Inr b | d \<Rightarrow> wrap_err ''marshal response data: '' (json_value lib d)) of
        Inl e \<Rightarrow> (Some e, resp)
      | Inr b \<Rightarrow>
          if rs_DataCodec r = PayloadCodecProtobuf then by_proto b
          else if rs_DataCodec r = PayloadCodecJSON then by_json b
          else if rs_DataCodec r = PayloadCodecRaw then (Some (Errorf ''cannot unmarshal raw bytes into typed response''), resp)
          else (case by_proto b of (None, msg) \<Rightarrow> (None, msg) | _ \<Rightarrow> by_json b))"

definition CallTyped ::
    "('m, 'v, 's) call_env \<Rightarrow> ('m, 'v) lib \<Rightarrow> ('m, 'v, 's, 'w, 'x, 'b) Client \<Rightarrow> call_ctx \<Rightarrow> string \<Rightarrow> string \<Rightarrow> 'm \<Rightarrow> 'm \<Rightarrow> 's
     \<Rightarrow> 's \<times> (('m, 'v) Response option \<times> go_error option \<times> 'm) result" where
  "CallTyped en lib c ctx service meth req resp s =
     (case Call en c ctx service meth (IProto req) s of
        (s1, RPanic) \<Rightarrow> (s1, RPanic)
      | (s1, Err err) \<Rightarrow> (s1, Ok (None, Some err, resp))
      | (s1, Ok None) \<Rightarrow> (s1, RPanic)
      | (s1, Ok (Some r)) \<Rightarrow> (case typed_response lib r resp of (err, msg) \<Rightarrow> (s1, Ok (Some r, err, msg))))"

section \<open>Connections are given back\<close>

text \<open>
  What the operations do to the connections a caller holds: acquiring one adds it, sending changes
  nothing, closing or releasing it gives it up.
\<close>

definition owns :: "('m, 'v, 's) call_env \<Rightarrow> ('s \<Rightarrow> nat multiset) \<Rightarrow> bool" where
  "owns en held \<longleftrightarrow>
     (\<forall>ctx req s. held (fst (en_acquire en ctx req s)) =
        (case snd (en_acquire en ctx req s) of Ok conn \<Rightarrow> add_mset conn (held s) | _ \<Rightarrow> held s))
     \<and> (\<forall>conn ctx req s. held (fst (en_SendRequest en conn ctx req s)) = held s)
     \<and> (\<forall>conn s. held (en_Close en conn s) = held s - {#conn#} \<and> held (en_Release en conn s) = held s - {#conn#})
     \<and> (\<forall>m s. held (en_setBreakers en m s) = held s)"

lemma callOnce_held:
  assumes "owns en held" and "callOnce en ctx req s = (s', r)" and "r \<noteq> RPanic"
  shows "held s' = held s"
proof -
  obtain s1 a where a: "en_acquire en ctx req s = (s1, a)"
    by force
  have h1: "held s1 = (case a of Ok conn \<Rightarrow> add_mset conn (held s) | _ \<Rightarrow> held s)"
    using assms(1) a by (auto simp: owns_def dest!: spec [of _ ctx] spec [of _ req] spec [of _ s])
  show ?thesis
  proof (cases a)
    case (Ok conn)
    obtain s2 b where b: "en_SendRequest en conn ctx req s1 = (s2, b)"
      by force
    have "held s2 = held s1"
      using assms(1) b by (metis owns_def fst_conv)
    then show ?thesis
      using assms h1 Ok a b by (auto simp: callOnce_def owns_def split: result.splits option.splits bool.splits)
  qed (use assms a h1 in \<open>auto simp: callOnce_def\<close>)
qed

lemma breaker_held:
  assumes "owns en held"
  shows "held (set_breaker en service cb s) = held s" "getCircuitBreaker en service s = (s0, cb') \<Longrightarrow> held s0 = held s"
  using assms by (auto simp: owns_def set_breaker_def getCircuitBreaker_def Let_def split: option.splits)

lemma guarded_call_held:
  assumes "owns en held" and "guarded_call en ctx req s = (s', r)" and "r \<noteq> RPanic"
  shows "held s' = held s"
proof -
  obtain s0 cb where g: "getCircuitBreaker en (rq_Service req) s = (s0, cb)"
    by force
  obtain cb1 e where b: "beforeCall (en_now en s0) cb = (cb1, e)"
    by force
  note h0 = breaker_held(2) [OF assms(1) g] and hb = breaker_held(1) [OF assms(1)]
  show ?thesis
  proof (cases e)
    case (Some err)
    then show ?thesis
      using assms(2) g b h0 hb by (auto simp: guarded_call_def)
  next
    case None
    obtain s1 r1 where r1: "callOnce en ctx req (set_breaker en (rq_Service req) cb1 s0) = (s1, r1)"
      by force
    have "r1 \<noteq> RPanic"
      using assms(2,3) g b None r1 by (auto simp: guarded_call_def)
    then have "held s1 = held s"
      using callOnce_held [OF assms(1) r1] h0 hb by simp
    then show ?thesis
      using assms(2,3) g b None r1 hb
      by (auto simp: guarded_call_def split: result.splits option.splits)
  qed
qed

lemma call_invoker_held:
  assumes "owns en held" and "call_invoker en on ctx req s = (s', Ret v e)"
  shows "held s' = held s"
  using assms(2) callOnce_held [OF assms(1)] guarded_call_held [OF assms(1)]
  by (auto simp: call_invoker_def split: prod.splits result.splits if_splits)

text \<open>An invoker that gives back what it takes does so under the retry interceptor.\<close>

lemma retry_loop_held:
  assumes "\<And>s s' v e. invoker ctx req s = (s', Ret v e) \<Longrightarrow> held s' = held s"
    and "\<And>s. held (fst (wait ctx interval s)) = held s"
    and "retry_loop wait interval ctx req invoker first last' k s = (s', Ret v e)"
  shows "held s' = held s"
  using assms(3)
proof (induction k arbitrary: first last' s)
  case (Suc k)
  obtain s1 w where w: "(if first then (s, None) else wait ctx interval s) = (s1, w)"
    by force
  have h1: "held s1 = held s"
    using w assms(2) [of s] by (auto split: if_splits)
  obtain s2 r where r: "invoker ctx req s1 = (s2, r)"
    by force
  show ?case
  proof (cases w)
    case (Some err)
    then show ?thesis
      using Suc.prems w h1 by simp
  next
    case None
    then obtain v2 e2 where v2: "r = Ret v2 e2"
      using Suc.prems w r by (cases r) auto
    then have "held s2 = held s"
      using assms(1) r h1 by simp
    then show ?thesis
      using Suc.prems Suc.IH [of False e2 s2] w None r v2 by (cases e2) (auto split: if_splits)
  qed
qed simp


definition sample_env :: "(unit, unit, nat multiset) call_env" where
  "sample_env =
     \<lparr>en_acquire = (\<lambda>ctx req s. (add_mset 0 s, Ok 0)), en_SendRequest = (\<lambda>conn ctx req s. (s, Err (Sentinel EOF))),
      en_Close = (\<lambda>conn s. s - {#conn#}), en_Release = (\<lambda>conn s. s - {#conn#}), en_now = (\<lambda>_. 0), en_breakers = (\<lambda>_ _. None),
      en_setBreakers = (\<lambda>_ s. s), en_rnd = id, en_box = (\<lambda>_. IOther ()), en_unbox = (\<lambda>_. Some None)\<rparr>"

definition sample_client :: "(unit, unit, nat multiset, unit, unit, unit) Client" where
  "sample_client = (let opts = client_WithTimeout 0 (WithRetry 2 0 (defaultOptions (\<lparr>lb_Pick = (\<lambda>_ _. None), lb_PickWithOptions = None\<rparr>, ())))
     in \<lparr>cl_opts = opts, cl_source = FixedSource one_conn_pool, cl_breakerOn = False, cl_codec = None,
         cl_interceptors = buildInterceptors (\<lambda>ctx d s. (s, None)) opts\<rparr>)"

lemma sample_call:
  "Call sample_env sample_client \<lparr>cx_hashKey = None, cx_deadline = None\<rparr> ''S'' ''M'' INil {#7#} = ({#7#}, Err (Wrapped ''send: '' (Sentinel EOF) []))"
  by (simp add: Call_def sample_client_def client_defs buildInterceptors_def Let_def Intercept_Cons Retry_def call_invoker_def
      callOnce_def sample_env_def isRetryable_def numeral_3_eq_3)


section \<open>A connection that is not given back to the pool\<close>

lemma pool_step1_gone:
  assumes "pool_step1 a g p = Some (p', g')"
  shows "cp_gone p \<le> cp_gone p' \<and> cp_opts p' = cp_opts p"
  using assms
  by (cases g; cases a)
    (auto simp: pool_step_defs add_conn_def pool_recv_def pool_send_def pool_Close_def shrink_def
      split: if_splits prod.splits recv_result.splits send_result.splits option.splits sum.splits list.splits nat.splits)

lemma pool_run_gone:
  "pool_stp\<^sup>*\<^sup>* s t \<Longrightarrow> cp_gone (ps_pool s) \<le> cp_gone (ps_pool t) \<and> cp_opts (ps_pool t) = cp_opts (ps_pool s)"
proof (induction rule: rtranclp_induct)
  case (step t u)
  obtain i a where "pool_exec (i, a) t = Some u"
    using step.hyps(2) by (auto simp: pool_stp_def)
  then obtain q where "pool_step1 a (ps_procs t ! i) (ps_pool t) = Some (ps_pool u, q)"
    by (auto simp: pool_exec_def split: if_splits)
  then show ?case
    using pool_step1_gone step.IH by fastforce
qed simp


text \<open>On a pool of one connection: one call dials, fails and closes; the next one can only wait.\<close>

definition lost_run :: "(nat \<times> pool_choice) list" where
  "lost_run = [(0, PGet), (0, PGo 0), (0, PGo 0), (0, PGo 0), (0, PDial (Inr 0)), (0, PGo 0), (0, PForget), (1, PGet), (1, PGo 0), (1, PGo 0)]"

lemma lost_run_ends:
  "\<exists>s u. pool_run lost_run \<lparr>ps_pool = one_conn_pool, ps_procs = [PIdle, PIdle]\<rparr> = Some s \<and> ps_procs s = [PIdle, NewCheck]
     \<and> cp_gone (ps_pool s) = 1 \<and> pl_MaxSize (cp_opts (ps_pool s)) = 1 \<and> \<not> cp_closed (ps_pool s) \<and> pool_exec (1, PGo 0) s = Some u"
  by (simp add: lost_run_def one_conn_pool_def WithPoolSize_def pool_run_simps upd_conn_def)


section \<open>Breakers and affinity\<close>

text \<open>While the breaker of a service is open, a call neither acquires a connection nor sends anything.\<close>

lemma open_breaker_call:
  assumes "cl_breakerOn c" and "cl_interceptors c = []" and "en_breakers en s service = Some cb"
    and "cb_state cb = StateOpen" and "time_Sub (en_now en s) (cb_openTime cb) \<le> cc_Timeout (cb_config cb)"
  shows "Call en c ctx service meth args s = (set_breaker en service cb s, Err (Sentinel ErrCircuitOpen))"
proof -
  have "rq_Service (call_request now ctx' service meth args) = service" for now ctx'
    by (simp add: call_request_def NewRequest_def Request_SetMetadata_def Let_def split: prod.splits)
  then show ?thesis
    using assms by (simp add: Call_def call_invoker_def guarded_call_def getCircuitBreaker_def beforeCall_def Let_def)
qed

text \<open>A call with an affinity key picks by that key when the balancer can.\<close>

lemma affinity_pick:
  assumes "lb_PickWithOptions (ds_loadBalancer s) = Some bwo" and "key \<noteq> []"
  shows "source_pick (call_request now (WithHashKey ctx key) service meth args) instances s
    = map_option (\<lambda>(b, r). (s\<lparr>ds_balancer := b\<rparr>, r)) (bwo instances (Some (NewPickOptions key)) (ds_balancer s))"
  using assms by (simp add: source_pick_def call_request_def hashKeyFromContext_def WithHashKey_def Let_def)

end
