(* ===== verification/App_Config.thy ===== *)
theory App_Config
  imports RPC_Server RPC_Client
begin

text \<open>
  The configuration of an application (\<open>pkg/config/config.go\<close>): its sections, and the options for the
  server and the client that are built from them. Reading the file and the YAML library are
  parameters, and so is \<open>time.ParseDuration\<close>.
\<close>

section \<open>Sections\<close>

record CircuitBreakerConfig =
  fc_Enabled :: bool
  fc_MaxRequests :: u32
  fc_MinRequests :: u32
  fc_Interval :: duration
  fc_Timeout :: duration
  fc_FailureThreshold :: rat
  fc_SuccessThreshold :: u32

record ServerConfig =
  sf_Address :: string
  sf_Codec :: string
  sf_Compress :: string
  sf_ReadTimeout :: duration
  sf_WriteTimeout :: duration
  sf_MaxConcurrent :: int
  sf_WorkerPoolSize :: int
  sf_EnableRegistry :: bool
  sf_HeartbeatInterval :: duration
  sf_Recovery :: bool
  sf_CircuitBreaker :: CircuitBreakerConfig

record ClientConfig =
  kf_Mode :: string
  kf_Address :: string
  kf_Timeout :: duration
  kf_Codec :: string
  kf_Compress :: string
  kf_MaxConnections :: int
  kf_MinConnections :: int
  kf_IdleTimeout :: duration
  kf_CallTimeout :: duration
  kf_Discovery :: string
  kf_LoadBalancer :: string
  kf_Watch :: bool
  kf_CircuitBreaker :: bool

record PoolConfig =
  pf_MaxSize :: int
  pf_MinSize :: int
  pf_MaxIdleTime :: duration
  pf_MaxLifetime :: duration
  pf_CleanupInterval :: duration
  pf_Codec :: string
  pf_Compress :: string
  pf_DialTimeout :: duration
  pf_KeepAlive :: bool
  pf_KeepAlivePeriod :: duration
  pf_EnableHealthCheck :: bool
  pf_HealthCheckInterval :: duration
  pf_WaitTimeout :: duration

record RegistryConfig =
  rf_Type :: string
  rf_Endpoints :: "string list"
  rf_DialTimeout :: duration
  rf_KeyPrefix :: string
  rf_LeaseTTL :: int

record Config =
  cf_Server :: ServerConfig
  cf_Client :: ClientConfig
  cf_Pool :: PoolConfig
  cf_Registry :: RegistryConfig

text \<open>\<open>decoded\<close> is what the YAML node decodes to; \<open>quoted\<close> the text as \<open>%q\<close> prints it.\<close>

definition UnmarshalYAML :: "(string \<Rightarrow> duration or_error) \<Rightarrow> (string \<Rightarrow> string) \<Rightarrow> string or_error \<Rightarrow> duration or_error" where
  "UnmarshalYAML ParseDuration quoted decoded =
     (case decoded of
        Inl err \<Rightarrow> Inl err
      | Inr s \<Rightarrow>
          (case ParseDuration s of
             Inl err \<Rightarrow> Inl (Wrapped (''invalid duration '' @ quoted s @ '': '') err [])
           | Inr dd \<Rightarrow> Inr dd))"

definition Load :: "(string \<Rightarrow> bytes or_error) \<Rightarrow> (bytes \<Rightarrow> Config or_error) \<Rightarrow> string \<Rightarrow> Config or_error" where
  "Load ReadFile Unmarshal path =
     (case ReadFile path of
        Inl err \<Rightarrow> Inl err
      | Inr b \<Rightarrow> (case Unmarshal b of Inl err \<Rightarrow> Inl err | Inr cfg \<Rightarrow> Inr cfg))"

section \<open>Names\<close>

definition parseCodecTypes :: "string \<Rightarrow> string \<Rightarrow> byte \<times> byte" where
  "parseCodecTypes codecStr compressStr =
     (if codecStr = ''protobuf'' then CodecTypeProtobuf else CodecTypeJSON,
      if compressStr = ''gzip'' then CompressTypeGzip else CompressTypeNone)"

datatype lb_kind = LbRoundRobin | LbRandom | LbWeighted | LbConsistentHash

text \<open>\<open>lbs\<close> makes a new balancer of each kind.\<close>

definition parseLoadBalancer :: "(lb_kind \<Rightarrow> 'b LoadBalancer_iface \<times> 'b) \<Rightarrow> string \<Rightarrow> ('b LoadBalancer_iface \<times> 'b) option" where
  "parseLoadBalancer lbs name =
     (if name \<in> {''round_robin'', ''roundrobin'', ''rr''} then Some (lbs LbRoundRobin)
      else if name = ''random'' then Some (lbs LbRandom)
      else if name \<in> {''weighted'', ''weighted_round_robin''} then Some (lbs LbWeighted)
      else if name \<in> {''consistent_hash'', ''consistent''} then Some (lbs LbConsistentHash)
      else None)"

section \<open>Options\<close>

definition BuildServerOptions :: "Config \<Rightarrow> ('c, 'm, 'v, 's, 'w, 'l) server_Option list" where
  "BuildServerOptions cfg =
     (let sc = cf_Server cfg in
      case parseCodecTypes (sf_Codec sc) (sf_Compress sc) of
        (codecType, compressType) \<Rightarrow>
          [server_WithAddress (sf_Address sc), server_WithCodec codecType compressType]
          @ (if sf_ReadTimeout sc > 0 \<or> sf_WriteTimeout sc > 0 then [server_WithTimeout (sf_ReadTimeout sc) (sf_WriteTimeout sc)] else [])
          @ (if sf_MaxConcurrent sc > 0 \<or> sf_WorkerPoolSize sc > 0 then [WithConcurrency (sf_MaxConcurrent sc) (sf_WorkerPoolSize sc)] else [])
          @ (if sf_HeartbeatInterval sc > 0 then [WithHeartbeatInterval (sf_HeartbeatInterval sc)] else []))"

definition BuildClientOptions ::
    "(lb_kind \<Rightarrow> 'b LoadBalancer_iface \<times> 'b) \<Rightarrow> Config \<Rightarrow> ('m, 'v, 's, 'w, 'x, 'b) client_Option list" where
  "BuildClientOptions lbs cfg =
     (let cc = cf_Client cfg;
          maxConn = (if pf_MaxSize (cf_Pool cfg) > 0 then pf_MaxSize (cf_Pool cfg) else kf_MaxConnections cc);
          minConn = (if pf_MinSize (cf_Pool cfg) > 0 then pf_MinSize (cf_Pool cfg) else kf_MinConnections cc) in
      case parseCodecTypes (kf_Codec cc) (kf_Compress cc) of
        (codecType, compressType) \<Rightarrow>
          [client_WithCodec codecType compressType, WithWatch (kf_Watch cc), WithCircuitBreaker (kf_CircuitBreaker cc)]
          @ (if maxConn > 0 \<or> minConn > 0 then [client_WithPoolSize maxConn minConn] else [])
          @ (if kf_CallTimeout cc > 0 then [client_WithTimeout (kf_CallTimeout cc)] else [])
          @ (case parseLoadBalancer lbs (kf_LoadBalancer cc) of Some lb \<Rightarrow> [WithLoadBalancer lb] | None \<Rightarrow> []))"

section \<open>Properties of a configured application\<close>

lemma built_server_options:
  "apply_options (BuildServerOptions cfg) defaultServerOptions =
     defaultServerOptions\<lparr>so_address := sf_Address (cf_Server cfg),
       so_codecType := fst (parseCodecTypes (sf_Codec (cf_Server cfg)) (sf_Compress (cf_Server cfg))),
       so_compressType := snd (parseCodecTypes (sf_Codec (cf_Server cfg)) (sf_Compress (cf_Server cfg))),
       so_readTimeout := (if sf_ReadTimeout (cf_Server cfg) > 0 \<or> sf_WriteTimeout (cf_Server cfg) > 0 then sf_ReadTimeout (cf_Server cfg) else 10 * Second),
       so_writeTimeout := (if sf_ReadTimeout (cf_Server cfg) > 0 \<or> sf_WriteTimeout (cf_Server cfg) > 0 then sf_WriteTimeout (cf_Server cfg) else 10 * Second),
       so_maxConcurrent := (if sf_MaxConcurrent (cf_Server cfg) > 0 \<or> sf_WorkerPoolSize (cf_Server cfg) > 0 then sf_MaxConcurrent (cf_Server cfg) else 0),
       so_workerPoolSize := (if sf_MaxConcurrent (cf_Server cfg) > 0 \<or> sf_WorkerPoolSize (cf_Server cfg) > 0 then sf_WorkerPoolSize (cf_Server cfg) else 8),
       so_heartbeatInterval := (if sf_HeartbeatInterval (cf_Server cfg) > 0 then sf_HeartbeatInterval (cf_Server cfg) else 5 * Second)\<rparr>"
  by (simp add: BuildServerOptions_def server_defs Let_def split: prod.splits)

text \<open>Whatever the file says, the server and the client get a codec and a compressor that exist.\<close>

theorem configured_codecs_exist:
  assumes "init_codecs lib = Some codecs" and "init_compressors lib = Some comps"
    and "srv = NewServer codecs comps lg (BuildServerOptions cfg)" and "copts = apply_options (BuildClientOptions lbs cfg) (defaultOptions rr)"
  shows "srv_codec srv \<noteq> None \<and> GetCompressor (so_compressType (srv_opts srv)) comps \<noteq> None
    \<and> codec_Get (co_codecType copts) codecs \<noteq> None"
proof -
  have "codec_Get (fst (parseCodecTypes a b)) codecs \<noteq> None" "GetCompressor (snd (parseCodecTypes a b)) comps \<noteq> None" for a b
    using assms(1,2) by (auto simp: parseCodecTypes_def init_codecs_eq init_compressors_eq codec_Get_def GetCompressor_def)
  moreover have "co_codecType copts = fst (parseCodecTypes (kf_Codec (cf_Client cfg)) (kf_Compress (cf_Client cfg)))"
    by (simp add: assms(4) BuildClientOptions_def client_defs Let_def split: prod.splits option.splits)
  moreover have "srv_codec srv = codec_Get (so_codecType (srv_opts srv)) codecs"
    by (simp add: assms(3) NewServer_def Let_def)
  ultimately show ?thesis
    by (simp add: assms(3) built_server_options)
qed

text \<open>
  Setting one of the two server timeouts switches the other one off: with only a read timeout in the
  file, writes have no deadline any more, although the default is ten seconds.
\<close>

lemma one_timeout_clears_other:
  assumes "sf_ReadTimeout (cf_Server cfg) > 0" and "sf_WriteTimeout (cf_Server cfg) = 0" and "opts = BuildServerOptions cfg"
  shows "tso_WriteTimeout (sv_opts (srv_Transport (NewServer codecs comps lg opts))) = 0"
proof -
  have "so_writeTimeout (apply_options opts defaultServerOptions) = 0" "so_transportOptions (apply_options opts defaultServerOptions) = []"
    using assms by (simp_all add: built_server_options, simp add: server_defs)
  then show ?thesis
    using NewServer_transport_options [OF refl, of codecs comps lg opts] by simp
qed

end
