(* ===== verification/Etcd_Registry.thy ===== *)
theory Etcd_Registry
  imports Memory_Registry Circuit_Breaker "HOL-Library.Sublist" "HOL-Library.AList"
begin

text \<open>
  The registry and discovery on etcd (\<open>pkg/registry/etcd\<close>). The etcd client is the parameter \<open>et\<close>, a
  record of operations on the state \<open>'e\<close> of the cluster; what the statements rely on of it is \<open>etcd_behaves\<close>.
  The JSON form of an instance is the pair \<open>js\<close> of an encoder and a decoder; the decoder
  gives what is in the variable afterwards, which an error may leave partly filled, and the error.
\<close>

section \<open>The client\<close>

record etcd_Config =
  ec_Endpoints :: "string list"
  ec_DialTimeout :: duration
  ec_KeyPrefix :: string
  ec_LeaseTTL :: int

definition etcd_DefaultConfig :: etcd_Config where
  "etcd_DefaultConfig = \<lparr>ec_Endpoints = [''localhost:2379''], ec_DialTimeout = 5 * Second, ec_KeyPrefix = ''/rpc/services'', ec_LeaseTTL = 10\<rparr>"

record 'e etcd_client =
  et_New :: "string list \<Rightarrow> duration \<Rightarrow> 'e \<Rightarrow> 'e \<times> go_error option"
  et_Get :: "string \<Rightarrow> 'e \<Rightarrow> (string \<times> bytes) list or_error"
  et_GetPrefix :: "string \<Rightarrow> 'e \<Rightarrow> (string \<times> bytes) list or_error"
  et_Put :: "string \<Rightarrow> bytes \<Rightarrow> int \<Rightarrow> 'e \<Rightarrow> 'e \<times> go_error option"
  et_Delete :: "string \<Rightarrow> 'e \<Rightarrow> 'e \<times> go_error option"
  et_Grant :: "int \<Rightarrow> 'e \<Rightarrow> 'e \<times> int or_error"
  et_KeepAlive :: "int \<Rightarrow> 'e \<Rightarrow> 'e \<times> go_error option"
  et_KeepAliveOnce :: "int \<Rightarrow> 'e \<Rightarrow> 'e \<times> go_error option"
  et_Revoke :: "int \<Rightarrow> 'e \<Rightarrow> 'e"
  et_Close :: "'e \<Rightarrow> 'e \<times> go_error option"

type_synonym instance_json = "(ServiceInstance \<Rightarrow> bytes or_error) \<times> (bytes \<Rightarrow> ServiceInstance \<times> go_error option)"

record EtcdClient =
  ek_config :: etcd_Config

definition NewEtcdClient :: "'e etcd_client \<Rightarrow> etcd_Config option \<Rightarrow> 'e \<Rightarrow> 'e \<times> EtcdClient or_error" where
  "NewEtcdClient et config e =
     (let cfg = (case config of None \<Rightarrow> etcd_DefaultConfig | Some c \<Rightarrow> c) in
      case et_New et (ec_Endpoints cfg) (ec_DialTimeout cfg) e of
        (e', Some err) \<Rightarrow> (e', Inl (Wrapped ''create etcd client: '' err []))
      | (e', None) \<Rightarrow> (e', Inr \<lparr>ek_config = cfg\<rparr>))"

definition EtcdClient_Close :: "'e etcd_client \<Rightarrow> 'e \<Rightarrow> 'e \<times> go_error option" where
  "EtcdClient_Close et e = et_Close et e"

definition serviceKey :: "EtcdClient \<Rightarrow> string \<Rightarrow> string \<Rightarrow> string" where
  "serviceKey ec service instanceID = ec_KeyPrefix (ek_config ec) @ ''/'' @ service @ ''/'' @ instanceID"

definition servicePrefix :: "EtcdClient \<Rightarrow> string \<Rightarrow> string" where
  "servicePrefix ec service = ec_KeyPrefix (ek_config ec) @ ''/'' @ service @ ''/''"

section \<open>The registry\<close>

record EtcdRegistry =
  er_client :: EtcdClient
  er_leaseID :: int
  er_stopCh :: "unit chan"

text \<open>The goroutine that drains the keep-alive channel is started on success.\<close>

definition createLease :: "'e etcd_client \<Rightarrow> EtcdRegistry \<Rightarrow> 'e \<Rightarrow> 'e \<times> EtcdRegistry \<times> go_error option" where
  "createLease et er e =
     (case et_Grant et (ec_LeaseTTL (ek_config (er_client er))) e of
        (e1, Inl err) \<Rightarrow> (e1, er, Some (Wrapped ''grant lease: '' err []))
      | (e1, Inr lease) \<Rightarrow>
          (case et_KeepAlive et lease e1 of
             (e2, Some err) \<Rightarrow> (e2, er\<lparr>er_leaseID := lease\<rparr>, Some (Wrapped ''keep alive lease: '' err []))
           | (e2, None) \<Rightarrow> (e2, er\<lparr>er_leaseID := lease\<rparr>, None)))"

definition NewEtcdRegistry :: "'e etcd_client \<Rightarrow> etcd_Config option \<Rightarrow> 'e \<Rightarrow> 'e \<times> EtcdRegistry or_error" where
  "NewEtcdRegistry et config e =
     (case NewEtcdClient et config e of
        (e1, Inl err) \<Rightarrow> (e1, Inl (Errorf (''create etcd client error: '' @ error_msg err)))
      | (e1, Inr client) \<Rightarrow>
          (case createLease et \<lparr>er_client = client, er_leaseID = 0, er_stopCh = make_chan 0\<rparr> e1 of
             (e2, er, Some err) \<Rightarrow> (e2, Inl (Errorf (''create lease error: '' @ error_msg err)))
           | (e2, er, None) \<Rightarrow> (e2, Inr er)))"

text \<open>What the goroutine meets: the stop channel, a response (nil or not), the end of the channel. It returns or goes on.\<close>

datatype ka_event = KaStop | KaResponse bool | KaClosed

fun listenKeepAlive :: "ka_event list \<Rightarrow> bool" where
  "listenKeepAlive [] = False"
| "listenKeepAlive (KaStop # evs) = True"
| "listenKeepAlive (KaClosed # evs) = True"
| "listenKeepAlive (KaResponse isNil # evs) = (if isNil then True else listenKeepAlive evs)"

definition etcd_Register :: "'e etcd_client \<Rightarrow> instance_json \<Rightarrow> EtcdRegistry \<Rightarrow> ServiceInstance \<Rightarrow> 'e \<Rightarrow> 'e \<times> go_error option" where
  "etcd_Register et js er inst e =
     (case fst js inst of
        Inl err \<Rightarrow> (e, Some (Wrapped ''marshal instance: '' err []))
      | Inr v \<Rightarrow>
          (case et_Put et (serviceKey (er_client er) (si_Service inst) (si_ID inst)) v (er_leaseID er) e of
             (e', Some err) \<Rightarrow> (e', Some (Wrapped ''put to etcd: '' err []))
           | (e', None) \<Rightarrow> (e', None)))"

definition etcd_Deregister :: "'e etcd_client \<Rightarrow> EtcdRegistry \<Rightarrow> string \<Rightarrow> string \<Rightarrow> 'e \<Rightarrow> 'e \<times> go_error option" where
  "etcd_Deregister et er service instanceID e =
     (case et_Delete et (serviceKey (er_client er) service instanceID) e of
        (e', Some err) \<Rightarrow> (e', Some (Errorf (''delete service instance: '' @ instanceID @ '' from etcd: '' @ error_msg err)))
      | (e', None) \<Rightarrow> (e', None))"

definition etcd_Heartbeat :: "'e etcd_client \<Rightarrow> EtcdRegistry \<Rightarrow> string \<Rightarrow> string \<Rightarrow> 'e \<Rightarrow> 'e \<times> go_error option" where
  "etcd_Heartbeat et er service instanceID e =
     (case et_KeepAliveOnce et (er_leaseID er) e of
        (e', Some err) \<Rightarrow> (e', Some (Wrapped ''keepalive once: '' err []))
      | (e', None) \<Rightarrow> (e', None))"

definition etcd_Update :: "'e etcd_client \<Rightarrow> instance_json \<Rightarrow> EtcdRegistry \<Rightarrow> ServiceInstance \<Rightarrow> 'e \<Rightarrow> 'e \<times> go_error option" where
  "etcd_Update et js er inst e = etcd_Register et js er inst e"

text \<open>\<open>None\<close>: closing the stop channel a second time panics.\<close>

definition EtcdRegistry_Close :: "'e etcd_client \<Rightarrow> EtcdRegistry \<Rightarrow> 'e \<Rightarrow> ('e \<times> EtcdRegistry \<times> go_error option) option" where
  "EtcdRegistry_Close et er e =
     Option.bind (close_chan (er_stopCh er)) (\<lambda>ch.
       let e1 = (if er_leaseID er \<noteq> 0 then et_Revoke et (er_leaseID er) e else e) in
       case EtcdClient_Close et e1 of (e2, err) \<Rightarrow> Some (e2, er\<lparr>er_stopCh := ch\<rparr>, err))"

section \<open>Discovery\<close>

definition NewEtcdDiscovery :: "'e etcd_client \<Rightarrow> etcd_Config option \<Rightarrow> 'e \<Rightarrow> 'e \<times> EtcdClient or_error" where
  "NewEtcdDiscovery et config e = NewEtcdClient et config e"

fun decode_instances :: "(bytes \<Rightarrow> ServiceInstance \<times> go_error option) \<Rightarrow> (string \<times> bytes) list \<Rightarrow> ServiceInstance list" where
  "decode_instances un [] = []"
| "decode_instances un ((k, v) # kvs) =
     (case un v of
        (inst, Some err) \<Rightarrow> decode_instances un kvs
      | (inst, None) \<Rightarrow> if si_Status inst = StatusUp then inst # decode_instances un kvs else decode_instances un kvs)"

definition etcd_GetInstances :: "'e etcd_client \<Rightarrow> instance_json \<Rightarrow> EtcdClient \<Rightarrow> string \<Rightarrow> 'e \<Rightarrow> ServiceInstance list or_error" where
  "etcd_GetInstances et js ed service e =
     (case et_GetPrefix et (servicePrefix ed service) e of
        Inl err \<Rightarrow> Inl (Wrapped ''get instances: '' err [])
      | Inr kvs \<Rightarrow> Inr (decode_instances (snd js) kvs))"

definition etcd_GetInstanceByID :: "'e etcd_client \<Rightarrow> instance_json \<Rightarrow> EtcdClient \<Rightarrow> string \<Rightarrow> string \<Rightarrow> 'e \<Rightarrow> ServiceInstance or_error" where
  "etcd_GetInstanceByID et js ed service instanceID e =
     (case et_Get et (serviceKey ed service instanceID) e of
        Inl err \<Rightarrow> Inl (Wrapped ''get instance by ID: '' err [])
      | Inr [] \<Rightarrow> Inl (Errorf (''instance not found: '' @ instanceID))
      | Inr ((k, v) # kvs) \<Rightarrow>
          (case snd js v of
             (inst, Some err) \<Rightarrow> Inl (Wrapped ''unmarshal service instance: '' err [])
           | (inst, None) \<Rightarrow>
               if si_Status inst \<noteq> StatusUp then Inl (Errorf (''instance is not up: '' @ instanceID)) else Inr inst))"

section \<open>Watching\<close>

text \<open>A change of a key: a deletion with the previous value if the server has it, or a write.\<close>

datatype etcd_event = EvDelete "bytes option" | EvPut bool bytes

record watch_response =
  wp_Err :: "go_error option"
  wp_Events :: "etcd_event list"

text \<open>The watch channel is named by the prefix it delivers the changes of.\<close>

record etcdWatcher =
  ew_watchCh :: string
  ew_stopCh :: "unit chan"
  ew_cancelled :: bool

definition etcd_Watch :: "EtcdClient \<Rightarrow> string \<Rightarrow> etcdWatcher" where
  "etcd_Watch ed service = \<lparr>ew_watchCh = servicePrefix ed service, ew_stopCh = make_chan 0, ew_cancelled = False\<rparr>"

definition zero_instance :: ServiceInstance where
  "zero_instance = \<lparr>si_ID = [], si_Service = [], si_Version = [], si_Address = [], si_Port = 0, si_Metadata = None,
     si_Weight = 0, si_Status = StatusUnknown, si_RegisterTime = zeroTime, si_UpdateTime = zeroTime\<rparr>"

text \<open>The loop over the events of one response: it returns at the first event it can read.\<close>

fun first_event :: "(bytes \<Rightarrow> ServiceInstance \<times> go_error option) \<Rightarrow> etcd_event list \<Rightarrow> (EventType \<times> ServiceInstance) option" where
  "first_event un [] = None"
| "first_event un (EvDelete prev # evs) =
     Some (EventTypeDelete, case prev of None \<Rightarrow> zero_instance | Some v \<Rightarrow> fst (un v))"
| "first_event un (EvPut isCreate v # evs) =
     (case un v of
        (inst, Some err) \<Rightarrow> first_event un evs
      | (inst, None) \<Rightarrow> Some (if isCreate then EventTypeAdd else EventTypeUpdate, inst))"

text \<open>
  What \<open>Next\<close> meets in its \<open>select\<close>: the stop channel, the end of the watch channel, a response. It
  returns with what is left for the next call, or waits (\<open>None\<close>).
\<close>

datatype watch_item = WStop | WClosed | WResponse watch_response

fun etcd_Next :: "(bytes \<Rightarrow> ServiceInstance \<times> go_error option) \<Rightarrow> watch_item list \<Rightarrow> ((EventType \<times> ServiceInstance) or_error \<times> watch_item list) option" where
  "etcd_Next un [] = None"
| "etcd_Next un (WStop # items) = Some (Inl (Errorf ''watcher stopped''), items)"
| "etcd_Next un (WClosed # items) = Some (Inl (Errorf ''watch channel closed''), items)"
| "etcd_Next un (WResponse r # items) =
     (case wp_Err r of
        Some err \<Rightarrow> Some (Inl err, items)
      | None \<Rightarrow> (case first_event un (wp_Events r) of Some ev \<Rightarrow> Some (Inr ev, items) | None \<Rightarrow> etcd_Next un items))"

text \<open>\<open>None\<close>: the second \<open>Stop\<close> panics.\<close>

definition etcdWatcher_Stop :: "etcdWatcher \<Rightarrow> etcdWatcher option" where
  "etcdWatcher_Stop w = map_option (\<lambda>ch. w\<lparr>ew_cancelled := True, ew_stopCh := ch\<rparr>) (close_chan (ew_stopCh w))"

text \<open>The calls of \<open>Next\<close> until it fails or waits: the events a watching client is given.\<close>

fun etcd_deliver :: "(bytes \<Rightarrow> ServiceInstance \<times> go_error option) \<Rightarrow> nat \<Rightarrow> watch_item list \<Rightarrow> (EventType \<times> ServiceInstance) list" where
  "etcd_deliver un 0 items = []"
| "etcd_deliver un (Suc fuel) items =
     (case etcd_Next un items of Some (Inr ev, rest) \<Rightarrow> ev # etcd_deliver un fuel rest | _ \<Rightarrow> [])"

text \<open>Every event of a response that can be read, which is what the watch reports.\<close>

fun readable_events :: "(bytes \<Rightarrow> ServiceInstance \<times> go_error option) \<Rightarrow> etcd_event list \<Rightarrow> (EventType \<times> ServiceInstance) list" where
  "readable_events un [] = []"
| "readable_events un (ev # evs) = (case first_event un [ev] of Some x \<Rightarrow> x # readable_events un evs | None \<Rightarrow> readable_events un evs)"

section \<open>What the code relies on of etcd\<close>

text \<open>
  \<open>kv\<close> reads the keys and values in the cluster's state. A write or a deletion that succeeds does just that
  to the key, and a read that succeeds gives the key, or the keys with the prefix, each once. Nothing
  is said about a call that fails.
\<close>

definition etcd_behaves :: "'e etcd_client \<Rightarrow> ('e \<Rightarrow> string \<rightharpoonup> bytes) \<Rightarrow> bool" where
  "etcd_behaves et kv \<longleftrightarrow>
     (\<forall>k v l e e'. et_Put et k v l e = (e', None) \<longrightarrow> kv e' = (kv e)(k \<mapsto> v)) \<and>
     (\<forall>k e e'. et_Delete et k e = (e', None) \<longrightarrow> kv e' = (kv e)(k := None)) \<and>
     (\<forall>k e kvs. et_Get et k e = Inr kvs \<longrightarrow> kvs = (case kv e k of None \<Rightarrow> [] | Some v \<Rightarrow> [(k, v)])) \<and>
     (\<forall>p e kvs. et_GetPrefix et p e = Inr kvs \<longrightarrow>
        distinct (map fst kvs) \<and> (\<forall>k v. (k, v) \<in> set kvs \<longleftrightarrow> kv e k = Some v \<and> prefix p k))"

lemma etcd_behavesD:
  assumes "etcd_behaves et kv"
  shows "et_Put et k v l e = (e', None) \<Longrightarrow> kv e' = (kv e)(k \<mapsto> v)"
    and "et_Delete et k e = (e', None) \<Longrightarrow> kv e' = (kv e)(k := None)"
    and "et_Get et k e = Inr kvs \<Longrightarrow> kvs = (case kv e k of None \<Rightarrow> [] | Some v \<Rightarrow> [(k, v)])"
    and "et_GetPrefix et p e = Inr kvs \<Longrightarrow> (k, v) \<in> set kvs \<longleftrightarrow> kv e k = Some v \<and> prefix p k"
  using assms unfolding etcd_behaves_def by blast+

section \<open>Registration and lookup\<close>

definition up_instances :: "(bytes \<Rightarrow> ServiceInstance \<times> go_error option) \<Rightarrow> EtcdClient \<Rightarrow> string \<Rightarrow> (string \<rightharpoonup> bytes) \<Rightarrow> ServiceInstance set" where
  "up_instances un ec service m =
     {inst. si_Status inst = StatusUp \<and> (\<exists>i v. m (serviceKey ec service i) = Some v \<and> un v = (inst, None))}"

lemma prefix_serviceKey: "prefix (servicePrefix ec service) k \<longleftrightarrow> (\<exists>i. k = serviceKey ec service i)"
  by (auto simp: prefix_def servicePrefix_def serviceKey_def)

lemma sep_append_eq:
  "c \<notin> set xs \<Longrightarrow> c \<notin> set ys \<Longrightarrow> xs @ c # us = ys @ c # vs \<longleftrightarrow> xs = ys \<and> us = vs"
proof (induction xs arbitrary: ys)
  case Nil
  then show ?case by (cases ys) auto
next
  case (Cons x xs)
  then show ?case by (cases ys) auto
qed

lemma serviceKey_inject:
  assumes "CHR ''/'' \<notin> set s" "CHR ''/'' \<notin> set s'"
  shows "serviceKey ec s i = serviceKey ec s' i' \<longleftrightarrow> s = s' \<and> i = i'"
  using sep_append_eq [OF assms] by (simp add: serviceKey_def)

lemma set_decode_instances:
  "set (decode_instances un kvs) = {inst. si_Status inst = StatusUp \<and> (\<exists>k v. (k, v) \<in> set kvs \<and> un v = (inst, None))}"
proof (induction kvs)
  case (Cons kv kvs)
  obtain k v where kv: "kv = (k, v)" by (cases kv)
  obtain inst err where un: "un v = (inst, err)" by (cases "un v")
  show ?case
    using un by (cases err) (auto simp: kv Cons.IH)
qed simp

lemma etcd_GetInstances_set:
  assumes "etcd_behaves et kv" "etcd_GetInstances et js ec service e = Inr l"
  shows "set l = up_instances (snd js) ec service (kv e)"
proof -
  obtain kvs where kvs: "et_GetPrefix et (servicePrefix ec service) e = Inr kvs" and l: "l = decode_instances (snd js) kvs"
    using assms(2) by (auto simp: etcd_GetInstances_def split: sum.splits)
  show ?thesis
    unfolding l set_decode_instances up_instances_def etcd_behavesD(4) [OF assms(1) kvs] prefix_serviceKey by blast
qed

lemma etcd_Register_kv:
  assumes "etcd_behaves et kv" "etcd_Register et js er inst e = (e', None)" "fst js inst = Inr v"
  shows "kv e' = (kv e)(serviceKey (er_client er) (si_Service inst) (si_ID inst) \<mapsto> v)"
  using assms by (auto simp: etcd_Register_def split: prod.splits option.splits dest: etcd_behavesD(1))

lemma etcd_Deregister_kv:
  assumes "etcd_behaves et kv" "etcd_Deregister et er service i e = (e', None)"
  shows "kv e' = (kv e)(serviceKey (er_client er) service i := None)"
  using assms by (auto simp: etcd_Deregister_def split: prod.splits option.splits dest: etcd_behavesD(2))

lemma up_instances_put:
  assumes "CHR ''/'' \<notin> set s" "CHR ''/'' \<notin> set service" "un v = (inst, None)"
  shows "up_instances un ec service (m(serviceKey ec s i \<mapsto> v)) =
    up_instances un ec service (m(serviceKey ec s i := None)) \<union> (if service = s \<and> si_Status inst = StatusUp then {inst} else {})"
  using assms(3) by (auto simp: up_instances_def serviceKey_inject [OF assms(2,1)] split: if_splits)

lemma up_instances_other:
  assumes "CHR ''/'' \<notin> set s" "CHR ''/'' \<notin> set service" "service \<noteq> s"
  shows "up_instances un ec service (m(serviceKey ec s i := None)) = up_instances un ec service m"
  using assms(3) by (auto simp: up_instances_def serviceKey_inject [OF assms(2,1)])


text \<open>A cluster kept as an association list, on which the statement is evaluated.\<close>

definition demo_etcd :: "(string \<times> bytes) list etcd_client" where
  "demo_etcd = \<lparr>et_New = (\<lambda>_ _ e. (e, None)),
     et_Get = (\<lambda>k e. Inr (case map_of e k of None \<Rightarrow> [] | Some v \<Rightarrow> [(k, v)])),
     et_GetPrefix = (\<lambda>p e. Inr (filter (\<lambda>(k, v). prefix p k) (AList.clearjunk e))),
     et_Put = (\<lambda>k v l e. (AList.update k v e, None)), et_Delete = (\<lambda>k e. (AList.delete k e, None)),
     et_Grant = (\<lambda>_ e. (e, Inr 7)), et_KeepAlive = (\<lambda>_ e. (e, None)), et_KeepAliveOnce = (\<lambda>_ e. (e, None)),
     et_Revoke = (\<lambda>_ e. e), et_Close = (\<lambda>e. (e, None))\<rparr>"

lemma demo_etcd_behaves: "etcd_behaves demo_etcd map_of"
  by (auto simp: etcd_behaves_def demo_etcd_def update_conv' delete_conv' distinct_map_filter distinct_clearjunk
      map_of_clearjunk map_of_eq_Some_iff [OF distinct_clearjunk, symmetric])

definition demo_instance :: ServiceInstance where
  "demo_instance = zero_instance\<lparr>si_ID := ''i'', si_Service := ''calc'', si_Status := StatusUp\<rparr>"

definition demo_registry :: EtcdRegistry where
  "demo_registry = \<lparr>er_client = \<lparr>ek_config = etcd_DefaultConfig\<rparr>, er_leaseID = 7, er_stopCh = make_chan 0\<rparr>"

definition demo_json :: instance_json where
  "demo_json = (\<lambda>_. Inr [1], \<lambda>_. (demo_instance, None))"


section \<open>The watch\<close>

lemma first_event_readable: "first_event un evs = (case readable_events un evs of [] \<Rightarrow> None | x # _ \<Rightarrow> Some x)"
  by (induction un evs rule: first_event.induct) (auto split: prod.splits option.splits)

lemma etcd_deliver_responses:
  "\<forall>r\<in>set rs. wp_Err r = None \<Longrightarrow> length rs \<le> fuel \<Longrightarrow>
   etcd_deliver un fuel (map WResponse rs) = concat (map (\<lambda>r. take 1 (readable_events un (wp_Events r))) rs)"
proof (induction rs arbitrary: fuel)
  case Nil
  then show ?case by (cases fuel) auto
next
  case (Cons r rs)
  then obtain n where n: "fuel = Suc n" by (cases fuel) auto
  have fewer: "etcd_deliver un (Suc n) (map WResponse rs) = etcd_deliver un n (map WResponse rs)"
    using Cons.IH [of n] Cons.IH [of "Suc n"] Cons.prems n by simp
  show ?case
    using Cons.prems Cons.IH [of n] fewer n
    by (cases "readable_events un (wp_Events r)") (simp_all add: first_event_readable)
qed

text \<open>(C32) An etcd watcher gives one event per response. Over responses without an error, the calls of Next
  give the first readable event of each response in order and nothing else, so the client sees every
  change exactly when no response carries two of them.\<close>

theorem etcd_watch_first_events:
  assumes "\<forall>r\<in>set rs. wp_Err r = None" "length rs \<le> fuel"
  shows "etcd_deliver un fuel (map WResponse rs) = concat (map (\<lambda>r. take 1 (readable_events un (wp_Events r))) rs) \<and>
    (etcd_deliver un fuel (map WResponse rs) = concat (map (\<lambda>r. readable_events un (wp_Events r)) rs) \<longleftrightarrow>
     (\<forall>r\<in>set rs. length (readable_events un (wp_Events r)) \<le> 1))"
proof -
  have len: "length (concat (map (\<lambda>r. take 1 (f r)) rs)) \<le> length (concat (map f rs))"
    for f :: "watch_response \<Rightarrow> (EventType \<times> ServiceInstance) list" and rs
    by (induction rs) auto
  have "concat (map (\<lambda>r. take 1 (f r)) rs) = concat (map f rs) \<longleftrightarrow> (\<forall>r\<in>set rs. length (f r) \<le> 1)"
    for f :: "watch_response \<Rightarrow> (EventType \<times> ServiceInstance) list"
  proof (induction rs)
    case (Cons r rs)
    show ?case
    proof (cases "length (f r) \<le> 1")
      case True
      then show ?thesis using Cons.IH by simp
    next
      case False
      then have "length (concat (map (\<lambda>r. take 1 (f r)) (r # rs))) < length (concat (map f (r # rs)))"
        using len [of f rs] by simp
      then show ?thesis using False by (metis less_irrefl list.set_intros(1))
    qed
  qed simp
  then show ?thesis by (simp only: etcd_deliver_responses [OF assms] simp_thms)
qed

definition demo_batch :: watch_response where
  "demo_batch = \<lparr>wp_Err = None, wp_Events = [EvPut True [1], EvDelete None]\<rparr>"

theorem etcd_watch_first_events_witness:
  "etcd_deliver (snd demo_json) 1 (map WResponse [demo_batch]) = [(EventTypeAdd, demo_instance)] \<and>
   length (readable_events (snd demo_json) (wp_Events demo_batch)) = 2"
  using etcd_watch_first_events [of "[demo_batch]" 1 "snd demo_json"] by (simp add: demo_batch_def demo_json_def)

section \<open>Stopping twice\<close>

lemma etcd_second_stop_panics:
  "etcdWatcher_Stop w = Some w' \<Longrightarrow> etcdWatcher_Stop w' = None"
  by (auto simp: etcdWatcher_Stop_def close_chan_def split: if_splits)

lemma etcd_second_close_panics:
  "EtcdRegistry_Close et er e = Some (e', er', err) \<Longrightarrow> EtcdRegistry_Close et er' e' = None"
  by (auto simp: EtcdRegistry_Close_def close_chan_def Let_def split: if_splits prod.splits)

text \<open>A key deleted from etcd that is not there is no error, where the memory registry reports one.\<close>

lemma etcd_Deregister_again:
  "etcd_behaves et kv \<Longrightarrow> etcd_Deregister et er s i e = (e1, None) \<Longrightarrow> etcd_Deregister et er s i e1 = (e2, None) \<Longrightarrow> kv e2 = kv e1"
  using etcd_Deregister_kv [of et kv er s i e e1] etcd_Deregister_kv [of et kv er s i e1 e2] by simp

text \<open>A service whose name continues another's after a slash is listed with it.\<close>

lemma nested_service_leaks: "servicePrefix ec ''a'' = take (length (servicePrefix ec ''a'')) (serviceKey ec ''a/b'' i)"
  by (simp add: servicePrefix_def serviceKey_def)

end
