(* ===== verification/Mini_RPC.thy ===== *)
theory Mini_RPC
  imports Frame_Codec
begin

text \<open>
  The small RPC of \<open>mini-rpc\<close>: messages (\<open>protocol/message.go\<close>), codecs (\<open>codec\<close>), the transports over TCP
  (\<open>transport\<close>), server and client. A message travels as four bytes of length and its JSON form. The value
  behind \<open>interface{}\<close> is a type variable, with \<open>None\<close> for nil; the JSON library is the parameter \<open>js\<close>.
\<close>

section \<open>Messages\<close>

record 'v mini_Request =
  mq_ID :: u64
  mq_Service :: string
  mq_Method :: string
  mq_Args :: "'v list"
  mq_Meta :: "(string \<rightharpoonup> string) option"

record 'v mini_Response =
  mp_ID :: u64
  mp_Error :: string
  mp_Data :: "'v option"

definition mini_IsError :: "'v mini_Response \<Rightarrow> bool" where
  "mini_IsError resp = (mp_Error resp \<noteq> [])"

text \<open>The counter of request IDs is a global variable.\<close>

definition mini_nextRequestID :: "u64 \<Rightarrow> u64 \<times> u64" where
  "mini_nextRequestID counter = (counter + 1, counter + 1)"

definition mini_NewRequest :: "string \<Rightarrow> string \<Rightarrow> 'v list \<Rightarrow> u64 \<Rightarrow> u64 \<times> 'v mini_Request" where
  "mini_NewRequest service meth args counter =
     (case mini_nextRequestID counter of (counter', i) \<Rightarrow>
        (counter', \<lparr>mq_ID = i, mq_Service = service, mq_Method = meth, mq_Args = args, mq_Meta = Some Map.empty\<rparr>))"

definition mini_NewResponse :: "u64 \<Rightarrow> 'v option \<Rightarrow> go_error option \<Rightarrow> 'v mini_Response" where
  "mini_NewResponse i data err =
     \<lparr>mp_ID = i, mp_Error = (case err of None \<Rightarrow> [] | Some e \<Rightarrow> error_msg e), mp_Data = data\<rparr>"

section \<open>Codecs\<close>

text \<open>The two kinds of value that are encoded. A decoder that fails leaves a value that nothing reads.\<close>

record 'v mini_Codec =
  mj_EncodeReq :: "'v mini_Request \<Rightarrow> bytes or_error"
  mj_DecodeReq :: "bytes \<Rightarrow> 'v mini_Request or_error"
  mj_EncodeResp :: "'v mini_Response \<Rightarrow> bytes or_error"
  mj_DecodeResp :: "bytes \<Rightarrow> 'v mini_Response or_error"

definition JSONCodecType :: string where "JSONCodecType = ''json''"

definition RegisterCodec :: "string \<Rightarrow> 'v mini_Codec \<Rightarrow> (string \<rightharpoonup> 'v mini_Codec) \<Rightarrow> (string \<rightharpoonup> 'v mini_Codec)" where
  "RegisterCodec codecType codec codecs = codecs(codecType \<mapsto> codec)"

definition GetCodec :: "string \<Rightarrow> (string \<rightharpoonup> 'v mini_Codec) \<Rightarrow> 'v mini_Codec option" where
  "GetCodec codecType codecs = codecs codecType"

text \<open>What the package's \<open>init\<close> leaves.\<close>

definition mini_codecs :: "'v mini_Codec \<Rightarrow> (string \<rightharpoonup> 'v mini_Codec)" where
  "mini_codecs js = RegisterCodec JSONCodecType js Map.empty"

section \<open>Connections\<close>

text \<open>
  The client's end of a connection: the bytes that are on their way to it, the state of the other end,
  and how many bytes each coming \<open>Read\<close> finds there. \<open>react\<close> is what the other end does when bytes reach it: it
  fails the write, or sends bytes back.
\<close>

record 'p sock =
  sk_in :: bytes
  sk_peer :: 'p
  sk_chunks :: "nat list"

type_synonym 'p react = "bytes \<Rightarrow> 'p \<Rightarrow> ('p \<times> bytes) or_error"

definition sock_Write :: "'p react \<Rightarrow> bytes \<Rightarrow> 'p sock \<Rightarrow> 'p sock \<times> go_error option" where
  "sock_Write react b k =
     (case react b (sk_peer k) of
        Inl e \<Rightarrow> (k, Some e)
      | Inr (p, out) \<Rightarrow> (k\<lparr>sk_peer := p, sk_in := sk_in k @ out\<rparr>, None))"

text \<open>A \<open>Read\<close> into a buffer of \<open>n\<close> bytes gives at least one byte when there is one, and not more than it finds.\<close>

definition sock_Read :: "nat \<Rightarrow> 'p sock \<Rightarrow> 'p sock \<times> bytes or_error" where
  "sock_Read n k =
     (if sk_in k = [] then (k, Inl (Sentinel EOF))
      else (let c = (case sk_chunks k of [] \<Rightarrow> n | m # _ \<Rightarrow> max 1 (min m n)) in
            (k\<lparr>sk_in := drop c (sk_in k), sk_chunks := tl (sk_chunks k)\<rparr>, Inr (take c (sk_in k)))))"

definition sock_ReadFull :: "nat \<Rightarrow> 'p sock \<Rightarrow> 'p sock \<times> bytes or_error" where
  "sock_ReadFull n k = (case ReadFull n (sk_in k) of (r, rest) \<Rightarrow> (k\<lparr>sk_in := rest\<rparr>, r))"

definition maxMessage :: nat where "maxMessage = 10 * 1024 * 1024"

section \<open>The client transport\<close>

record 'p TCPClientTransport =
  ct_addr :: string
  ct_conn :: "'p sock option"

definition NewTCPClientTransport :: "string \<Rightarrow> 'p TCPClientTransport" where
  "NewTCPClientTransport address = \<lparr>ct_addr = address, ct_conn = None\<rparr>"

definition ct_Connect :: "(string \<Rightarrow> 'p sock or_error) \<Rightarrow> 'p TCPClientTransport \<Rightarrow> 'p TCPClientTransport \<times> go_error option" where
  "ct_Connect dial c =
     (case dial (ct_addr c) of
        Inl err \<Rightarrow> (c, Some (Wrapped (''connect to '' @ ct_addr c @ '' failed: '') err []))
      | Inr conn \<Rightarrow> (c\<lparr>ct_conn := Some conn\<rparr>, None))"

text \<open>The length is read with one \<open>Read\<close> into a zeroed buffer, whose count is not looked at.\<close>

definition read_response :: "'p sock \<Rightarrow> 'p sock \<times> bytes or_error" where
  "read_response k =
     (case sock_Read 4 k of
        (k1, Inl err) \<Rightarrow> (k1, Inl (Wrapped ''failed to read response length: '' err []))
      | (k1, Inr got) \<Rightarrow>
          (let respLength = be32 (got @ replicate (4 - length got) 0) in
           if unat respLength > maxMessage
           then (k1, Inl (Errorf (''response too large: '' @ fmt_d (uint respLength) @ '' bytes'')))
           else (case sock_ReadFull (unat respLength) k1 of
                   (k2, Inl err) \<Rightarrow> (k2, Inl (Wrapped ''failed to read response data: '' err []))
                 | (k2, Inr response) \<Rightarrow> (k2, Inr response))))"

definition ct_Send :: "'p react \<Rightarrow> bytes \<Rightarrow> 'p TCPClientTransport \<Rightarrow> 'p TCPClientTransport \<times> bytes or_error" where
  "ct_Send react data c =
     (case ct_conn c of
        None \<Rightarrow> (c, Inl (Errorf ''not connected to server, call Connect() first''))
      | Some k \<Rightarrow>
          (case sock_Write react (PutUint32 (of_nat (length data))) k of
             (k1, Some err) \<Rightarrow> (c\<lparr>ct_conn := Some k1\<rparr>, Inl (Wrapped ''failed to send data length: '' err []))
           | (k1, None) \<Rightarrow>
               (case sock_Write react data k1 of
                  (k2, Some err) \<Rightarrow> (c\<lparr>ct_conn := Some k2\<rparr>, Inl (Wrapped ''failed to send data: '' err []))
                | (k2, None) \<Rightarrow> (case read_response k2 of (k3, r) \<Rightarrow> (c\<lparr>ct_conn := Some k3\<rparr>, r)))))"

definition ct_Close :: "('p sock \<Rightarrow> go_error option) \<Rightarrow> 'p TCPClientTransport \<Rightarrow> 'p TCPClientTransport \<times> go_error option" where
  "ct_Close closing c =
     (case ct_conn c of
        None \<Rightarrow> (c, None)
      | Some k \<Rightarrow>
          (case closing k of
             Some err \<Rightarrow> (c, Some (Wrapped ''failed to close connection: '' err []))
           | None \<Rightarrow> (c\<lparr>ct_conn := None\<rparr>, None)))"

section \<open>The server transport\<close>

text \<open>\<open>None\<close> as the outcome of a handler is a panic, which ends the process.\<close>

type_synonym 's RequestHandler = "bytes \<Rightarrow> 's \<Rightarrow> ('s \<times> bytes) option"

text \<open>One round of the loop of \<open>handleConnection\<close> up to the answer: what is left to read, the state and the response.\<close>

datatype 's turn = TurnEnd | TurnPanic | TurnReply bytes 's bytes

definition conn_turn :: "'s RequestHandler \<Rightarrow> bytes \<Rightarrow> 's \<Rightarrow> 's turn" where
  "conn_turn handler r s =
     (case ReadFull 4 r of
        (Inl e, _) \<Rightarrow> TurnEnd
      | (Inr lengthBuf, r1) \<Rightarrow>
          (if unat (be32 lengthBuf) > maxMessage then TurnEnd
           else (case ReadFull (unat (be32 lengthBuf)) r1 of
                   (Inl e, _) \<Rightarrow> TurnEnd
                 | (Inr data, r2) \<Rightarrow> (case handler data s of None \<Rightarrow> TurnPanic | Some (s1, response) \<Rightarrow> TurnReply r2 s1 response))))"

lemma conn_turn_shorter: "conn_turn handler r s = TurnReply r2 s1 response \<Longrightarrow> length r2 < length r"
  by (auto simp: conn_turn_def ReadFull_def split: if_splits option.splits prod.splits)

text \<open>The bytes a client sends until it closes its end, and a writer \<open>write\<close>; \<open>None\<close> is a panic of the handler.\<close>

function handleConnection ::
    "'s RequestHandler \<Rightarrow> (bytes \<Rightarrow> 'o \<Rightarrow> 'o \<times> go_error option) \<Rightarrow> bytes \<Rightarrow> 's \<Rightarrow> 'o \<Rightarrow> ('s \<times> 'o) option" where
  "handleConnection handler write r s out =
     (case conn_turn handler r s of
        TurnEnd \<Rightarrow> Some (s, out)
      | TurnPanic \<Rightarrow> None
      | TurnReply r2 s1 response \<Rightarrow>
          (case write (PutUint32 (of_nat (length response))) out of
             (out1, Some err) \<Rightarrow> Some (s1, out1)
           | (out1, None) \<Rightarrow>
               (case write response out1 of
                  (out2, Some err) \<Rightarrow> Some (s1, out2)
                | (out2, None) \<Rightarrow> handleConnection handler write r2 s1 out2)))"
  by pat_completeness auto

termination
  by (relation "measure (\<lambda>(handler, write, r, s, out). length r)") (auto dest: conn_turn_shorter)

declare handleConnection.simps [simp del]

record TCPServerTransport =
  st_addr :: string
  st_listener :: bool
  st_closed :: bool
  st_wg :: nat

definition NewTCPServerTransport :: TCPServerTransport where
  "NewTCPServerTransport = \<lparr>st_addr = [], st_listener = False, st_closed = False, st_wg = 0\<rparr>"

definition st_Listen :: "(string \<Rightarrow> go_error option) \<Rightarrow> string \<Rightarrow> TCPServerTransport \<Rightarrow> TCPServerTransport \<times> go_error option" where
  "st_Listen listen address s =
     (if st_listener s then (s, Some (Errorf (''already listening on '' @ st_addr s)))
      else (case listen address of
              Some err \<Rightarrow> (s, Some (Wrapped ''listen failed: '' err []))
            | None \<Rightarrow> (s\<lparr>st_addr := address, st_listener := True\<rparr>, None)))"

text \<open>
  What the accept loop meets: a connection, a failed \<open>Accept\<close>, and between them the end of a
  connection and a \<open>Close\<close> from another goroutine. The loop returns, or is still waiting (\<open>None\<close>).
\<close>

datatype accept_event = Accepted | AcceptFailed | ConnDone | MarkClosed

fun serve_loop :: "accept_event list \<Rightarrow> TCPServerTransport \<Rightarrow> TCPServerTransport \<times> unit option" where
  "serve_loop [] s = (s, None)"
| "serve_loop (Accepted # evs) s = serve_loop evs (s\<lparr>st_wg := Suc (st_wg s)\<rparr>)"
| "serve_loop (AcceptFailed # evs) s = (if st_closed s then (s, Some ()) else serve_loop evs s)"
| "serve_loop (ConnDone # evs) s = serve_loop evs (s\<lparr>st_wg := st_wg s - 1\<rparr>)"
| "serve_loop (MarkClosed # evs) s = serve_loop evs (s\<lparr>st_closed := True\<rparr>)"

definition st_Serve :: "accept_event list \<Rightarrow> TCPServerTransport \<Rightarrow> TCPServerTransport \<times> (go_error option) option" where
  "st_Serve evs s =
     (if \<not> st_listener s then (s, Some (Some (Errorf ''server not listening, call Listen() first'')))
      else (case serve_loop evs s of (s', r) \<Rightarrow> (s', map_option (\<lambda>_. None) r)))"

text \<open>\<open>None\<close>: \<open>Close\<close> waits for the connections that are still open.\<close>

definition st_Close :: "go_error option \<Rightarrow> TCPServerTransport \<Rightarrow> TCPServerTransport \<times> (go_error option) option" where
  "st_Close closing s =
     (if st_closed s then (s, Some None)
      else (let s1 = s\<lparr>st_closed := True\<rparr> in
            if st_listener s \<and> closing \<noteq> None then (s1, Some closing)
            else (s1, if st_wg s = 0 then Some None else None)))"

section \<open>The server\<close>

type_synonym ('v, 's) ServiceFunc = "string \<Rightarrow> 'v list \<Rightarrow> 's \<Rightarrow> ('s \<times> 'v option \<times> go_error option) option"

record ('v, 's) mini_Server =
  ms_addr :: string
  ms_transport :: TCPServerTransport
  ms_codec :: "'v mini_Codec option"
  ms_services :: "string \<rightharpoonup> ('v, 's) ServiceFunc"

definition mini_NewServer :: "(string \<rightharpoonup> 'v mini_Codec) \<Rightarrow> string \<Rightarrow> ('v, 's) mini_Server" where
  "mini_NewServer codecs addr =
     \<lparr>ms_addr = addr, ms_transport = NewTCPServerTransport, ms_codec = GetCodec JSONCodecType codecs, ms_services = Map.empty\<rparr>"

text \<open>\<open>None\<close>: a service that is registered twice panics.\<close>

definition mini_Register :: "string \<Rightarrow> ('v, 's) ServiceFunc \<Rightarrow> ('v, 's) mini_Server \<Rightarrow> ('v, 's) mini_Server option" where
  "mini_Register serviceName handler s =
     (case ms_services s serviceName of
        Some _ \<Rightarrow> None
      | None \<Rightarrow> Some (s\<lparr>ms_services := (ms_services s)(serviceName \<mapsto> handler)\<rparr>))"

text \<open>The error of the second encoding is dropped; \<open>json.Marshal\<close> gives no bytes then.\<close>

definition encode_or_nil :: "'v mini_Codec \<Rightarrow> 'v mini_Response \<Rightarrow> bytes" where
  "encode_or_nil js resp = (case mj_EncodeResp js resp of Inl e \<Rightarrow> [] | Inr b \<Rightarrow> b)"

definition mini_handleRequest :: "('v, 's) mini_Server \<Rightarrow> 's RequestHandler" where
  "mini_handleRequest srv data s =
     Option.bind (ms_codec srv) (\<lambda>js.
       case mj_DecodeReq js data of
         Inl err \<Rightarrow> Some (s, encode_or_nil js (mini_NewResponse 0 None (Some (Wrapped ''decode request failed: '' err []))))
       | Inr req \<Rightarrow>
           (case ms_services srv (mq_Service req) of
              None \<Rightarrow> Some (s, encode_or_nil js (mini_NewResponse (mq_ID req) None (Some (Errorf (''service '' @ mq_Service req @ '' not found'')))))
            | Some handler \<Rightarrow>
                Option.bind (handler (mq_Method req) (mq_Args req) s) (\<lambda>(s1, data, err).
                  case mj_EncodeResp js (mini_NewResponse (mq_ID req) data err) of
                    Inl e \<Rightarrow> Some (s1, encode_or_nil js (mini_NewResponse (mq_ID req) None (Some (Wrapped ''encode response failed: '' e []))))
                  | Inr respData \<Rightarrow> Some (s1, respData))))"

definition mini_Start ::
    "(string \<Rightarrow> go_error option) \<Rightarrow> accept_event list \<Rightarrow> ('v, 's) mini_Server \<Rightarrow> ('v, 's) mini_Server \<times> (go_error option) option" where
  "mini_Start listen evs s =
     (case st_Listen listen (ms_addr s) (ms_transport s) of
        (t, Some err) \<Rightarrow> (s\<lparr>ms_transport := t\<rparr>, Some (Some (Wrapped ''listen failed: '' err [CHR 0x0A])))
      | (t, None) \<Rightarrow> (case st_Serve evs t of (t', r) \<Rightarrow> (s\<lparr>ms_transport := t'\<rparr>, r)))"

definition mini_Stop :: "go_error option \<Rightarrow> ('v, 's) mini_Server \<Rightarrow> ('v, 's) mini_Server \<times> (go_error option) option" where
  "mini_Stop closing s = (case st_Close closing (ms_transport s) of (t, r) \<Rightarrow> (s\<lparr>ms_transport := t\<rparr>, r))"

section \<open>The client\<close>

record ('v, 'p) mini_Client =
  mc_addr :: string
  mc_transport :: "'p TCPClientTransport"
  mc_codec :: "'v mini_Codec option"
  mc_connected :: bool

definition mini_NewClient :: "(string \<rightharpoonup> 'v mini_Codec) \<Rightarrow> string \<Rightarrow> ('v, 'p) mini_Client" where
  "mini_NewClient codecs addr =
     \<lparr>mc_addr = addr, mc_transport = NewTCPClientTransport addr, mc_codec = GetCodec JSONCodecType codecs, mc_connected = False\<rparr>"

definition mini_Connect :: "(string \<Rightarrow> 'p sock or_error) \<Rightarrow> ('v, 'p) mini_Client \<Rightarrow> ('v, 'p) mini_Client \<times> go_error option" where
  "mini_Connect dial c =
     (if mc_connected c then (c, Some (Errorf ''already connected''))
      else (case ct_Connect dial (mc_transport c) of
              (t, Some err) \<Rightarrow> (c\<lparr>mc_transport := t\<rparr>, Some (Wrapped ''transport connect failed: '' err []))
            | (t, None) \<Rightarrow> (c\<lparr>mc_transport := t, mc_connected := True\<rparr>, None)))"

text \<open>What \<open>Call\<close> makes of the bytes it got.\<close>

definition mini_answer :: "'v mini_Codec \<Rightarrow> u64 \<Rightarrow> bytes \<Rightarrow> 'v option result" where
  "mini_answer js i respData =
     (case mj_DecodeResp js respData of
        Inl err \<Rightarrow> Err (Wrapped ''failed to decode response: '' err [])
      | Inr resp \<Rightarrow>
          if mp_ID resp \<noteq> i
          then Err (Errorf (''mismatched response ID: got '' @ fmt_d (uint (mp_ID resp)) @ '', want '' @ fmt_d (uint i)))
          else if mini_IsError resp then Err (Errorf (''server error: '' @ mp_Error resp))
          else Ok (mp_Data resp))"

text \<open>\<open>RPanic\<close>: there is no codec.\<close>

definition mini_Call ::
    "'p react \<Rightarrow> string \<Rightarrow> string \<Rightarrow> 'v list \<Rightarrow> u64 \<Rightarrow> ('v, 'p) mini_Client \<Rightarrow> u64 \<times> ('v, 'p) mini_Client \<times> 'v option result" where
  "mini_Call react service meth args counter c =
     (case mini_NewRequest service meth args counter of (counter', req) \<Rightarrow>
        (case mc_codec c of
           None \<Rightarrow> (counter', c, RPanic)
         | Some js \<Rightarrow>
             (case mj_EncodeReq js req of
                Inl err \<Rightarrow> (counter', c, Err (Wrapped ''failed to encode request: '' err []))
              | Inr reqData \<Rightarrow>
                  (case ct_Send react reqData (mc_transport c) of
                     (t, Inl err) \<Rightarrow> (counter', c\<lparr>mc_transport := t\<rparr>, Err (Wrapped ''failed to send request: '' err []))
                   | (t, Inr respData) \<Rightarrow> (counter', c\<lparr>mc_transport := t\<rparr>, mini_answer js (mq_ID req) respData)))))"

definition mini_Close :: "('p sock \<Rightarrow> go_error option) \<Rightarrow> ('v, 'p) mini_Client \<Rightarrow> ('v, 'p) mini_Client \<times> go_error option" where
  "mini_Close closing c =
     (if \<not> mc_connected c then (c, None)
      else (case ct_Close closing (mc_transport c) of (t, err) \<Rightarrow> (c\<lparr>mc_connected := False, mc_transport := t\<rparr>, err)))"

definition mini_IsConnected :: "('v, 'p) mini_Client \<Rightarrow> bool" where
  "mini_IsConnected c = mc_connected c"

section \<open>The server answers in order\<close>

definition mini_frame :: "bytes \<Rightarrow> bytes" where
  "mini_frame d = PutUint32 (of_nat (length d)) @ d"

lemma unat_length_u32: "n \<le> maxMessage \<Longrightarrow> unat (of_nat n :: u32) = n"
  by (simp add: maxMessage_def unat_of_nat take_bit_nat_eq_self)

lemma conn_turn_frame:
  assumes "length d \<le> maxMessage"
  shows "conn_turn handler (mini_frame d @ rest) s =
    (case handler d s of None \<Rightarrow> TurnPanic | Some (s1, response) \<Rightarrow> TurnReply rest s1 response)"
  using assms by (simp add: conn_turn_def mini_frame_def unat_length_u32)

lemma conn_turn_short: "length r < 4 \<Longrightarrow> conn_turn handler r s = TurnEnd"
  by (simp add: conn_turn_def ReadFull_def)

lemma conn_turn_length_only:
  "0 < n \<Longrightarrow> n \<le> maxMessage \<Longrightarrow> conn_turn handler (PutUint32 (of_nat n)) s = TurnEnd"
  using ReadFull_append [of "PutUint32 (of_nat n)" 4 "[]"]
  by (simp add: conn_turn_def unat_length_u32) (simp add: ReadFull_def)

text \<open>What a handler does to a sequence of messages.\<close>

fun mini_answers :: "'s RequestHandler \<Rightarrow> bytes list \<Rightarrow> 's \<Rightarrow> ('s \<times> bytes list) option" where
  "mini_answers handler [] s = Some (s, [])"
| "mini_answers handler (d # ds) s =
     Option.bind (handler d s) (\<lambda>(s1, r). map_option (\<lambda>(s2, rs). (s2, r # rs)) (mini_answers handler ds s1))"

text \<open>
  On a connection that carries whole messages, with at most a piece of a length behind them, the
  server writes one response for each, in their order, or its handler panics.
\<close>

lemma server_answers_in_order:
  assumes "\<forall>d\<in>set ds. length d \<le> maxMessage" "length rest < 4"
  shows "handleConnection handler (\<lambda>b out. (out @ b, None)) (concat (map mini_frame ds) @ rest) s out =
    map_option (\<lambda>(s', rs). (s', out @ concat (map mini_frame rs))) (mini_answers handler ds s)"
  using assms(1)
proof (induction ds arbitrary: s out)
  case Nil
  show ?case
    using conn_turn_short [OF assms(2), of handler s] by (simp add: handleConnection.simps [of handler _ rest])
next
  case (Cons d ds)
  have d: "conn_turn handler (mini_frame d @ concat (map mini_frame ds) @ rest) s =
      (case handler d s of None \<Rightarrow> TurnPanic | Some (s1, response) \<Rightarrow> TurnReply (concat (map mini_frame ds) @ rest) s1 response)"
    using Cons.prems by (intro conn_turn_frame) simp
  show ?case
  proof (cases "handler d s")
    case None
    then show ?thesis using d by (subst handleConnection.simps) simp
  next
    case (Some p)
    obtain s1 r where p: "p = (s1, r)" by (cases p)
    have "handleConnection handler (\<lambda>b out. (out @ b, None)) (mini_frame d @ concat (map mini_frame ds) @ rest) s out =
        handleConnection handler (\<lambda>b out. (out @ b, None)) (concat (map mini_frame ds) @ rest) s1 (out @ mini_frame r)"
      using Some p d by (subst handleConnection.simps) (simp add: mini_frame_def [of r])
    also have "\<dots> = map_option (\<lambda>(s', rs). (s', (out @ mini_frame r) @ concat (map mini_frame rs))) (mini_answers handler ds s1)"
      using Cons.prems by (intro Cons.IH) simp
    finally show ?thesis
      using Some p by (simp add: option.map_comp comp_def case_prod_unfold)
  qed
qed

section \<open>A call from end to end\<close>

text \<open>
  The server at the other end of a connection: it keeps the bytes that do not make a message yet, and
  answers a message when its last byte comes in.
\<close>

definition server_react :: "('v, 's) mini_Server \<Rightarrow> (bytes \<times> 's) react" where
  "server_react srv b p =
     (case p of (buf, s) \<Rightarrow>
        (case conn_turn (mini_handleRequest srv) (buf @ b) s of
           TurnReply r2 s1 response \<Rightarrow> Inr ((r2, s1), mini_frame response)
         | _ \<Rightarrow> Inr ((buf @ b, s), [])))"

text \<open>The next \<open>Read\<close> finds the four bytes of a length.\<close>

definition whole_read :: "'p sock \<Rightarrow> bool" where
  "whole_read k = (case sk_chunks k of [] \<Rightarrow> True | m # _ \<Rightarrow> 4 \<le> m)"

lemma read_response_frame:
  assumes "whole_read k" "sk_in k = mini_frame d" "length d \<le> maxMessage"
  shows "read_response k = (k\<lparr>sk_in := [], sk_chunks := tl (sk_chunks k)\<rparr>, Inr d)"
proof -
  have "sock_Read 4 k = (k\<lparr>sk_in := d, sk_chunks := tl (sk_chunks k)\<rparr>, Inr (PutUint32 (of_nat (length d))))"
    using assms(1,2) by (auto simp: sock_Read_def whole_read_def mini_frame_def PutUint32_def split: list.splits)
  then show ?thesis
    using assms(3) ReadFull_append [of d "length d" "[]"]
    by (simp add: read_response_def sock_ReadFull_def unat_length_u32)
qed

lemma ct_Send_exchange:
  assumes "ct_conn c = Some k" "whole_read k" "sk_in k = []" "sk_peer k = ([], s)"
    and "b \<noteq> []" "length b \<le> maxMessage"
    and "mini_handleRequest srv b s = Some (s1, rb)" "length rb \<le> maxMessage"
  shows "ct_Send (server_react srv) b c =
    (c\<lparr>ct_conn := Some (k\<lparr>sk_peer := ([], s1), sk_chunks := tl (sk_chunks k)\<rparr>)\<rparr>, Inr rb)"
proof -
  let ?len = "PutUint32 (of_nat (length b))"
  let ?k1 = "k\<lparr>sk_peer := (?len, s)\<rparr>"
  let ?k2 = "k\<lparr>sk_peer := ([], s1), sk_in := mini_frame rb\<rparr>"
  have "sock_Write (server_react srv) ?len k = (?k1, None)"
    using assms(3-6) conn_turn_length_only [of "length b" "mini_handleRequest srv" s] by (simp add: sock_Write_def server_react_def)
  moreover have "sock_Write (server_react srv) b ?k1 = (?k2, None)"
    using assms(3,6,7) conn_turn_frame [of b "mini_handleRequest srv" "[]" s]
    by (simp add: sock_Write_def server_react_def mini_frame_def)
  moreover have "read_response ?k2 = (?k2\<lparr>sk_in := [], sk_chunks := tl (sk_chunks ?k2)\<rparr>, Inr rb)"
    using assms(2,8) by (intro read_response_frame) (simp_all add: whole_read_def)
  ultimately show ?thesis
    using assms(1,3) by (simp add: ct_Send_def)
qed


text \<open>A service that adds one, and a codec for the two messages of a call of it.\<close>

definition demo_codec :: "nat mini_Codec" where
  "demo_codec = \<lparr>mj_EncodeReq = (\<lambda>q. Inr [1]),
     mj_DecodeReq = (\<lambda>_. Inr \<lparr>mq_ID = 1, mq_Service = ''S'', mq_Method = ''inc'', mq_Args = [41], mq_Meta = None\<rparr>),
     mj_EncodeResp = (\<lambda>r. Inr [2]), mj_DecodeResp = (\<lambda>_. Inr \<lparr>mp_ID = 1, mp_Error = [], mp_Data = Some 42\<rparr>)\<rparr>"

definition demo_service :: "(nat, nat) ServiceFunc" where
  "demo_service meth args s = (case args of [] \<Rightarrow> None | a # _ \<Rightarrow> Some (Suc s, Some (a + 1), None))"

definition demo_server :: "(nat, nat) mini_Server" where
  "demo_server = the (mini_Register ''S'' demo_service (mini_NewServer (mini_codecs demo_codec) '':8080''))"

definition demo_client :: "(nat, bytes \<times> nat) mini_Client" where
  "demo_client = fst (mini_Connect (\<lambda>_. Inr \<lparr>sk_in = [], sk_peer = ([], 0), sk_chunks = []\<rparr>)
     (mini_NewClient (mini_codecs demo_codec) ''localhost:8080''))"

lemmas demo_defs = demo_codec_def demo_server_def demo_client_def mini_Register_def mini_NewServer_def mini_NewClient_def
  mini_Connect_def ct_Connect_def NewTCPClientTransport_def mini_codecs_def RegisterCodec_def GetCodec_def


text \<open>
  A length that arrives in two pieces is misread: with one byte at the first read, the client takes the length
  of a response shorter than \<open>2^24\<close> bytes to be zero, gives its caller an empty response, and leaves the rest of the
  message to be taken for the next one.
\<close>

lemma split_length_misread:
  assumes "sk_in k = mini_frame d" "length d < 2 ^ 24" "sk_chunks k = 1 # cs"
  shows "read_response k = (k\<lparr>sk_in := tl (mini_frame d), sk_chunks := cs\<rparr>, Inr [])"
proof -
  have "drop_bit 24 (of_nat (length d) :: u32) = 0"
    using assms(2) by (simp only: word_unat_eq_iff unat_drop_bit_eq unat_0) (simp add: drop_bit_eq_div unat_of_nat take_bit_nat_eq_self)
  then obtain r where r: "mini_frame d = 0 # r"
    by (simp add: mini_frame_def PutUint32_def)
  have "sock_Read 4 k = (k\<lparr>sk_in := r, sk_chunks := cs\<rparr>, Inr [0])"
    using assms(1,3) by (simp add: sock_Read_def r)
  moreover have "be32 (0 # replicate 3 0) = 0"
    by (simp add: be32_def numeral_3_eq_3)
  ultimately show ?thesis
    by (simp add: read_response_def r sock_ReadFull_def ReadFull_def)
qed

end
