(* ===== verification/Spec2Isabelle.thy ===== *)
theory Spec2Isabelle
  imports Protocol_Header Error_Map Circuit_Breaker Rate_Limiter Load_Balancer
    Memory_Registry Interceptors Conn_Pool Server_History RPC_Server App_Config Etcd_Registry Mini_RPC
begin

text \<open>
  RPCinGo, an RPC framework in Go: verification development.

  \<^bold>\<open>The program and how its parts interact.\<close> A client call (\<open>pkg/client\<close>) runs through a chain of interceptors
  and, in discovery mode, a circuit breaker; it gets a connection from a pool, either of one fixed address or of an
  endpoint that a load balancer picks among the instances a registry knows; the multiplexing TCP client
  writes the request as a frame and matches the response by its ID. The TCP server reads frames, runs the
  server's handler in a goroutine per request, and writes the responses through one writer per connection. The
  high-level server dispatches a request through its interceptors to a registered method, maps errors to
  codes, and keeps itself registered by heartbeats. \<open>mini-rpc\<close> is a separate small RPC of the same shape.

  \<^bold>\<open>Conventions.\<close> A Go \<open>int\<close> or \<open>int64\<close> is an \<open>int\<close> with \<open>wrap64\<close> where the code computes, unsigned types are
  words; instants and durations are nanoseconds. A panic is \<open>None\<close> or \<open>RPanic\<close> or \<open>Panic\<close>, an error is a value of
  \<open>go_error\<close>. What the environment decides (clock, network, order of a map, random numbers, scheduler) is an
  argument. Concurrent code is a list of program counters and an executable step per
  goroutine, at the grain of locks, channel operations and atomic operations; \<open>reach\<close> is every interleaving.

  \<^bold>\<open>Theories, and what their lemmas show.\<close>
  \<^item> \<open>RPC_Prelude\<close>: bytes, big-endian integers, channels, formatting, the locale \<open>invariant_system\<close>.
    \<open>Goroutines\<close>: sums over goroutines of which one takes a step.
  \<^item> \<open>Protocol_Header\<close> (\<open>protocol/header.go\<close>): encoding and decoding of the 20-byte header are inverse; which
    buffers are accepted. \<open>Protocol_Message\<close> (\<open>error.go\<close>, \<open>metadata.go\<close>, \<open>request.go\<close>, \<open>response.go\<close>): the messages.
    \<open>Error_Map\<close> (\<open>server/error_map.go\<close>, \<open>client/error_map.go\<close>): which errors survive the way over the wire.
  \<^item> \<open>Payload_Codec\<close> (\<open>pkg/codec\<close>) and \<open>Frame_Codec\<close> (\<open>transport/tcp/codec.go\<close>): messages and streams of frames
    come back as sent, for both codecs through the locale \<open>body_codec\<close>; when \<open>writeFull\<close> returns.
  \<^item> \<open>Sliding_Window\<close>, \<open>Circuit_Breaker\<close> (\<open>pkg/circuitbreaker\<close>): the ring of buckets refines a shift register; the
    breaker rejects while open, trips, recovers, and never wedges unless a call panics.
  \<^item> \<open>Rate_Limiter\<close> (\<open>pkg/ratelimiter\<close>): both limiters keep their bounds over every history; locale \<open>rate_limiter\<close>.
  \<^item> \<open>Service_Instance\<close>, \<open>Load_Balancer\<close> (\<open>registry/instance.go\<close>, \<open>pkg/loadbalancer\<close>): membership for all four
    balancers (locale \<open>load_balancer\<close>), fairness, and consistent hashing against the successor on a ring.
  \<^item> \<open>Memory_Registry\<close> (\<open>registry/memory\<close>), \<open>Etcd_Registry\<close> (\<open>registry/etcd\<close>): lookups see registrations; what
    watchers see. The etcd client is a parameter and \<open>etcd_behaves\<close> is all that is assumed of it.
  \<^item> \<open>Interceptors\<close>, \<open>Tracing\<close> (\<open>pkg/interceptor\<close>): nesting, recovery, the attempts of a retry, span propagation.
  \<^item> \<open>Transport_Options\<close> (\<open>transport/options.go\<close>), \<open>TCP_Client\<close> (\<open>transport/tcp/client.go\<close>): a response reaches the
    call with its ID and no other, in every interleaving.
  \<^item> \<open>TCP_Server\<close> (\<open>transport/tcp/server.go\<close>), with the accounts of \<open>Server_Accounting\<close> and the invariant and
    properties in \<open>Server_History\<close>: each request is answered at most once, the limit on
    connections, progress.
  \<^item> \<open>Pool_Options\<close>, \<open>Conn_Pool\<close> (\<open>pool/pool.go\<close>), \<open>Pool_Manager\<close> (\<open>pool/pool_manager.go\<close>): the account of the
    connections of a pool, and one open pool per endpoint.
  \<^item> \<open>Service_Registry\<close> (\<open>server/service.go\<close>): registration by reflection and calls of registered methods;
    locale \<open>handler_table\<close>. \<open>Net_Address\<close>: what is used of \<open>net\<close> and \<open>strconv\<close>. \<open>RPC_Server\<close> (\<open>server/server.go\<close>,
    \<open>server/options.go\<close>): an answer for every outcome, and start to stop on a registry (locale \<open>registry_backend\<close>).
  \<^item> \<open>Discovery_Source\<close> (\<open>client/source.go\<close>), \<open>RPC_Client\<close> (\<open>client/client.go\<close>, \<open>options.go\<close>, \<open>affinity.go\<close>):
    the cache follows the registry, a call gives its connection back, and what failed calls do to the pool.
    \<open>App_Config\<close> (\<open>config/config.go\<close>): the options built from a configuration.
  \<^item> \<open>Mini_RPC\<close> (\<open>mini-rpc\<close>): responses in order, and a call from end to end.
  \<^item> This theory: a request and its response over the wire between the framework's client and server.

  \<^bold>\<open>Bounds and fuel.\<close> \<open>etcd_deliver\<close> takes fuel; its statements ask for at least the number of responses, and each
    call of \<open>Next\<close> consumes one. \<open>writeFull\<close> is a partial function, with a proof of when it returns. Other loops
    terminate by a measure or by structure. Frame bodies are shorter than \<open>2^32\<close> bytes, as the header's length
    field demands. The convergence of a watcher is stated for at most ten events, the size of its channel.

  \<^bold>\<open>Not modelled.\<close> The generated protobuf code, and the libraries the code only calls (JSON, protobuf, gzip,
  YAML, OpenTelemetry, etcd, the network), which are parameters; \<open>pkg/logger\<close>, which wraps the standard
  logger and returns nothing to its callers; \<open>InitTracerProvider\<close>, which configures OpenTelemetry; the interfaces
  of \<open>transport/transport.go\<close>, which have no code; the \<open>String\<close> methods and the stream codec of
  \<open>mini-rpc\<close>; the example programs, whose \<open>main\<close> functions print what calls return; tests and scripts.
  Memory-model effects below the grain of the steps (data races) are outside the model.
\<close>

section \<open>A request and its response over the wire\<close>

text \<open>
  The client encodes a request, the server reads it from the stream, handles it and encodes its
  response, and the client reads that. The result is the response the client has, and the state.
\<close>

definition exchange ::
    "('m, 'v) Codec registry \<Rightarrow> Compressor registry \<Rightarrow> ('m, 'v) ProtocolCodec \<Rightarrow> ('m, 'v) ProtocolCodec
     \<Rightarrow> (('m, 'v) Request \<Rightarrow> 's \<Rightarrow> 's \<times> ('m, 'v) Response result) \<Rightarrow> ('m, 'v) Request \<Rightarrow> 's \<Rightarrow> 's \<times> ('m, 'v) Response result" where
  "exchange codecs comps pcc pcs handle req s =
     (case res_bind (EncodeRequest pcc req) (\<lambda>bs. fst (ReadRequest codecs comps bs)) of
        Err e \<Rightarrow> (s, Err e)
      | RPanic \<Rightarrow> (s, RPanic)
      | Ok (h, rq) \<Rightarrow>
          (case handle rq s of (s1, r) \<Rightarrow>
             (s1, res_bind r (\<lambda>resp. res_bind (EncodeResponse pcs resp) (\<lambda>rs.
                res_bind (fst (ReadResponse codecs comps rs)) (\<lambda>(h, resp'). Ok resp'))))))"

text \<open>What the client has of each outcome of the handler.\<close>

definition outcome_seen :: "('m, 'v) lib \<Rightarrow> ('m, 'v) Request \<Rightarrow> ('m, 'v) outcome \<Rightarrow> ('m, 'v) Response \<Rightarrow> bool" where
  "outcome_seen lib req r resp =
     (case r of
        Ret v None \<Rightarrow> rs_Error resp = None \<and>
          (\<exists>q. encode_payload lib data_labels PayloadCodecUnknown v = Inr q \<and> rs_Data resp = payload_iface (fst q) \<and> rs_DataCodec resp = snd q)
      | Ret v (Some e) \<Rightarrow> map_option e_Code (rs_Error resp) = Some (fst (mapError e (rq_Service req) (rq_Method req)))
      | Panic m \<Rightarrow> map_option e_Code (rs_Error resp) = Some ErrorCodeInternal)"

lemma exchange_Ok:
  assumes "init_codecs lib = Some codecs" "init_compressors lib = Some comps" "gzip_inverts lib"
    and "request_ok lib req p" "EncodeRequest (NewProtocolCodec codecs comps ct zt) req = Ok bs" "length bs < 2 ^ 32"
    and "handle (received_request p req) s = (s1, Ok resp)"
    and "response_ok lib resp q" "EncodeResponse (NewProtocolCodec codecs comps ct' zt') resp = Ok rs" "length rs < 2 ^ 32"
  shows "exchange codecs comps (NewProtocolCodec codecs comps ct zt) (NewProtocolCodec codecs comps ct' zt') handle req s =
    (s1, Ok (received_response q resp))"
  using read_request_back [OF assms(1-6), of "[]"] read_response_back [OF assms(1-3,8-10), of "[]"] assms(5,7,9)
  by (auto simp: exchange_def)

lemma received_request_simps [simp]:
  "rq_ID (received_request p req) = rq_ID req" "rq_Service (received_request p req) = rq_Service req"
  "rq_Method (received_request p req) = rq_Method req"
  by (simp_all add: received_request_def)

lemma received_response_simps [simp]:
  "rs_ID (received_response p resp) = rs_ID resp" "rs_Error (received_response p resp) = rs_Error resp"
  "rs_Data (received_response p resp) = payload_iface (fst p)" "rs_DataCodec (received_response p resp) = snd p"
  by (simp_all add: received_response_def)

text \<open>The response of a server behind its recovery interceptor, as the client will see it.\<close>

lemma HandleRequest_seen:
  assumes "srv_interceptors srv = [Recovery stack]"
    and "handler_of (srv_registry srv) (rq_Service req, rq_Method req) = Some f"
    and "f ctx req (putR req s) = (s1, r)" "getR s1 = req"
  shows "\<exists>resp. HandleRequest getR putR now srv ctx req s = (s1, Ok resp) \<and> rs_ID resp = rq_ID req \<and>
    (\<forall>lib q. response_ok lib resp q \<longrightarrow> outcome_seen lib req r (received_response q resp))"
proof -
  have d: "dispatch (srv_registry srv) ctx req (putR req s) = (s1, r)"
    using methods.get_present [OF assms(2)] assms(3) by (simp add: dispatch_def)
  show ?thesis
  proof (cases r)
    case (Panic m)
    then show ?thesis
      using HandleRequest_panic [where getR = getR and putR = putR and s = s and now = now, OF assms(1) d [unfolded Panic] assms(4)]
      by (auto simp: outcome_seen_def)
  next
    case (Ret v err)
    show ?thesis
    proof (cases err)
      case None
      have "\<exists>resp. HandleRequest getR putR now srv ctx req s = (s1, Ok resp) \<and> rs_ID resp = rq_ID req \<and> rs_Error resp = None
          \<and> rs_Data resp = v \<and> rs_DataCodec resp = PayloadCodecUnknown"
        using assms(1,4) d Ret None
        by (auto simp: HandleRequest_def Intercept_Recovery Recovery_def Let_def NewSuccessResponse_def Response_SetMetadata_def split: prod.splits)
      then show ?thesis
        using Ret None by (auto simp: outcome_seen_def response_ok_def)
    next
      case (Some e)
      then show ?thesis
        using HandleRequest_error [where getR = getR and putR = putR and s = s and now = now, OF assms(1) d [unfolded Ret Some] assms(4)] Ret
        by (auto simp: outcome_seen_def)
    qed
  qed
qed


definition answering_server :: "(unit, unit, unit, (unit, unit) Request, unit, unit) Server" where
  "answering_server = Server_Use [Recovery ''stack'']
     (fst (Server_RegisterMethod ''svc'' ''m'' (\<lambda>ctx req s. (s, Ret (IBytes [9]) None)) (NewServer Map.empty Map.empty () [])))"

lemma answering_server_simps:
  "srv_interceptors answering_server = [Recovery ''stack'']"
  "handler_of (srv_registry answering_server) (''svc'', ''m'') = Some (\<lambda>ctx req s. (s, Ret (IBytes [9]) None))"
  by (simp_all add: answering_server_def Server_Use_def Server_RegisterMethod_def NewServer_def server_defs svc_defs handler_of_def Let_def)

lemma answering_server_answers:
  assumes "HandleRequest id (\<lambda>r s. r) 3 answering_server () (received_request ([1, 2], PayloadCodecRaw) sample_rq) s = (s1, Ok resp)"
  shows "resp = sample_rs"
proof -
  let ?rq = "received_request ([1, 2], PayloadCodecRaw) sample_rq"
  have "rq_Service ?rq = ''svc''" "rq_Method ?rq = ''m''" "rq_ID ?rq = 7" "rq_Metadata ?rq = Some Map.empty"
    by (simp_all add: Payload_Codec.sample_defs received_request_def md_map_def)
  then show ?thesis
    using assms methods.get_present [OF answering_server_simps(2)] answering_server_simps(1)
    by (auto simp: HandleRequest_def Intercept_Recovery Recovery_def dispatch_def Let_def Request_GetMetadata_def Metadata_Get_def
        NewSuccessResponse_def sample_rs_def NewResponse_def md_map_def split: if_splits)
qed


end
